(* ===== verification/Prelude.thy ===== *)
theory Prelude
  imports Main "HOL-Library.Word"
begin

text \<open>
  Shared vocabulary of the development.

  \<^item> C types of an i386 build: \<open>uint\<close>, \<open>ushort\<close>, \<open>uchar\<close> are words of 32, 16 and 8 bits;
    a signed \<open>int\<close> is an \<open>int\<close> and \<open>i32\<close> is the two's complement wrap-around, written where
    the code can overflow.
  \<^item> \<open>('a, 's) run\<close> is what one call of a C function does from a state: \<open>None\<close> when it never
    returns because a loop of it never ends, \<open>Some (Inl st)\<close> when it stops for one of the
    reasons of \<open>stop\<close>, and \<open>Some (Inr (a, s))\<close> when it returns \<open>a\<close> in state \<open>s\<close>.
    \<open>kbind\<close> is sequential composition.
  \<^item> the collections \<open>heap_simps\<close>, \<open>run_simps\<close> and \<open>model_defs\<close> carry the component proofs.
\<close>

unbundle bit_operations_syntax

named_theorems run_simps "evaluation of the control combinators"
named_theorems heap_simps "reads of updated heaps"
named_theorems model_defs "definitions that symbolic execution unfolds"

type_synonym uint = "32 word"
type_synonym ushort = "16 word"
type_synonym uchar = "8 word"
type_synonym addr = "32 word"

section \<open>Signed 32-bit arithmetic\<close>

definition i32 :: "int \<Rightarrow> int" where
  "i32 x = (x + 2147483648) mod 4294967296 - 2147483648"

lemma i32_id [simp]: "-2147483648 \<le> x \<Longrightarrow> x \<le> 2147483647 \<Longrightarrow> i32 x = x"
  by (simp add: i32_def)

lemma i32_range: "-2147483648 \<le> i32 x \<and> i32 x \<le> 2147483647"
proof -
  have "0 \<le> (x + 2147483648) mod 4294967296" and "(x + 2147483648) mod 4294967296 < 4294967296"
    by simp_all
  then show ?thesis by (simp add: i32_def)
qed

section \<open>Outcomes of a call\<close>

text \<open>
  \<open>Panic\<close> is a call of \<open>panic\<close> (libs/debug.h, src/debug/debug.c), which prints and spins;
  \<open>Undefined\<close> is an access outside an array or a read of an uninitialised variable;
  \<open>Switched s\<close> says that \<open>switch_to\<close> has left this activation: the processor runs another
  thread from state \<open>s\<close>, and what follows the call runs when this thread is resumed.
\<close>

datatype 's stop = Panic string | Undefined string | Switched 's

type_synonym ('a, 's) run = "('s stop + 'a \<times> 's) option"

definition kret :: "'a \<Rightarrow> 's \<Rightarrow> ('a, 's) run" where
  "kret a s = Some (Inr (a, s))"

definition kstop :: "'s stop \<Rightarrow> ('a, 's) run" where
  "kstop e = Some (Inl e)"

definition kbind :: "('a, 's) run \<Rightarrow> ('a \<Rightarrow> 's \<Rightarrow> ('b, 's) run) \<Rightarrow> ('b, 's) run" where
  "kbind m f = (case m of None \<Rightarrow> None | Some (Inl e) \<Rightarrow> Some (Inl e) | Some (Inr (a, s)) \<Rightarrow> f a s)"

definition klift :: "'a option \<Rightarrow> 's \<Rightarrow> ('a, 's) run" where
  "klift m s = (case m of None \<Rightarrow> None | Some a \<Rightarrow> kret a s)"

text \<open>A message that ends in a newline.\<close>

definition line :: "string \<Rightarrow> string" where
  "line m = m @ [CHR 0x0A]"

text \<open>\<open>assert(x, info)\<close> of libs/debug.h: a false condition panics with the message.\<close>

definition kassert :: "bool \<Rightarrow> string \<Rightarrow> 's \<Rightarrow> (unit, 's) run" where
  "kassert x info s = (if \<not> x then kstop (Panic info) else kret () s)"

text \<open>An access the C language leaves undefined unless the condition holds.\<close>

definition kguard :: "bool \<Rightarrow> string \<Rightarrow> 's \<Rightarrow> (unit, 's) run" where
  "kguard x info s = (if \<not> x then kstop (Undefined info) else kret () s)"

lemma kbind_kret [simp, run_simps]: "kbind (kret a s) f = f a s"
  by (simp add: kbind_def kret_def)

lemma kbind_kstop [simp, run_simps]: "kbind (kstop e) f = kstop e"
  by (simp add: kbind_def kstop_def)

lemma kbind_None [simp, run_simps]: "kbind None f = None"
  by (simp add: kbind_def)

text \<open>Symbolic execution evaluates the first call before it looks at what follows.\<close>

lemma kbind_cong [cong]: "m = m' \<Longrightarrow> kbind m f = kbind m' f"
  by simp

lemma klift_Some [simp, run_simps]: "klift (Some a) s = kret a s"
  by (simp add: klift_def)

lemma klift_None [simp, run_simps]: "klift None s = None"
  by (simp add: klift_def)

lemma kassert_True [simp, run_simps]: "x \<Longrightarrow> kassert x info s = kret () s"
  by (simp add: kassert_def)

lemma kassert_False [simp, run_simps]: "\<not> x \<Longrightarrow> kassert x info s = kstop (Panic info)"
  by (simp add: kassert_def)

lemma kguard_True [simp, run_simps]: "x \<Longrightarrow> kguard x info s = kret () s"
  by (simp add: kguard_def)

lemma kguard_False [simp, run_simps]: "\<not> x \<Longrightarrow> kguard x info s = kstop (Undefined info)"
  by (simp add: kguard_def)

lemma kret_inject [simp]: "kret a s = kret b t \<longleftrightarrow> a = b \<and> s = t"
  by (simp add: kret_def)

lemma kstop_inject [simp]: "kstop e = kstop e' \<longleftrightarrow> e = e'"
  by (simp add: kstop_def)

lemma kret_neq [simp]:
  "kret a s \<noteq> kstop e" "kstop e \<noteq> kret a s" "kret a s \<noteq> None" "kstop e \<noteq> None"
  "None \<noteq> kret a s" "None \<noteq> kstop e"
  by (simp_all add: kret_def kstop_def)

lemma kbind_eq_kret:
  "kbind m f = kret b t \<longleftrightarrow> (\<exists>a s. m = kret a s \<and> f a s = kret b t)"
  by (auto simp: kbind_def kret_def split: option.splits sum.splits)

lemma kbind_assoc: "kbind (kbind m f) g = kbind m (\<lambda>a s. kbind (f a s) g)"
  by (auto simp: kbind_def split: option.splits sum.splits)

text \<open>A loop may call itself below \<open>kbind\<close>.\<close>

lemma kbind_mono [partial_function_mono]:
  fixes B :: "('x \<Rightarrow> 'y option) \<Rightarrow> ('a, 's) run"
    and C :: "'a \<Rightarrow> 's \<Rightarrow> ('x \<Rightarrow> 'y option) \<Rightarrow> ('b, 's) run"
  assumes "mono_option B" and "\<And>a s. mono_option (\<lambda>f. C a s f)"
  shows "mono_option (\<lambda>f. kbind (B f) (\<lambda>a s. C a s f))"
proof (rule monotoneI)
  fix f g :: "'x \<Rightarrow> 'y option"
  assume fg: "fun_ord option_ord f g"
  have B: "option_ord (B f) (B g)"
    using assms(1) fg by (simp add: monotone_on_def)
  have C: "option_ord (C a s f) (C a s g)" for a s
    using assms(2) fg by (simp add: monotone_on_def)
  show "option_ord (kbind (B f) (\<lambda>a s. C a s f)) (kbind (B g) (\<lambda>a s. C a s g))"
  proof (cases "B f = B g")
    case True
    with C show ?thesis by (cases "B g") (auto simp: kbind_def flat_ord_def split: sum.split)
  next
    case False
    with B show ?thesis by (simp add: flat_ord_def)
  qed
qed

section \<open>Counted loops over pointers\<close>

text \<open>\<open>while(cnt < n) { p = p->next; cnt++; }\<close>, the way the sources walk a fixed number of links.\<close>

function adv :: "('p \<Rightarrow> 'p) \<Rightarrow> int \<Rightarrow> int \<Rightarrow> 'p \<Rightarrow> 'p" where
  "adv nx cnt n p = (if cnt < n then adv nx (cnt + 1) n (nx p) else p)"
  by pat_completeness auto
termination
  by (relation "measure (\<lambda>(nx, cnt, n, p). nat (n - cnt))") auto

declare adv.simps [simp del]

lemma adv_funpow: "adv nx cnt n p = (nx ^^ nat (n - cnt)) p"
proof (induction nx cnt n p rule: adv.induct)
  case (1 nx cnt n p)
  show ?case
  proof (cases "cnt < n")
    case True
    then have "nat (n - cnt) = Suc (nat (n - (cnt + 1)))" by simp
    with True 1 show ?thesis by (simp add: adv.simps [of nx cnt n p] funpow_swap1)
  next
    case False
    then show ?thesis by (simp add: adv.simps [of nx cnt n p])
  qed
qed

section \<open>Lists\<close>

lemma last_notin: "distinct (xs @ ys) \<Longrightarrow> xs \<noteq> [] \<Longrightarrow> last xs \<notin> set ys"
  by (metis disjoint_iff distinct_append last_in_set)

lemma hd_notin: "distinct (xs @ ys) \<Longrightarrow> ys \<noteq> [] \<Longrightarrow> hd ys \<notin> set xs"
  by (metis disjoint_iff distinct_append hd_in_set)

end
