(* ===== verification/Buddy.thy ===== *)
theory Buddy
  imports Prelude
begin

text \<open>
  src/pmm/buddy.c and \<open>count_pages\<close> of src/pmm/pmm.c: the page frame allocator.

  The \<open>phy_page_t\<close> structures are a heap from page pointers to records. A pointer is
  \<open>Pnull\<close> or \<open>PG i\<close>, that is \<open>&phy_pages[i]\<close>. \<open>Pnull\<close> is an address like another here: the
  boot page directory keeps virtual page 0 mapped (\<open>kern_entry\<close> writes \<open>pgd_tmp[0]\<close> and
  \<open>pte_0[0]\<close>, \<open>init_vmm\<close> leaves them), so the code's accesses through a null pointer read and
  write that memory, and \<open>SplitBlock\<close> depends on it. Indices of \<open>buddy_table\<close> outside
  \<open>0..16\<close> are \<open>Undefined\<close>. A list walk that never meets its end is \<open>None\<close>.
\<close>

section \<open>State\<close>

datatype pgptr = Pnull | PG nat

record phy_page =
  ref_num :: uint
  flags :: uint
  start_addr :: uint
  va :: uint
  pg_next :: pgptr
  pg_prev :: pgptr

record buddy_item =
  page_blk_list :: pgptr
  blk_num :: int

record pmm =
  phy_pages :: "pgptr \<Rightarrow> phy_page"
  buddy_table :: "int \<Rightarrow> buddy_item"
  phy_page_num :: int
  klog :: "string list"

record mmap_entry =
  mmap_size :: uint
  base_addr_low :: uint
  base_addr_high :: uint
  length_low :: uint
  length_high :: uint
  mmap_type :: uint

definition PGSIZE :: uint where "PGSIZE = 4096"
definition MAXSIZE :: uint where "MAXSIZE = 0x20000000"
definition MAX_PG_NUM :: int where "MAX_PG_NUM = 131072"
definition PHY_BUSY :: uint where "PHY_BUSY = 1"
definition PHY_FREE :: uint where "PHY_FREE = 0"

definition nxt :: "'a pmm_scheme \<Rightarrow> pgptr \<Rightarrow> pgptr" where
  "nxt s p = pg_next (phy_pages s p)"

definition prv :: "'a pmm_scheme \<Rightarrow> pgptr \<Rightarrow> pgptr" where
  "prv s p = pg_prev (phy_pages s p)"

definition upd_page :: "pgptr \<Rightarrow> (phy_page \<Rightarrow> phy_page) \<Rightarrow> 'a pmm_scheme \<Rightarrow> 'a pmm_scheme" where
  "upd_page p f s = s\<lparr>phy_pages := (phy_pages s)(p := f (phy_pages s p))\<rparr>"

definition upd_next :: "pgptr \<Rightarrow> pgptr \<Rightarrow> 'a pmm_scheme \<Rightarrow> 'a pmm_scheme" where
  "upd_next p v = upd_page p (pg_next_update (\<lambda>_. v))"

definition upd_prev :: "pgptr \<Rightarrow> pgptr \<Rightarrow> 'a pmm_scheme \<Rightarrow> 'a pmm_scheme" where
  "upd_prev p v = upd_page p (pg_prev_update (\<lambda>_. v))"

definition lst :: "'a pmm_scheme \<Rightarrow> int \<Rightarrow> pgptr" where
  "lst s i = page_blk_list (buddy_table s i)"

definition num :: "'a pmm_scheme \<Rightarrow> int \<Rightarrow> int" where
  "num s i = blk_num (buddy_table s i)"

definition upd_lst :: "int \<Rightarrow> pgptr \<Rightarrow> 'a pmm_scheme \<Rightarrow> 'a pmm_scheme" where
  "upd_lst i v s = s\<lparr>buddy_table := (buddy_table s)(i := (buddy_table s i)\<lparr>page_blk_list := v\<rparr>)\<rparr>"

definition upd_num :: "int \<Rightarrow> int \<Rightarrow> 'a pmm_scheme \<Rightarrow> 'a pmm_scheme" where
  "upd_num i v s = s\<lparr>buddy_table := (buddy_table s)(i := (buddy_table s i)\<lparr>blk_num := v\<rparr>)\<rparr>"

definition in_table :: "int \<Rightarrow> 'a pmm_scheme \<Rightarrow> (unit, 'a pmm_scheme) run" where
  "in_table i s = kguard (0 \<le> i \<and> i < 17) ''buddy_table'' s"

section \<open>Powers of two\<close>

partial_function (option) log2_loop :: "int \<Rightarrow> int \<Rightarrow> int \<Rightarrow> int option" where
  [code]: "log2_loop x v res =
     (if i32 (v * 2) \<le> x then log2_loop x (i32 (v * 2)) (res + 1) else Some res)"

definition log2 :: "int \<Rightarrow> int option" where
  "log2 x = log2_loop x 1 0"

function pow2_loop :: "int \<Rightarrow> int \<Rightarrow> int \<Rightarrow> int" where
  "pow2_loop x i res = (if i < x then pow2_loop x (i + 1) (i32 (res * 2)) else res)"
  by pat_completeness auto
termination
  by (relation "measure (\<lambda>(x, i, res). nat (x - i))") auto

declare pow2_loop.simps [simp del]

definition pow2 :: "int \<Rightarrow> int" where
  "pow2 x = pow2_loop x 0 1"

section \<open>Walking a page list\<close>

partial_function (option) count_pages_loop :: "(pgptr \<Rightarrow> pgptr) \<Rightarrow> pgptr \<Rightarrow> int \<Rightarrow> int option" where
  [code]: "count_pages_loop nx p res = (if p \<noteq> Pnull then count_pages_loop nx (nx p) (res + 1) else Some res)"

definition count_pages :: "pgptr \<Rightarrow> 'a pmm_scheme \<Rightarrow> int option" where
  "count_pages pg_list s = count_pages_loop (nxt s) pg_list 0"

partial_function (option) check_free_pages :: "'a pmm_scheme \<Rightarrow> pgptr \<Rightarrow> int option" where
  [code]: "check_free_pages s p =
     (if p \<noteq> Pnull then
        if ref_num (phy_pages s p) > 0 then Some 0 else check_free_pages s (nxt s p)
      else Some 1)"

partial_function (option) tail_of :: "(pgptr \<Rightarrow> pgptr) \<Rightarrow> pgptr \<Rightarrow> pgptr option" where
  [code]: "tail_of nx p = (if nx p \<noteq> Pnull then tail_of nx (nx p) else Some p)"

text \<open>\<open>set_page_attr\<close> never moves its cursor.\<close>

partial_function (option) set_page_attr_loop ::
    "uint \<Rightarrow> uint \<Rightarrow> pgptr \<Rightarrow> 'a pmm_scheme \<Rightarrow> (unit, 'a pmm_scheme) run" where
  [code]: "set_page_attr_loop fl free p s =
     (if p \<noteq> Pnull then
        set_page_attr_loop fl free p
          (upd_page p (\<lambda>g. g\<lparr>ref_num := ref_num g - free, flags := fl\<rparr>) s)
      else kret () s)"

definition set_page_attr :: "pgptr \<Rightarrow> uint \<Rightarrow> int \<Rightarrow> 'a pmm_scheme \<Rightarrow> (pgptr, 'a pmm_scheme) run" where
  "set_page_attr pg_list fl free s =
     kbind (set_page_attr_loop fl (word_of_int free) pg_list s) (\<lambda>_ s. kret pg_list s)"

section \<open>Frames and initial blocks\<close>

partial_function (option) init_pages_loop ::
    "uint \<Rightarrow> uint \<Rightarrow> 'a pmm_scheme \<Rightarrow> (unit, 'a pmm_scheme) run" where
  [code]: "init_pages_loop page_addr len s =
     (if page_addr < len \<and> page_addr \<le> MAXSIZE then
        kbind (kguard (0 \<le> phy_page_num s \<and> phy_page_num s < MAX_PG_NUM) ''phy_pages'' s) (\<lambda>_ s.
          init_pages_loop (page_addr + PGSIZE) len
            (s\<lparr>phy_pages := (phy_pages s)(PG (nat (phy_page_num s)) :=
                 \<lparr>ref_num = 0, flags = 0, start_addr = page_addr, va = 0, pg_next = Pnull, pg_prev = Pnull\<rparr>),
               phy_page_num := phy_page_num s + 1\<rparr>))
      else kret () s)"

text \<open>
  The first frame: the linker symbols \<open>kern_start\<close> and \<open>kern_end\<close> are declared \<open>uint[]\<close>, so
  their difference counts words.
\<close>

definition first_page_addr :: "uint \<Rightarrow> uint \<Rightarrow> uint \<Rightarrow> uint" where
  "first_page_addr base kern_start kern_end =
     (let page_addr = base + word_of_int (sint (kern_end - kern_start) div 4)
      in if page_addr AND 0xfff \<noteq> 0 then push_bit 12 (drop_bit 12 page_addr) + PGSIZE else page_addr)"

text \<open>
  \<open>init_pages\<close> walks \<open>mmap_length\<close> entries: the bound \<open>(mmap_entry_t * )mmap_addr + mmap_length\<close>
  is pointer arithmetic on entries. The entries are the memory at \<open>mmap_addr\<close> read as an array.
\<close>

fun init_pages_entries ::
    "(nat \<Rightarrow> mmap_entry) \<Rightarrow> uint \<Rightarrow> uint \<Rightarrow> nat \<Rightarrow> nat \<Rightarrow> 'a pmm_scheme \<Rightarrow> (unit, 'a pmm_scheme) run" where
  "init_pages_entries mmap kern_start kern_end i 0 s = kret () s"
| "init_pages_entries mmap kern_start kern_end i (Suc left) s =
     (let map_entry = mmap i in
      kbind
       (if mmap_type map_entry = 1 \<and> base_addr_low map_entry = 0x100000 then
          init_pages_loop (first_page_addr (base_addr_low map_entry) kern_start kern_end)
            (base_addr_low map_entry + length_low map_entry) s
        else kret () s)
       (\<lambda>_ s. init_pages_entries mmap kern_start kern_end (Suc i) left s))"

definition init_pages :: "(nat \<Rightarrow> mmap_entry) \<Rightarrow> uint \<Rightarrow> uint \<Rightarrow> uint \<Rightarrow> 'a pmm_scheme \<Rightarrow> (unit, 'a pmm_scheme) run" where
  "init_pages mmap mmap_length kern_start kern_end s =
     init_pages_entries mmap kern_start kern_end 0 (unat mmap_length) s"

function link_pages :: "int \<Rightarrow> int \<Rightarrow> int \<Rightarrow> int \<Rightarrow> 'a pmm_scheme \<Rightarrow> 'a pmm_scheme" where
  "link_pages idx start_pg_id pg_num i s =
     (if i < pg_num then
        link_pages idx start_pg_id pg_num (i + 1)
          (if i = 0 then
             let s = upd_lst idx (PG (nat start_pg_id)) s;
                 s = upd_next (lst s idx) Pnull s
             in upd_prev (lst s idx) Pnull s
           else
             let s = upd_prev (PG (nat (start_pg_id + i))) (PG (nat (start_pg_id + i - 1))) s;
                 s = upd_next (PG (nat (start_pg_id + i - 1))) (PG (nat (start_pg_id + i))) s
             in upd_next (PG (nat (start_pg_id + i))) Pnull s)
      else s)"
  by pat_completeness auto
termination
  by (relation "measure (\<lambda>(idx, st, n, i, s). nat (n - i))") auto

declare link_pages.simps [simp del]

partial_function (option) init_blks ::
    "int \<Rightarrow> int \<Rightarrow> int \<Rightarrow> 'a pmm_scheme \<Rightarrow> (unit, 'a pmm_scheme) run" where
  [code]: "init_blks sum_pg idx start_pg_id s =
     kbind (in_table idx s) (\<lambda>_ s.
       let pg_num = pow2 idx;
           s = link_pages idx start_pg_id pg_num 0 s;
           s = upd_num idx (num s idx + 1) s;
           start_pg_id = start_pg_id + pg_num;
           sum_pg = sum_pg - pow2 idx
       in kbind (klift (log2 sum_pg) s) (\<lambda>idx s.
            if idx \<noteq> 0 then init_blks sum_pg idx start_pg_id s else kret () s))"

definition init_table :: "'a pmm_scheme \<Rightarrow> 'a pmm_scheme" where
  "init_table s = fold (\<lambda>i s. upd_num i 0 (upd_lst i Pnull s)) [0..16] s"

definition init_buddy ::
    "(nat \<Rightarrow> mmap_entry) \<Rightarrow> uint \<Rightarrow> uint \<Rightarrow> uint \<Rightarrow> 'a pmm_scheme \<Rightarrow> (unit, 'a pmm_scheme) run" where
  "init_buddy mmap mmap_length kern_start kern_end s =
     kbind (init_pages mmap mmap_length kern_start kern_end s) (\<lambda>_ s.
       let s = init_table s; sum_pg = phy_page_num s in
       kbind (klift (log2 sum_pg) s) (\<lambda>idx s. init_blks sum_pg idx 0 s))"

section \<open>Allocation\<close>

text \<open>
  \<open>SplitBlock\<close> in its two halves: the first block leaves \<open>buddy_table[idx]\<close>; it is hung behind
  the blocks of the next smaller size and its second half is cut off and returned. With an
  empty smaller list the cursor \<open>p\<close> is null when \<open>p->next = blk0; p = p->next\<close> runs.
\<close>

definition take_first_blk :: "int \<Rightarrow> 'a pmm_scheme \<Rightarrow> pgptr \<times> 'a pmm_scheme" where
  "take_first_blk idx s =
     (let pg_num = pow2 idx;
          blk0 = lst s idx;
          p = adv (nxt s) 0 pg_num (lst s idx);
          s = (if num s idx > 1 then
                 let s = upd_lst idx p s;
                     s = upd_next (prv s p) Pnull s
                 in upd_prev p Pnull s
               else upd_lst idx Pnull s);
          s = upd_num idx (num s idx - 1) s
      in (blk0, s))"

definition halve_blk :: "int \<Rightarrow> pgptr \<Rightarrow> 'a pmm_scheme \<Rightarrow> pgptr \<times> 'a pmm_scheme" where
  "halve_blk nextid blk0 s =
     (let p = lst s nextid;
          blk_num = num s nextid;
          pg_num = pow2 nextid * blk_num;
          p = adv (nxt s) 0 (pg_num - 1) p;
          s = (if p = Pnull then upd_lst nextid blk0 s else s);
          s = upd_prev blk0 p s;
          s = upd_next p blk0 s;
          p = nxt s p;
          s = upd_num nextid (num s nextid + 2) s;
          p = adv (nxt s) 0 (pow2 nextid) p;
          s = upd_next (prv s p) Pnull s;
          s = upd_prev p Pnull s;
          s = upd_num nextid (num s nextid - 1) s
      in (p, s))"

definition SplitBlock :: "int \<Rightarrow> 'a pmm_scheme \<Rightarrow> (pgptr, 'a pmm_scheme) run" where
  "SplitBlock idx s =
     kbind (in_table idx s) (\<lambda>_ s.
     kbind (in_table (idx - 1) s) (\<lambda>_ s.
       let nextid = idx - 1;
           (blk0, s) = take_first_blk idx s;
           (p, s) = halve_blk nextid blk0 s
       in kret p s))"

partial_function (option) split_more :: "pgptr \<Rightarrow> int \<Rightarrow> 'a pmm_scheme \<Rightarrow> (pgptr, 'a pmm_scheme) run" where
  [code]: "split_more blk tmp s =
     kbind (klift (count_pages blk s) s) (\<lambda>n s.
       if n > 2 * pow2 tmp then
         kbind (in_table (tmp - 1) s) (\<lambda>_ s.
           let p = lst s (tmp - 1);
               blk_num = num s (tmp - 1);
               pg_num = pow2 (tmp - 1) * blk_num;
               p = adv (nxt s) 0 (pg_num - 1) p;
               s = upd_next p blk s;
               s = upd_prev blk p s;
               s = upd_num (tmp - 1) (num s (tmp - 1) + 1) s
           in kbind (SplitBlock (tmp - 1) s) (\<lambda>blk s. split_more blk (tmp - 1) s))
       else kret blk s)"

text \<open>The search loop returns the index it stopped at and \<open>blk\<close>, unset when no list fits.\<close>

partial_function (option) alloc_search ::
    "int \<Rightarrow> int \<Rightarrow> 'a pmm_scheme \<Rightarrow> (int \<times> pgptr option, 'a pmm_scheme) run" where
  [code]: "alloc_search idx i s =
     kbind (in_table i s) (\<lambda>_ s.
       if lst s i \<noteq> Pnull \<and> idx = i then
         let blk = lst s i;
             p = adv (nxt s) 0 (pow2 i) blk;
             s = upd_lst i p s;
             s = upd_num i (num s i - 1) s;
             s = (if p \<noteq> Pnull then
                    let s = upd_next (prv s p) Pnull s in upd_prev p Pnull s
                  else s)
         in kret (i, Some blk) s
       else if lst s i \<noteq> Pnull \<and> idx < i then
         kbind (SplitBlock i s) (\<lambda>blk s.
         kbind (split_more blk i s) (\<lambda>blk s. kret (i, Some blk) s))
       else if i + 1 < 17 then alloc_search idx (i + 1) s
       else kret (i + 1, None) s)"

text \<open>The two flag loops: \<open>pp->flags |= PHY_BUSY\<close> here, \<open>pp->flags = PHY_FREE\<close> in \<open>free_buddy\<close>.\<close>

partial_function (option) mark_pages ::
    "(uint \<Rightarrow> uint) \<Rightarrow> pgptr \<Rightarrow> 'a pmm_scheme \<Rightarrow> (unit, 'a pmm_scheme) run" where
  [code]: "mark_pages f pp s =
     (if pp \<noteq> Pnull then
        let s = upd_page pp (\<lambda>g. g\<lparr>flags := f (flags g)\<rparr>) s in mark_pages f (nxt s pp) s
      else kret () s)"

definition alloc_buddy :: "uint \<Rightarrow> 'a pmm_scheme \<Rightarrow> (pgptr \<times> int, 'a pmm_scheme) run" where
  "alloc_buddy memsize s =
     (let sz = uint (memsize div 4);
          sz = (if memsize mod 4 \<noteq> 0 then sz + 1 else sz)
      in kbind (klift (log2 sz) s) (\<lambda>idx s.
           let idx = (if pow2 idx < sz then idx + 1 else idx) in
           kbind (alloc_search idx idx s) (\<lambda>(i, blk) s.
             if i = 17 then kret (Pnull, 0) s
             else case blk of
               None \<Rightarrow> kstop (Undefined ''blk'')
             | Some blk \<Rightarrow> kbind (mark_pages (\<lambda>f. f OR PHY_BUSY) blk s) (\<lambda>_ s. kret (blk, 1) s))))"

text \<open>
  \<open>alloc_pages\<close>: on failure it calls \<open>swap_out(check_mm_struct, 1)\<close> and panics whatever that
  answers. \<open>swap_out\<close> is an argument, because the swap manager itself calls this component.
\<close>

definition alloc_pages ::
    "('a pmm_scheme \<Rightarrow> (int, 'a pmm_scheme) run) \<Rightarrow> int \<Rightarrow> 'a pmm_scheme \<Rightarrow> (pgptr, 'a pmm_scheme) run" where
  "alloc_pages swap_out n s =
     kbind (alloc_buddy (word_of_int (n * 4)) s) (\<lambda>(pages, flag) s.
       if flag = 1 then kret pages s
       else kbind (swap_out s) (\<lambda>flag s.
         if flag = 1 then kstop (Panic (line ''swap out done''))
         else kstop (Panic (line ''swap out failed''))))"

section \<open>Freeing\<close>

text \<open>
  The condition of \<open>FindBuddy\<close> is \<open>(p->start_addr) ^ (pg_blk->start_addr) == mask\<close>, where
  \<open>==\<close> binds tighter than \<open>^\<close>.
\<close>

definition is_buddy :: "uint \<Rightarrow> uint \<Rightarrow> uint \<Rightarrow> bool" where
  "is_buddy a b msk \<longleftrightarrow> a XOR (if b = msk then 1 else 0) \<noteq> 0"

function find_buddy_loop ::
    "pgptr \<Rightarrow> int \<Rightarrow> uint \<Rightarrow> int \<Rightarrow> int \<Rightarrow> pgptr \<Rightarrow> 'a pmm_scheme \<Rightarrow> pgptr \<times> 'a pmm_scheme" where
  "find_buddy_loop pg_blk idx msk pg_cnt cnt p s =
     (if cnt < num s idx * pg_cnt then
        if cnt mod pg_cnt = 0 \<and>
           is_buddy (start_addr (phy_pages s p)) (start_addr (phy_pages s pg_blk)) msk then
          let pp = adv (nxt s) 0 pg_cnt p in
          if pp = Pnull then
            let s = (if cnt = 0 then upd_lst idx Pnull s
                     else let s = upd_next (prv s p) Pnull s in upd_prev p Pnull s)
            in (p, upd_num idx (num s idx - 1) s)
          else
            let s = upd_next (prv s pp) Pnull s;
                s = upd_prev pp Pnull s;
                s = (if cnt = 0 then upd_lst idx pp s
                     else let s = upd_next (prv s p) pp s in upd_prev pp (prv s p) s)
            in (p, upd_num idx (num s idx - 1) s)
        else find_buddy_loop pg_blk idx msk pg_cnt (cnt + 1) (nxt s p) s
      else (Pnull, s))"
  by pat_completeness auto
termination
  by (relation "measure (\<lambda>(b, idx, m, n, cnt, p, s). nat (num s idx * n - cnt))") auto

declare find_buddy_loop.simps [simp del]

definition FindBuddy :: "pgptr \<Rightarrow> int \<Rightarrow> 'a pmm_scheme \<Rightarrow> (pgptr, 'a pmm_scheme) run" where
  "FindBuddy pg_blk idx s =
     kbind (in_table idx s) (\<lambda>_ s.
       let msk = push_bit (nat (12 + idx)) 1;
           (p, s) = find_buddy_loop pg_blk idx msk (pow2 idx) 0 (lst s idx) s
       in kret p s)"

definition BlendBlk :: "pgptr \<Rightarrow> pgptr \<Rightarrow> int \<Rightarrow> 'a pmm_scheme \<Rightarrow> (pgptr, 'a pmm_scheme) run" where
  "BlendBlk buddy_blk blk idx s =
     kbind (kassert (buddy_blk \<noteq> Pnull \<and> blk \<noteq> Pnull) (line ''Blend is not allowed'') s) (\<lambda>_ s.
       let msk = push_bit (nat (idx + 12)) 1;
           buddy_is_high = start_addr (phy_pages s buddy_blk) AND msk;
           (res, other) = (if buddy_is_high = 0 then (buddy_blk, blk) else (blk, buddy_blk))
       in kbind (klift (tail_of (nxt s) res) s) (\<lambda>p s.
            let s = upd_next p other s; s = upd_prev other p s in kret res s))"

partial_function (option) blend_loop ::
    "pgptr \<Rightarrow> pgptr \<Rightarrow> int \<Rightarrow> 'a pmm_scheme \<Rightarrow> (pgptr \<times> int, 'a pmm_scheme) run" where
  [code]: "blend_loop buddy_blk blk tmp s =
     (if buddy_blk \<noteq> Pnull then
        kbind (BlendBlk buddy_blk blk (tmp + 1) s) (\<lambda>blk s.
        kbind (FindBuddy blk (tmp + 1) s) (\<lambda>buddy_blk s.
          blend_loop buddy_blk blk (tmp + 1) s))
      else kret (blk, tmp) s)"

definition free_buddy :: "pgptr \<Rightarrow> 'a pmm_scheme \<Rightarrow> (unit, 'a pmm_scheme) run" where
  "free_buddy pg_blk s =
     kbind (klift (check_free_pages s pg_blk) s) (\<lambda>c s.
       if c = 0 then kret () (s\<lparr>klog := klog s @ [(line ''free buddy failed'')]\<rparr>)
       else
         kbind (mark_pages (\<lambda>_. PHY_FREE) pg_blk s) (\<lambda>_ s.
         kbind (klift (count_pages pg_blk s) s) (\<lambda>pg_num s.
         kbind (klift (log2 pg_num) s) (\<lambda>idx s.
         kbind (in_table idx s) (\<lambda>_ s.
           if lst s idx = Pnull then
             let s = upd_lst idx pg_blk s in kret () (upd_num idx (num s idx + 1) s)
           else
             kbind (FindBuddy pg_blk idx s) (\<lambda>buddy_blk s.
             kbind (blend_loop buddy_blk pg_blk idx s) (\<lambda>(blk, tmp) s.
             kbind (in_table tmp s) (\<lambda>_ s.
             kbind
               (if lst s tmp = Pnull then kret () (upd_lst tmp blk s)
                else kbind (klift (tail_of (nxt s) (lst s tmp)) s) (\<lambda>p s.
                  let s = upd_next p blk s in kret () (upd_prev blk p s)))
               (\<lambda>_ s. kret () (upd_num tmp (num s tmp + 1) s)))))))))) "

function find_page_loop :: "(pgptr \<Rightarrow> phy_page) \<Rightarrow> uint \<Rightarrow> int \<Rightarrow> int" where
  "find_page_loop h paddr i =
     (if i < MAX_PG_NUM then
        if start_addr (h (PG (nat i))) = paddr then i else find_page_loop h paddr (i + 1)
      else -1)"
  by pat_completeness auto
termination
  by (relation "measure (\<lambda>(h, a, i). nat (MAX_PG_NUM - i))") auto

declare find_page_loop.simps [simp del]

definition FindPageIndex :: "uint \<Rightarrow> 'a pmm_scheme \<Rightarrow> int" where
  "FindPageIndex paddr s = find_page_loop (phy_pages s) paddr 0"

end
