(* ===== verification/Buddy_Lists.thy ===== *)
theory Buddy_Lists
  imports Buddy
begin

text \<open>
  The vocabulary in which buddy.c is specified: what \<open>log2\<close> and \<open>pow2\<close> compute, reads of updated
  states, and \<open>dl s b p xs e\<close>, a doubly linked segment of pages \<open>xs\<close> from \<open>p\<close> to \<open>e\<close> whose first
  page points back to \<open>b\<close>. The cut and join lemmas are the two pointer idioms of the allocator.
\<close>

section \<open>log2 and pow2\<close>

lemma i32_power [simp]: "n \<le> 30 \<Longrightarrow> i32 (2 ^ n) = 2 ^ n"
proof -
  assume "n \<le> 30"
  then have "(2::int) ^ n \<le> 2 ^ 30" by (intro power_increasing) auto
  then have "(2::int) ^ n \<le> 1073741824" by simp
  moreover have "(0::int) \<le> 2 ^ n" by simp
  ultimately show ?thesis by (intro i32_id) linarith+
qed

lemma i32_double: "k < 30 \<Longrightarrow> i32 (2 ^ k * 2) = 2 ^ Suc k"
  using i32_power [of "Suc k"] by (simp add: mult.commute)

lemma pow2_loop_power:
  assumes "i \<le> n" and "n \<le> 30"
  shows "pow2_loop (int n) (int i) (2 ^ i) = 2 ^ n"
  using assms
proof (induction "n - i" arbitrary: i)
  case 0
  then show ?case by (simp add: pow2_loop.simps)
next
  case (Suc d)
  then have i: "i < n" "i < 30" by simp_all
  have "pow2_loop (int n) (int i) (2 ^ i) = pow2_loop (int n) (int (Suc i)) (2 ^ Suc i)"
    using i by (subst pow2_loop.simps) (simp add: i32_double add.commute del: power_Suc)
  also have "\<dots> = 2 ^ n"
    using Suc i by (intro Suc.hyps) auto
  finally show ?case .
qed

lemma pow2_power [simp]: "n \<le> 30 \<Longrightarrow> pow2 (int n) = 2 ^ n"
  using pow2_loop_power [of 0 n] by (simp add: pow2_def)

lemma pow2_nat: "0 \<le> x \<Longrightarrow> x \<le> 30 \<Longrightarrow> pow2 x = 2 ^ nat x"
  using pow2_power [of "nat x"] by simp

lemma log2_loop_power:
  assumes "k \<le> m" and "2 ^ m \<le> x" "x < 2 ^ Suc m" "x < 2 ^ 30"
  shows "log2_loop x (2 ^ k) r = Some (r + int (m - k))"
  using assms
proof (induction "m - k" arbitrary: k r)
  case 0
  then have "k = m" by simp
  have "(2::int) ^ m < 2 ^ 30" using 0 by linarith
  then have "m < 30" by (rule power_less_imp_less_exp [rotated]) simp
  with 0 \<open>k = m\<close> show ?case by (subst log2_loop.simps) (simp add: i32_double del: power_Suc)
next
  case (Suc d)
  then have k: "Suc k \<le> m" by simp
  have le: "(2::int) ^ Suc k \<le> 2 ^ m" using k by (intro power_increasing) auto
  have "(2::int) ^ m < 2 ^ 30" using Suc.prems by linarith
  then have "m < 30" by (rule power_less_imp_less_exp [rotated]) simp
  moreover have "2 ^ Suc k \<le> x" using le Suc.prems by linarith
  ultimately have "log2_loop x (2 ^ k) r = log2_loop x (2 ^ Suc k) (r + 1)"
    using k by (subst log2_loop.simps) (simp add: i32_double del: power_Suc)
  also have "\<dots> = Some (r + 1 + int (m - Suc k))"
    using Suc k by (intro Suc.hyps) auto
  finally show ?case using k by (simp add: of_nat_diff)
qed

lemma log2_floor: "2 ^ m \<le> x \<Longrightarrow> x < 2 ^ Suc m \<Longrightarrow> x < 2 ^ 30 \<Longrightarrow> log2 x = Some (int m)"
  using log2_loop_power [of 0 m x 0] by (simp add: log2_def)

lemma log2_of_power [simp]: "m < 30 \<Longrightarrow> log2 (2 ^ m) = Some (int m)"
  using power_strict_increasing [of m 30 "2::int"] by (intro log2_floor) auto

lemma log2_nonpos: "-2147483648 \<le> x \<Longrightarrow> x < 2 \<Longrightarrow> log2 x = Some 0"
  by (simp add: log2_def log2_loop.simps)

lemma floor_power_ex:
  fixes x :: int
  assumes "1 \<le> x"
  shows "\<exists>m. 2 ^ m \<le> x \<and> x < 2 ^ Suc m"
proof -
  from assms have "1 \<le> nat x" by simp
  then obtain m where "2 ^ m \<le> nat x" "nat x < 2 ^ (m + 1)"
    using ex_power_ivl1 [of 2 "nat x"] by auto
  then have "int (2 ^ m) \<le> x" "x < int (2 ^ (m + 1))"
    using assms by linarith+
  then show ?thesis by auto
qed

text \<open>From \<open>2 ^ 30\<close> on the doubling wraps to zero and the loop never ends.\<close>

lemma log2_loop_zero: "0 \<le> x \<Longrightarrow> log2_loop x 0 r = None"
proof (rule ccontr)
  assume x: "0 \<le> x" and "log2_loop x 0 r \<noteq> None"
  then obtain y where y: "log2_loop x 0 r = Some y" by auto
  have "\<not> 0 \<le> x"
  proof (rule log2_loop.raw_induct [where P = "\<lambda>x v r y. \<not> (0 \<le> x \<and> v = 0)" and
        xa = "((x, 0), r)" and y = y, simplified, OF _ y])
    fix f :: "int \<Rightarrow> int \<Rightarrow> int \<Rightarrow> int option" and x v r y
    assume IH: "\<And>x v r y. f x v r = Some y \<Longrightarrow> 0 \<le> x \<longrightarrow> v \<noteq> 0"
      and eq: "(if i32 (v * 2) \<le> x then f x (i32 (v * 2)) (r + 1) else Some r) = Some y"
    show "0 \<le> x \<longrightarrow> v \<noteq> 0"
    proof (intro impI notI)
      assume a: "0 \<le> x" "v = 0"
      with eq have "f x 0 (r + 1) = Some y" by simp
      from IH [OF this] a show False by simp
    qed
  qed
  with x show False by simp
qed

lemma log2_loop_up: "k \<le> 30 \<Longrightarrow> 2 ^ 30 \<le> x \<Longrightarrow> log2_loop x (2 ^ k) r = log2_loop x (2 ^ 30) (r + int (30 - k))"
proof (induction "30 - k" arbitrary: k r)
  case (Suc d)
  then have k: "k < 30" by simp
  have le: "(2::int) ^ Suc k \<le> 2 ^ 30" using k by (intro power_increasing) auto
  then have "log2_loop x (2 ^ k) r = log2_loop x (2 ^ Suc k) (r + 1)"
    using k Suc.prems by (subst log2_loop.simps) (simp add: i32_double del: power_Suc)
  also have "\<dots> = log2_loop x (2 ^ 30) (r + 1 + int (30 - Suc k))"
    using Suc k by (intro Suc.hyps) auto
  finally show ?case using k by (simp add: of_nat_diff algebra_simps)
qed simp

lemma log2_hangs: "2 ^ 30 \<le> x \<Longrightarrow> log2 x = None"
proof -
  assume x: "2 ^ 30 \<le> x"
  have "log2_loop x (2 ^ 30) r = log2_loop x 0 (r + 2)" for r
    using x by (simp add: log2_loop.simps [of x "1073741824"] log2_loop.simps [of x "-2147483648"]
        i32_def add.commute)
  with x show ?thesis
    using log2_loop_up [of 0 x 0] by (simp add: log2_def log2_loop_zero)
qed

section \<open>Reads of updated states\<close>

lemma nxt_upd [simp, heap_simps]:
  "nxt (upd_next p v s) q = (if q = p then v else nxt s q)"
  "nxt (upd_prev p v s) q = nxt s q"
  "nxt (upd_lst i l s) q = nxt s q"
  "nxt (upd_num i n s) q = nxt s q"
  by (simp_all add: nxt_def upd_next_def upd_prev_def upd_page_def upd_lst_def upd_num_def)

lemma prv_upd [simp, heap_simps]:
  "prv (upd_prev p v s) q = (if q = p then v else prv s q)"
  "prv (upd_next p v s) q = prv s q"
  "prv (upd_lst i l s) q = prv s q"
  "prv (upd_num i n s) q = prv s q"
  by (simp_all add: prv_def upd_next_def upd_prev_def upd_page_def upd_lst_def upd_num_def)

lemma lst_upd [simp, heap_simps]:
  "lst (upd_next p v s) i = lst s i"
  "lst (upd_prev p v s) i = lst s i"
  "lst (upd_page p f s) i = lst s i"
  "lst (upd_lst j l s) i = (if i = j then l else lst s i)"
  "lst (upd_num j n s) i = lst s i"
  by (simp_all add: lst_def upd_next_def upd_prev_def upd_page_def upd_lst_def upd_num_def)

lemma num_upd [simp, heap_simps]:
  "num (upd_next p v s) i = num s i"
  "num (upd_prev p v s) i = num s i"
  "num (upd_page p f s) i = num s i"
  "num (upd_lst j l s) i = num s i"
  "num (upd_num j n s) i = (if i = j then n else num s i)"
  by (simp_all add: num_def upd_next_def upd_prev_def upd_page_def upd_lst_def upd_num_def)

text \<open>
  \<open>same_frames\<close>: the data of the frames themselves (address, reference count, mapping) and
  their number; no operation on the free lists touches it.
\<close>

definition same_frames :: "'a pmm_scheme \<Rightarrow> 'a pmm_scheme \<Rightarrow> bool" where
  "same_frames s t \<longleftrightarrow> phy_page_num t = phy_page_num s \<and> klog t = klog s \<and> pmm.more t = pmm.more s \<and>
     (\<forall>p. start_addr (phy_pages t p) = start_addr (phy_pages s p) \<and>
          ref_num (phy_pages t p) = ref_num (phy_pages s p) \<and> va (phy_pages t p) = va (phy_pages s p))"

lemma same_frames_refl [simp]: "same_frames s s"
  by (simp add: same_frames_def)

lemma same_frames_trans [trans]: "same_frames s t \<Longrightarrow> same_frames t u \<Longrightarrow> same_frames s u"
  by (simp add: same_frames_def)

lemma same_frames_upd [simp]:
  "same_frames s (upd_next p v t) = same_frames s t"
  "same_frames s (upd_prev p v t) = same_frames s t"
  "same_frames s (upd_lst i l t) = same_frames s t"
  "same_frames s (upd_num i n t) = same_frames s t"
  by (auto simp: same_frames_def upd_next_def upd_prev_def upd_page_def upd_lst_def upd_num_def)

section \<open>Doubly linked segments\<close>

fun dl :: "'a pmm_scheme \<Rightarrow> pgptr \<Rightarrow> pgptr \<Rightarrow> pgptr list \<Rightarrow> pgptr \<Rightarrow> bool" where
  "dl s b p [] e \<longleftrightarrow> p = e"
| "dl s b p (x # xs) e \<longleftrightarrow> p = x \<and> x \<noteq> Pnull \<and> prv s x = b \<and> dl s x (nxt s x) xs e"

lemma dl_append: "dl s b p (xs @ ys) e \<longleftrightarrow> (\<exists>m. dl s b p xs m \<and> dl s (last (b # xs)) m ys e)"
  by (induction xs arbitrary: b p) auto

lemma dl_frame:
  "dl s b p xs e \<Longrightarrow> (\<And>x. x \<in> set xs \<Longrightarrow> nxt t x = nxt s x \<and> prv t x = prv s x) \<Longrightarrow> dl t b p xs e"
  by (induction xs arbitrary: b p) auto

lemma dl_adv: "dl s b p xs e \<Longrightarrow> (nxt s ^^ length xs) p = e"
  by (induction xs arbitrary: b p) (auto simp: funpow_Suc_right simp del: funpow.simps)

lemma adv_dl: "dl s b p xs e \<Longrightarrow> n = int (length xs) \<Longrightarrow> adv (nxt s) 0 n p = e"
  by (simp add: adv_funpow dl_adv)

lemma dl_null_iff: "dl s b p xs Pnull \<Longrightarrow> p = Pnull \<longleftrightarrow> xs = []"
  by (cases xs) auto

lemma dl_head: "dl s b p xs e \<Longrightarrow> xs \<noteq> [] \<Longrightarrow> p = hd xs \<and> p \<noteq> Pnull \<and> prv s p = b"
  by (cases xs) auto

lemma dl_no_null: "dl s b p xs e \<Longrightarrow> Pnull \<notin> set xs"
  by (induction xs arbitrary: b p) auto

lemma dl_last: "dl s b p xs e \<Longrightarrow> xs \<noteq> [] \<Longrightarrow> nxt s (last xs) = e"
  by (induction xs arbitrary: b p) auto

lemma dl_end: "dl s b p xs e \<Longrightarrow> xs \<noteq> [] \<Longrightarrow> distinct xs \<Longrightarrow> dl (upd_next (last xs) e' s) b p xs e'"
proof (induction xs arbitrary: b p)
  case (Cons x xs)
  show ?case
  proof (cases xs)
    case Nil
    with Cons.prems show ?thesis by simp
  next
    case (Cons y ys)
    with Cons.prems Cons.IH [of x "nxt s x"] show ?thesis by auto
  qed
qed simp

lemma dl_back:
  assumes d: "dl s b p xs e" and "xs \<noteq> []" "distinct xs"
  shows "dl (upd_prev p b' s) b' p xs e"
proof (cases xs)
  case (Cons x ys)
  with d have x: "p = x" "x \<noteq> Pnull" "dl s x (nxt s x) ys e" by auto
  have "dl (upd_prev x b' s) x (nxt s x) ys e"
    using x(3) by (rule dl_frame) (use assms Cons in auto)
  with Cons x(1,2) show ?thesis by simp
qed (use assms in simp)

text \<open>Cutting a list in two at \<open>p\<close>: \<open>p->prev->next = NULL; p->prev = NULL\<close>.\<close>

lemma dl_cut:
  assumes d: "dl s b q (xs @ ys) Pnull" and ne: "xs \<noteq> []" "ys \<noteq> []"
    and dist: "distinct (xs @ ys)" and p: "p = hd ys"
  defines "t \<equiv> upd_prev p Pnull (upd_next (prv s p) Pnull s)"
  shows "dl t b q xs Pnull" and "dl t Pnull p ys Pnull" and "prv s p = last xs"
proof -
  from d obtain m where m: "dl s b q xs m" "dl s (last (b # xs)) m ys Pnull"
    by (auto simp: dl_append)
  with ne p have pm: "p = m" "prv s p = last xs"
    using dl_head [OF m(2)] by auto
  then show "prv s p = last xs" by simp
  have "dl (upd_next (last xs) Pnull s) b q xs Pnull"
    using m(1) ne dist by (intro dl_end) auto
  then show "dl t b q xs Pnull"
    unfolding t_def pm by (rule dl_frame) (use dist p ne pm in \<open>auto dest: hd_in_set\<close>)
  have lx: "last xs \<notin> set ys" using dist ne(1) by (rule last_notin)
  have "dl (upd_prev p Pnull s) Pnull p ys Pnull"
    using m(2) ne dist pm by (intro dl_back) auto
  then show "dl t Pnull p ys Pnull"
    unfolding t_def by (rule dl_frame) (use pm lx in auto)
qed

text \<open>Hanging a list behind another: \<open>p->next = q; q->prev = p\<close> with \<open>p\<close> the tail, either order.\<close>

lemma dl_join:
  assumes "dl s b p xs Pnull" "dl s c q ys Pnull" and ne: "xs \<noteq> []" "ys \<noteq> []"
    and dist: "distinct (xs @ ys)"
    and t: "\<And>x. nxt t x = (if x = last xs then q else nxt s x)"
      "\<And>x. prv t x = (if x = q then last xs else prv s x)"
  shows "dl t b p (xs @ ys) Pnull"
proof -
  have q: "q \<in> set ys" "q = hd ys" using dl_head [OF assms(2)] ne by auto
  have "dl (upd_next (last xs) q s) b p xs q"
    using assms by (intro dl_end) auto
  then have 1: "dl t b p xs q"
    by (rule dl_frame) (use t dist q in auto)
  have lx: "last xs \<notin> set ys" using dist ne(1) by (rule last_notin)
  have "dl (upd_prev q (last xs) s) (last xs) q ys Pnull"
    using assms by (intro dl_back) auto
  then have 2: "dl t (last xs) q ys Pnull"
    by (rule dl_frame) (use t lx in auto)
  from 1 2 ne show ?thesis by (auto simp: dl_append)
qed

section \<open>The walks end on a list\<close>

lemma count_pages_loop_dl:
  "dl s b p xs Pnull \<Longrightarrow> count_pages_loop (nxt s) p r = Some (r + int (length xs))"
proof (induction xs arbitrary: b p r)
  case Nil
  then show ?case by (simp add: count_pages_loop.simps)
next
  case (Cons x xs)
  then show ?case
    by (subst count_pages_loop.simps) (auto simp: algebra_simps)
qed

lemma count_pages_dl: "dl s b p xs Pnull \<Longrightarrow> count_pages p s = Some (int (length xs))"
  by (simp add: count_pages_def count_pages_loop_dl)

lemma tail_of_dl: "dl s b p xs Pnull \<Longrightarrow> xs \<noteq> [] \<Longrightarrow> tail_of (nxt s) p = Some (last xs)"
proof (induction xs arbitrary: b p)
  case (Cons x xs)
  show ?case
  proof (cases xs)
    case Nil
    with Cons.prems show ?thesis by (subst tail_of.simps) simp
  next
    case (Cons y ys)
    with Cons.prems Cons.IH [of x "nxt s x"] show ?thesis
      by (subst tail_of.simps) auto
  qed
qed simp

lemma check_free_pages_dl:
  "dl s b p xs Pnull \<Longrightarrow>
     check_free_pages s p = Some (if \<exists>x\<in>set xs. ref_num (phy_pages s x) > 0 then 0 else 1)"
proof (induction xs arbitrary: b p)
  case Nil
  then show ?case by (simp add: check_free_pages.simps)
next
  case (Cons x xs)
  have "check_free_pages s (nxt s x) =
      Some (if \<exists>y\<in>set xs. ref_num (phy_pages s y) > 0 then 0 else 1)"
    using Cons.prems by (intro Cons.IH [of x]) simp
  moreover have "p = x" "x \<noteq> Pnull" using Cons.prems by auto
  ultimately show ?case
    by (simp add: check_free_pages.simps [of s x])
qed

text \<open>The flag loops: exactly the pages of the list get the new flags.\<close>

definition marked :: "(uint \<Rightarrow> uint) \<Rightarrow> pgptr set \<Rightarrow> 'a pmm_scheme \<Rightarrow> 'a pmm_scheme" where
  "marked f X s = s\<lparr>phy_pages :=
     (\<lambda>p. if p \<in> X then (phy_pages s p)\<lparr>flags := f (flags (phy_pages s p))\<rparr> else phy_pages s p)\<rparr>"

lemma marked_reads [simp]:
  "nxt (marked f X s) p = nxt s p" "prv (marked f X s) p = prv s p"
  "lst (marked f X s) i = lst s i" "num (marked f X s) i = num s i"
  "phy_page_num (marked f X s) = phy_page_num s" "klog (marked f X s) = klog s"
  "start_addr (phy_pages (marked f X s) p) = start_addr (phy_pages s p)"
  "ref_num (phy_pages (marked f X s) p) = ref_num (phy_pages s p)"
  "flags (phy_pages (marked f X s) p) = (if p \<in> X then f (flags (phy_pages s p)) else flags (phy_pages s p))"
  "same_frames s (marked f X s)"
  by (simp_all add: marked_def nxt_def prv_def lst_def num_def same_frames_def)

lemma dl_marked [simp]: "dl (marked f X s) b p xs e = dl s b p xs e"
  by (induction xs arbitrary: b p) auto

lemma marked_empty [simp]: "marked f {} s = s"
  by (simp add: marked_def)

lemma marked_step:
  "p \<notin> X \<Longrightarrow> marked f X (upd_page p (\<lambda>g. g\<lparr>flags := f (flags g)\<rparr>) s) = marked f (insert p X) s"
  by (auto simp: marked_def upd_page_def fun_eq_iff intro!: arg_cong [of _ _ "\<lambda>h. s\<lparr>phy_pages := h\<rparr>"])

lemma mark_pages_dl:
  "dl s b p xs Pnull \<Longrightarrow> distinct xs \<Longrightarrow> mark_pages f p s = kret () (marked f (set xs) s)"
proof (induction xs arbitrary: b p s)
  case Nil
  then show ?case by (simp add: mark_pages.simps)
next
  case (Cons x xs)
  let ?s = "upd_page x (\<lambda>g. g\<lparr>flags := f (flags g)\<rparr>) s"
  have same: "nxt ?s q = nxt s q" "prv ?s q = prv s q" for q
    by (simp_all add: nxt_def prv_def upd_page_def)
  have "dl ?s x (nxt s x) xs Pnull"
    using Cons.prems(1) same by (auto intro: dl_frame [of s])
  then have "mark_pages f (nxt ?s x) ?s = kret () (marked f (set xs) ?s)"
    using Cons.prems(2) same by (intro Cons.IH) auto
  with Cons.prems show ?case
    by (simp add: mark_pages.simps [of f x] marked_step)
qed

end
