(* ===== verification/Buddy_Refine.thy ===== *)
theory Buddy_Refine
  imports Buddy_Lists "HOL-Library.Multiset"
begin

text \<open>
  The contract of the page allocator. The abstract state \<open>A\<close> gives, for each size class, the
  pages of its free blocks in list order; \<open>buddy_rel s A\<close> ties it to the linked lists, the block
  counts and the frame table. \<open>alloc_spec\<close> and \<open>free_spec\<close> say what allocation and freeing do
  to \<open>A\<close>, and the refinement lemmas show that the C code does exactly that, always returns,
  and neither loses nor duplicates a page.
\<close>

section \<open>Abstract state\<close>

type_synonym blocks = "nat \<Rightarrow> pgptr list"

definition frame_ok :: "'a pmm_scheme \<Rightarrow> pgptr \<Rightarrow> bool" where
  "frame_ok s p \<longleftrightarrow> (\<exists>k. p = PG k \<and> int k < phy_page_num s) \<and> start_addr (phy_pages s p) > 1"

text \<open>The free pages as a multiset: no page twice is \<open>one_each (pages_of A)\<close>.\<close>

definition pages_of :: "blocks \<Rightarrow> pgptr multiset" where
  "pages_of A = (\<Sum>i<17. mset (A i))"

definition one_each :: "pgptr multiset \<Rightarrow> bool" where
  "one_each M \<longleftrightarrow> (\<forall>p. count M p \<le> 1)"

definition class_rel :: "'a pmm_scheme \<Rightarrow> nat \<Rightarrow> pgptr list \<Rightarrow> bool" where
  "class_rel s i xs \<longleftrightarrow>
     dl s Pnull (lst s (int i)) xs Pnull \<and> num s (int i) * 2 ^ i = int (length xs)"

definition buddy_rel :: "'a pmm_scheme \<Rightarrow> blocks \<Rightarrow> bool" where
  "buddy_rel s A \<longleftrightarrow>
     (\<forall>i<17. class_rel s i (A i)) \<and> one_each (pages_of A) \<and>
     (\<forall>p. p \<in># pages_of A \<longrightarrow> frame_ok s p) \<and> phy_page_num s < 131072"

text \<open>A block the allocator has handed out: a list of its own, apart from every free page.\<close>

definition owned :: "'a pmm_scheme \<Rightarrow> blocks \<Rightarrow> nat \<Rightarrow> pgptr list \<Rightarrow> bool" where
  "owned s A k B \<longleftrightarrow> length B = 2 ^ k \<and> one_each (pages_of A + mset B) \<and>
     dl s Pnull (hd B) B Pnull \<and> (\<forall>p\<in>set B. frame_ok s p)"

definition split_spec :: "nat \<Rightarrow> blocks \<Rightarrow> pgptr list \<times> blocks" where
  "split_spec i A =
     (let X = take (2 ^ i) (A i)
      in (drop (2 ^ (i - 1)) X,
          A(i := drop (2 ^ i) (A i), i - 1 := A (i - 1) @ take (2 ^ (i - 1)) X)))"

text \<open>From class \<open>i\<close>: the first block as it is when the size fits, half of it otherwise.\<close>

definition pick :: "nat \<Rightarrow> nat \<Rightarrow> blocks \<Rightarrow> nat \<times> pgptr list \<times> blocks" where
  "pick idx i A =
     (if i = idx then (i, take (2 ^ i) (A i), A(i := drop (2 ^ i) (A i)))
      else (i - 1, split_spec i A))"

definition alloc_spec :: "nat \<Rightarrow> blocks \<Rightarrow> (nat \<times> pgptr list \<times> blocks) option" where
  "alloc_spec idx A = map_option (\<lambda>i. pick idx i A) (find (\<lambda>i. A i \<noteq> []) [idx..<17])"

section \<open>Frames\<close>

lemma frame_ok_same: "same_frames s t \<Longrightarrow> frame_ok t p = frame_ok s p"
  by (simp add: same_frames_def frame_ok_def)

lemma class_rel_frame:
  assumes "class_rel s i xs"
    and "\<And>x. x \<in> set xs \<Longrightarrow> nxt t x = nxt s x \<and> prv t x = prv s x"
    and "lst t (int i) = lst s (int i)" "num t (int i) = num s (int i)"
  shows "class_rel t i xs"
  using assms unfolding class_rel_def by (auto intro: dl_frame)

lemma class_rel_len:
  assumes "class_rel s i xs" and "xs \<noteq> []"
  shows "2 ^ i \<le> length xs" and "1 \<le> num s (int i)"
proof -
  from assms have eq: "num s (int i) * 2 ^ i = int (length xs)" and "0 < int (length xs)"
    by (auto simp: class_rel_def)
  then have "0 < num s (int i) * 2 ^ i" by simp
  then show n: "1 \<le> num s (int i)" by (simp add: zero_less_mult_iff)
  then have "(1::int) * 2 ^ i \<le> num s (int i) * 2 ^ i" by (intro mult_right_mono) auto
  then show "2 ^ i \<le> length xs" using eq by (metis mult_1 of_nat_le_iff of_nat_numeral of_nat_power)
qed

lemma class_rel_empty: "class_rel s i xs \<Longrightarrow> lst s (int i) = Pnull \<longleftrightarrow> xs = []"
  unfolding class_rel_def using dl_null_iff by blast

lemma class_rel_single:
  assumes "class_rel s i xs" and "xs \<noteq> []"
  shows "num s (int i) > 1 \<longleftrightarrow> drop (2 ^ i) xs \<noteq> []"
proof -
  from assms have eq: "num s (int i) * 2 ^ i = int (length xs)" by (auto simp: class_rel_def)
  have "num s (int i) > 1 \<longleftrightarrow> 1 * 2 ^ i < num s (int i) * (2::int) ^ i"
    by (subst mult_less_cancel_right_pos) auto
  also have "\<dots> \<longleftrightarrow> 2 ^ i < length xs"
    unfolding eq by (metis mult_1 of_nat_less_iff of_nat_numeral of_nat_power)
  finally show ?thesis by (simp add: not_le)
qed

lemma pages_of_upd: "i < 17 \<Longrightarrow> pages_of (A(i := xs)) + mset (A i) = pages_of A + mset xs"
proof -
  assume i: "i < 17"
  have "(\<Sum>k<17. mset ((A(i := xs)) k)) = mset xs + (\<Sum>k\<in>{..<17} - {i}. mset ((A(i := xs)) k))"
    using i by (subst sum.remove [of _ i]) auto
  also have "(\<Sum>k\<in>{..<17} - {i}. mset ((A(i := xs)) k)) = (\<Sum>k\<in>{..<17} - {i}. mset (A k))"
    by (rule sum.cong) auto
  finally show ?thesis
    using i by (simp add: pages_of_def sum.remove [of "{..<17}" i "\<lambda>k. mset (A k)"] ac_simps)
qed

lemma class_sub_pages: "i < 17 \<Longrightarrow> mset (A i) \<subseteq># pages_of A"
  unfolding pages_of_def by (subst sum.remove [of _ i]) auto

lemma two_classes_sub_pages:
  assumes "i < 17" "j < 17" "i \<noteq> j"
  shows "mset (A i) + mset (A j) \<subseteq># pages_of A"
proof -
  have "pages_of A = mset (A i) + (mset (A j) + (\<Sum>k\<in>{..<17} - {i} - {j}. mset (A k)))"
    unfolding pages_of_def using assms by (subst sum.remove [of _ i], simp, simp)
      (subst sum.remove [of _ j], auto)
  then show ?thesis by (simp add: add.assoc [symmetric])
qed

lemma pages_ofI: "i < 17 \<Longrightarrow> p \<in> set (A i) \<Longrightarrow> p \<in># pages_of A"
  using mset_subset_eqD [OF class_sub_pages, of i p A] by simp

lemma one_each_sub: "one_each M \<Longrightarrow> N \<subseteq># M \<Longrightarrow> one_each N"
  unfolding one_each_def by (meson le_trans mset_subset_eq_count)

lemma one_each_distinct: "one_each (mset xs) \<longleftrightarrow> distinct xs"
  unfolding one_each_def by (metis count_mset_0_iff distinct_count_atmost_1 le_Suc_eq le_zero_eq One_nat_def order_refl zero_le)

lemma pages_of_memE:
  assumes "p \<in># pages_of A"
  obtains i where "i < 17" "p \<in> set (A i)"
proof -
  have "set_mset (pages_of A) = (\<Union>i<17. set (A i))"
    by (simp add: pages_of_def set_mset_sum)
  with assms that show ?thesis by auto
qed

section \<open>Taking the first block and halving it\<close>

lemma take_first_blk_effect:
  assumes c: "class_rel s i xs" and ne: "xs \<noteq> []" and i: "i < 17" and dist: "distinct xs"
  defines "X \<equiv> take (2 ^ i) xs" and "Y \<equiv> drop (2 ^ i) xs"
  obtains t where "take_first_blk (int i) s = (hd xs, t)"
    "dl t Pnull (hd xs) X Pnull" "class_rel t i Y"
    "\<And>x. x \<notin> set xs \<Longrightarrow> nxt t x = nxt s x \<and> prv t x = prv s x"
    "\<And>j. j \<noteq> int i \<Longrightarrow> lst t j = lst s j \<and> num t j = num s j"
    "same_frames s t" "klog t = klog s"
proof -
  have XY: "xs = X @ Y" "X \<noteq> []" "length X = 2 ^ i" "hd X = hd xs"
    using class_rel_len(1) [OF c ne] ne by (auto simp: X_def Y_def)
  from c have d: "dl s Pnull (lst s (int i)) (X @ Y) Pnull"
    and n: "num s (int i) * 2 ^ i = int (length xs)" by (simp_all add: class_rel_def X_def Y_def)
  then obtain m where m: "dl s Pnull (lst s (int i)) X m" "dl s (last X) m Y Pnull"
    using XY(2) by (auto simp: dl_append)
  have h: "lst s (int i) = hd xs" using dl_head [OF m(1) XY(2)] XY(4) by simp
  have p: "adv (nxt s) 0 (pow2 (int i)) (lst s (int i)) = m"
    using m(1) XY(3) i by (intro adv_dl) auto
  have lenY: "int (length Y) = (num s (int i) - 1) * 2 ^ i"
    using n XY(1,3) by (simp add: algebra_simps)
  show ?thesis
  proof (cases "Y = []")
    case True
    then have "\<not> num s (int i) > 1" using class_rel_single [OF c ne] Y_def by simp
    moreover have "dl (upd_num (int i) (num s (int i) - 1) (upd_lst (int i) Pnull s)) Pnull (hd xs) X Pnull"
      using m True h by (auto intro: dl_frame [of s])
    moreover have "klog (upd_num (int i) (num s (int i) - 1) (upd_lst (int i) Pnull s)) = klog s"
      by (simp add: upd_num_def upd_lst_def)
    ultimately show ?thesis
      using True lenY h
      by (intro that [of "upd_num (int i) (num s (int i) - 1) (upd_lst (int i) Pnull s)"])
        (auto simp: take_first_blk_def Let_def class_rel_def)
  next
    case False
    then have many: "num s (int i) > 1" using class_rel_single [OF c ne] Y_def by simp
    have mY: "m = hd Y" "m \<in> set Y" using dl_head [OF m(2) False] False by auto
    define u where "u = upd_prev m Pnull (upd_next (prv s m) Pnull s)"
    have cut: "dl u Pnull (lst s (int i)) X Pnull" "dl u Pnull m Y Pnull" "prv s m = last X"
      using dl_cut [OF d XY(2) False _ mY(1)] dist XY(1) by (auto simp: u_def)
    define t where "t = upd_num (int i) (num s (int i) - 1)
      (upd_prev m Pnull (upd_next (prv s m) Pnull (upd_lst (int i) m s)))"
    have t: "nxt t x = nxt u x" "prv t x = prv u x" for x
      by (simp_all add: t_def u_def)
    have "take_first_blk (int i) s = (hd xs, t)"
      using many by (simp add: take_first_blk_def Let_def p [unfolded h] t_def h)
    moreover have "dl t Pnull (hd xs) X Pnull" "dl t Pnull m Y Pnull"
      using cut(1,2) h t by (auto intro: dl_frame [of u])
    moreover have "x \<notin> set xs \<Longrightarrow> nxt t x = nxt s x \<and> prv t x = prv s x" for x
      using XY(1) cut(3) mY(2) last_in_set [OF XY(2)] by (auto simp: t_def)
    moreover have "klog t = klog s"
      by (simp add: t_def upd_num_def upd_lst_def upd_prev_def upd_next_def upd_page_def)
    ultimately show ?thesis
      using lenY by (intro that [of t]) (auto simp: class_rel_def t_def)
  qed
qed

text \<open>The cursor of \<open>halve_blk\<close> stops at the last page of the smaller class, or at null.\<close>

lemma class_tail:
  assumes c: "class_rel s j Z" and j: "j < 17"
  shows "adv (nxt s) 0 (pow2 (int j) * num s (int j) - 1) (lst s (int j)) =
    (if Z = [] then Pnull else last Z)"
proof (cases Z rule: rev_cases)
  case Nil
  with c j have "num s (int j) = 0" "lst s (int j) = Pnull" by (auto simp: class_rel_def)
  with Nil show ?thesis by (simp add: adv_funpow)
next
  case (snoc Z' z)
  from c j have "pow2 (int j) * num s (int j) - 1 = int (length Z')"
    by (simp add: class_rel_def snoc algebra_simps)
  moreover have "dl s Pnull (lst s (int j)) Z' z"
    using c snoc by (auto simp: class_rel_def dl_append)
  ultimately show ?thesis using snoc by (simp add: adv_dl)
qed

lemma halve_blk_effect:
  assumes c: "class_rel s j Z" and X: "dl s Pnull blk0 (L @ R) Pnull"
    and j: "j < 17" and len: "length L = 2 ^ j" "length R = 2 ^ j"
    and dist: "distinct (Z @ L @ R)"
  obtains t where "halve_blk (int j) blk0 s = (hd R, t)"
    "dl t Pnull (hd R) R Pnull" "class_rel t j (Z @ L)"
    "\<And>x. x \<notin> set (Z @ L @ R) \<Longrightarrow> x \<noteq> Pnull \<Longrightarrow> nxt t x = nxt s x \<and> prv t x = prv s x"
    "\<And>k. k \<noteq> int j \<Longrightarrow> lst t k = lst s k \<and> num t k = num s k"
    "same_frames s t" "klog t = klog s"
proof -
  have ne: "L \<noteq> []" "R \<noteq> []" using len by auto
  define z where "z = (if Z = [] then Pnull else last Z)"
  have tail: "adv (nxt s) 0 (pow2 (int j) * num s (int j) - 1) (lst s (int j)) = z"
    using class_tail [OF c j] by (simp add: z_def)
  have blk0: "blk0 = hd L" "blk0 \<noteq> Pnull" "blk0 \<in> set L"
    using dl_head [OF X] ne by auto
  have nn: "Pnull \<notin> set Z" "Pnull \<notin> set (L @ R)"
    using c dl_no_null [OF X] by (auto simp: class_rel_def dest: dl_no_null)
  have zn: "z = Pnull \<longleftrightarrow> Z = []" and zX: "z \<notin> set (L @ R)"
    using nn dist last_notin [of Z "L @ R"] unfolding z_def by (metis last_in_set)+
  define v where "v = upd_next z blk0 (upd_prev blk0 z (if z = Pnull then upd_lst (int j) blk0 s else s))"
  define u where "u = upd_num (int j) (num s (int j) + 2) v"
  have v: "nxt v z = blk0" "num v (int j) = num s (int j)" by (simp_all add: v_def)
  have nu: "nxt u x = (if x = z then blk0 else nxt s x)"
    and pu: "prv u x = (if x = blk0 then z else prv s x)" for x
    by (simp_all add: u_def v_def)
  have lu: "lst u k = (if k = int j \<and> Z = [] then blk0 else lst s k)" for k
    by (simp add: u_def v_def zn)
  have all: "dl u Pnull (lst u (int j)) ((Z @ L) @ R) Pnull"
  proof (cases "Z = []")
    case True
    have "dl u Pnull blk0 (L @ R) Pnull"
      using X by (rule dl_frame) (use True zX dl_head [OF X] ne in \<open>auto simp: nu pu z_def\<close>)
    with True show ?thesis by (simp add: lu)
  next
    case False
    have "dl u Pnull (lst s (int j)) (Z @ (L @ R)) Pnull"
      by (rule dl_join [of s _ _ Z Pnull blk0 "L @ R"])
        (use c X False ne dist nu pu in \<open>auto simp: class_rel_def z_def\<close>)
    with False show ?thesis by (simp add: lu)
  qed
  have p: "adv (nxt u) 0 (pow2 (int j)) blk0 = hd R"
  proof -
    obtain m where m: "dl s Pnull blk0 L m" "dl s (last L) m R Pnull"
      using X ne by (auto simp: dl_append)
    have "m = hd R" using dl_head [OF m(2) ne(2)] by simp
    with m(1) have "dl s Pnull blk0 L (hd R)" by simp
    then have "dl (upd_prev blk0 z s) z blk0 L (hd R)"
      using ne dist by (intro dl_back) auto
    then have "dl u z blk0 L (hd R)"
      by (rule dl_frame) (use zX in \<open>auto simp: nu pu\<close>)
    then show ?thesis using len j by (intro adv_dl) auto
  qed
  define t where "t = upd_num (int j) (num s (int j) + 1)
    (upd_prev (hd R) Pnull (upd_next (prv u (hd R)) Pnull u))"
  have eff: "halve_blk (int j) blk0 s = (hd R, t)"
    unfolding halve_blk_def Let_def tail v_def [symmetric] v u_def [symmetric] p
    by (simp add: t_def u_def algebra_simps)
  define t0 where "t0 = upd_prev (hd R) Pnull (upd_next (prv u (hd R)) Pnull u)"
  have cut: "dl t0 Pnull (lst u (int j)) (Z @ L) Pnull" "dl t0 Pnull (hd R) R Pnull"
      "prv u (hd R) = last (Z @ L)"
    using dl_cut [OF all _ ne(2) _ refl] ne dist by (auto simp: t0_def)
  have t: "nxt t x = nxt t0 x" "prv t x = prv t0 x" "lst t k = lst u k" for x k
    by (simp_all add: t_def t0_def)
  have "dl t Pnull (hd R) R Pnull" and c': "dl t Pnull (lst t (int j)) (Z @ L) Pnull"
    using cut(1,2) t by (auto intro: dl_frame [of t0])
  moreover have "num t (int j) * 2 ^ j = int (length (Z @ L))"
    using c len by (simp add: class_rel_def t_def algebra_simps)
  moreover have "nxt t x = nxt s x \<and> prv t x = prv s x" if x: "x \<notin> set (Z @ L @ R)" "x \<noteq> Pnull" for x
  proof -
    have "x \<noteq> z" using x by (cases "Z = []") (auto simp: z_def)
    moreover have "x \<noteq> blk0" "x \<noteq> hd R" "x \<noteq> last (Z @ L)"
      using x blk0(3) ne by auto
    ultimately show ?thesis using cut(3) by (simp add: t_def nu pu)
  qed
  moreover have "k \<noteq> int j \<Longrightarrow> lst t k = lst s k \<and> num t k = num s k" for k
    by (simp add: t_def u_def v_def)
  moreover have "same_frames s t" "klog t = klog s"
    by (simp_all add: t_def u_def v_def)
      (simp_all add: upd_num_def upd_lst_def upd_prev_def upd_next_def upd_page_def)
  ultimately show ?thesis
    using eff c' by (intro that [of t]) (auto simp: class_rel_def)
qed

lemma buddy_relD:
  assumes rel: "buddy_rel s A" and i: "i < 17"
  shows "class_rel s i (A i)" and "distinct (A i)"
    and "\<And>j. j < 17 \<Longrightarrow> j \<noteq> i \<Longrightarrow> distinct (A i @ A j)"
    and "\<And>p. p \<in> set (A i) \<Longrightarrow> frame_ok s p" and "Pnull \<notin> set (A i)"
proof -
  have one: "one_each (pages_of A)" using rel by (simp add: buddy_rel_def)
  show c: "class_rel s i (A i)" using assms by (simp add: buddy_rel_def)
  show "distinct (A i)"
    using one_each_sub [OF one class_sub_pages [OF i]] by (simp add: one_each_distinct)
  show "distinct (A i @ A j)" if "j < 17" "j \<noteq> i" for j
    using one_each_sub [OF one two_classes_sub_pages [of i j A]] i that
    by (simp flip: one_each_distinct)
  show "frame_ok s p" if "p \<in> set (A i)" for p
    using rel that mset_subset_eqD [OF class_sub_pages [OF i], of p A] by (simp add: buddy_rel_def)
  show "Pnull \<notin> set (A i)" using c by (auto simp: class_rel_def dest: dl_no_null)
qed

text \<open>A page of a class is in no other class.\<close>

lemma other_class: "buddy_rel s A \<Longrightarrow> i < 17 \<Longrightarrow> j < 17 \<Longrightarrow> i \<noteq> j \<Longrightarrow> x \<in> set (A i) \<Longrightarrow> x \<notin> set (A j)"
  using buddy_relD(3) [of s A i j] by (auto simp: disjoint_iff)

text \<open>
  \<open>handed s A k B A' t\<close>: between \<open>s\<close> and \<open>t\<close> the block \<open>B\<close> of \<open>2 ^ k\<close> pages has left the free
  lists, and with it exactly the pages by which \<open>A\<close> and \<open>A'\<close> differ; the links of every page
  that was not free are as they were.
\<close>

definition untouched :: "pgptr multiset \<Rightarrow> 'a pmm_scheme \<Rightarrow> 'a pmm_scheme \<Rightarrow> bool" where
  "untouched M s t \<longleftrightarrow> (\<forall>x. x \<notin># M \<longrightarrow> x \<noteq> Pnull \<longrightarrow> nxt t x = nxt s x \<and> prv t x = prv s x)"

definition handed ::
    "'a pmm_scheme \<Rightarrow> blocks \<Rightarrow> nat \<Rightarrow> pgptr list \<Rightarrow> blocks \<Rightarrow> 'a pmm_scheme \<Rightarrow> bool" where
  "handed s A k B A' t \<longleftrightarrow> buddy_rel t A' \<and> owned t A' k B \<and> pages_of A = pages_of A' + mset B \<and>
     same_frames s t \<and> klog t = klog s \<and> untouched (pages_of A) s t"

lemma handedI:
  assumes rel: "buddy_rel s A" and cls: "\<And>k. k < 17 \<Longrightarrow> class_rel t k (A' k)"
    and tot: "pages_of A = pages_of A' + mset B" and frames: "same_frames s t"
    and B: "length B = 2 ^ k" "dl t Pnull (hd B) B Pnull" "klog t = klog s" "untouched (pages_of A) s t"
  shows "handed s A k B A' t"
proof -
  have one: "one_each (pages_of A' + mset B)" using rel tot by (simp add: buddy_rel_def)
  then have "one_each (pages_of A')" by (rule one_each_sub) simp
  moreover have ok: "frame_ok t p" if "p \<in># pages_of A' + mset B" for p
    using rel that tot frames by (auto simp: buddy_rel_def frame_ok_same)
  moreover have "phy_page_num t < 131072"
    using rel frames by (simp add: buddy_rel_def same_frames_def)
  ultimately show ?thesis
    using assms(2-) one unfolding handed_def owned_def buddy_rel_def by auto
qed

text \<open>The parts of a class that \<open>split_spec\<close> separates.\<close>

lemma split_parts:
  assumes "class_rel s i xs" "xs \<noteq> []" "0 < i"
  obtains L R Y where "xs = L @ R @ Y" "length L = 2 ^ (i - 1)" "length R = 2 ^ (i - 1)"
    "take (2 ^ i) xs = L @ R" "drop (2 ^ i) xs = Y"
proof -
  have len: "2 ^ i \<le> length xs" using class_rel_len [OF assms(1,2)] by simp
  have two: "(2::nat) ^ i = 2 ^ (i - 1) + 2 ^ (i - 1)"
    using assms(3) by (cases i) auto
  show ?thesis
  proof (rule that [of "take (2 ^ (i - 1)) xs" "take (2 ^ (i - 1)) (drop (2 ^ (i - 1)) xs)" "drop (2 ^ i) xs"])
    show "take (2 ^ i) xs = take (2 ^ (i - 1)) xs @ take (2 ^ (i - 1)) (drop (2 ^ (i - 1)) xs)"
      unfolding two by (rule take_add)
    then show "xs = take (2 ^ (i - 1)) xs @ take (2 ^ (i - 1)) (drop (2 ^ (i - 1)) xs) @ drop (2 ^ i) xs"
      by (metis append.assoc append_take_drop_id)
  qed (use len two in auto)
qed

text \<open>What splitting does to the abstract state: no page is lost, none is in two places.\<close>

lemma split_spec_props:
  assumes rel: "buddy_rel s A" and i: "0 < i" "i < 17" and ne: "A i \<noteq> []"
  obtains L R Y A' where "A i = L @ R @ Y" "length L = 2 ^ (i - 1)" "length R = 2 ^ (i - 1)"
    "take (2 ^ i) (A i) = L @ R" "drop (2 ^ i) (A i) = Y"
    "A' = A(i := Y, i - 1 := A (i - 1) @ L)" "split_spec i A = (R, A')"
    "distinct (A (i - 1) @ L @ R)" "set Y \<inter> set (A (i - 1) @ L @ R) = {}"
    "pages_of A = pages_of A' + mset R"
proof -
  have j: "i - 1 < 17" "i - 1 \<noteq> i" using i by auto
  note Ai = buddy_relD [OF rel i(2)]
  obtain L R Y where parts: "A i = L @ R @ Y" "length L = 2 ^ (i - 1)" "length R = 2 ^ (i - 1)"
      "take (2 ^ i) (A i) = L @ R" "drop (2 ^ i) (A i) = Y"
    using split_parts [OF Ai(1) ne i(1)] by metis
  define A' where "A' = A(i := Y, i - 1 := A (i - 1) @ L)"
  have "split_spec i A = (R, A')"
    using parts by (simp add: split_spec_def Let_def A'_def)
  moreover have "distinct (A (i - 1) @ L @ R)" "set Y \<inter> set (A (i - 1) @ L @ R) = {}"
    using Ai(3) [OF j] parts(1) by auto
  moreover have "pages_of A = pages_of A' + mset R"
    using pages_of_upd [OF i(2), of A Y] pages_of_upd [OF j(1), of "A(i := Y)" "A (i - 1) @ L"] j parts(1)
    by (simp add: A'_def ac_simps)
  ultimately show ?thesis using parts by (intro that [OF parts A'_def]) auto
qed

lemma SplitBlock_refines:
  assumes rel: "buddy_rel s A" and i: "0 < i" "i < 17" and ne: "A i \<noteq> []"
  obtains B A' t where "split_spec i A = (B, A')" "SplitBlock (int i) s = kret (hd B) t"
    "handed s A (i - 1) B A' t"
proof -
  have j: "i - 1 < 17" "i - 1 \<noteq> i" "int i - 1 = int (i - 1)" using i by auto
  note Ai = buddy_relD [OF rel i(2)]
  obtain L R Y A' where parts: "A i = L @ R @ Y" "length L = 2 ^ (i - 1)" "length R = 2 ^ (i - 1)"
      "take (2 ^ i) (A i) = L @ R" "drop (2 ^ i) (A i) = Y"
      and A': "A' = A(i := Y, i - 1 := A (i - 1) @ L)" and spec: "split_spec i A = (R, A')"
      and dist: "distinct (A (i - 1) @ L @ R)" "set Y \<inter> set (A (i - 1) @ L @ R) = {}"
      and tot: "pages_of A = pages_of A' + mset R"
    using split_spec_props [OF rel i ne] by metis
  obtain t1 where t1: "take_first_blk (int i) s = (hd (A i), t1)"
      "dl t1 Pnull (hd (A i)) (L @ R) Pnull" "class_rel t1 i Y"
      "\<And>x. x \<notin> set (A i) \<Longrightarrow> nxt t1 x = nxt s x \<and> prv t1 x = prv s x"
      "\<And>k. k \<noteq> int i \<Longrightarrow> lst t1 k = lst s k \<and> num t1 k = num s k"
      "same_frames s t1" "klog t1 = klog s"
    using take_first_blk_effect [OF Ai(1) ne i(2) Ai(2)] parts(4,5) by metis
  have cls1: "class_rel t1 k (A k)" if "k < 17" "k \<noteq> i" for k
    using buddy_relD(1) [OF rel that(1)]
    by (rule class_rel_frame) (use t1(4,5) other_class [OF rel that(1) i(2)] that in auto)
  obtain t where t: "halve_blk (int (i - 1)) (hd (A i)) t1 = (hd R, t)"
      "dl t Pnull (hd R) R Pnull" "class_rel t (i - 1) (A (i - 1) @ L)"
      "\<And>x. x \<notin> set (A (i - 1) @ L @ R) \<Longrightarrow> x \<noteq> Pnull \<Longrightarrow> nxt t x = nxt t1 x \<and> prv t x = prv t1 x"
      "\<And>k. k \<noteq> int (i - 1) \<Longrightarrow> lst t k = lst t1 k \<and> num t k = num t1 k"
      "same_frames t1 t" "klog t = klog t1"
    by (rule halve_blk_effect [OF cls1 [OF j(1,2)] t1(2) j(1) parts(2,3) dist(1)]) (rule that)
  have run: "SplitBlock (int i) s = kret (hd R) t"
    using i t1(1) t(1) by (simp add: SplitBlock_def in_table_def Let_def)
  have frames: "same_frames s t" using t1(6) t(6) by (rule same_frames_trans)
  have outY: "x \<notin> set (A (i - 1) @ L @ R) \<and> x \<noteq> Pnull" if "x \<in> set Y" for x
    using dist(2) Ai(5) parts(1) that by auto
  have out: "x \<notin> set (A (i - 1) @ L @ R) \<and> x \<noteq> Pnull"
    if "x \<in> set (A k)" "k < 17" "k \<noteq> i" "k \<noteq> i - 1" for x k
    using other_class [OF rel that(2) i(2) that(3,1)] other_class [OF rel that(2) j(1) that(4,1)]
      buddy_relD(5) [OF rel that(2)] that(1) parts(1) by auto
  have "class_rel t k (A' k)" if k: "k < 17" for k
  proof -
    have i': "class_rel t i Y"
      using t1(3) by (rule class_rel_frame) (use t(4,5) outY j(2) in auto)
    have o: "class_rel t k (A k)" if "k \<noteq> i" "k \<noteq> i - 1"
      using cls1 [OF k that(1)] by (rule class_rel_frame) (use t(4,5) out [OF _ k that] that in auto)
    from i' o t(3) j(2) show ?thesis by (auto simp: A')
  qed
  moreover have "x \<notin> set (A i) \<and> x \<notin> set (A (i - 1) @ L @ R)" if "x \<notin># pages_of A" for x
    using that pages_ofI [of i x A] pages_ofI [of "i - 1" x A] i j(1) parts(1) by auto
  then have "untouched (pages_of A) s t"
    using t(4) t1(4) by (simp add: untouched_def)
  ultimately have "handed s A (i - 1) R A' t"
    using t(2,7) t1(7) by (intro handedI [OF rel _ tot frames]) (auto simp: parts)
  then show ?thesis using spec run by (intro that [of R A' t])
qed

section \<open>Allocation\<close>

lemma upd_num_commute:
  "upd_num i n (upd_next p v s) = upd_next p v (upd_num i n s)"
  "upd_num i n (upd_prev p v s) = upd_prev p v (upd_num i n s)"
  by (simp_all add: upd_num_def upd_next_def upd_prev_def upd_page_def)

text \<open>The best fit of \<open>alloc_buddy\<close> takes the first block the way \<open>SplitBlock\<close> does.\<close>

lemma best_fit_take:
  assumes c: "class_rel s i xs" and ne: "xs \<noteq> []" and i: "i < 17" and idx: "idx = int i"
  shows "alloc_search idx (int i) s =
    (let (blk, t) = take_first_blk (int i) s in kret (int i, Some blk) t)"
proof -
  define p where "p = adv (nxt s) 0 (pow2 (int i)) (lst s (int i))"
  have "2 ^ i \<le> length xs" using class_rel_len [OF c ne] by simp
  then have "length (take (2 ^ i) xs) = 2 ^ i" by simp
  moreover obtain m where m: "dl s Pnull (lst s (int i)) (take (2 ^ i) xs) m"
      "dl s (last (Pnull # take (2 ^ i) xs)) m (drop (2 ^ i) xs) Pnull"
    using c by (metis append_take_drop_id class_rel_def dl_append)
  ultimately have "p = m" using i by (auto simp: p_def intro!: adv_dl)
  then have p: "p = Pnull \<longleftrightarrow> \<not> num s (int i) > 1"
    using dl_null_iff [OF m(2)] class_rel_single [OF c ne] by auto
  have l: "lst s (int i) \<noteq> Pnull" using class_rel_empty [OF c] ne by simp
  have "alloc_search idx (int i) s =
      (let s' = upd_num (int i) (num s (int i) - 1) (upd_lst (int i) p s)
       in kret (int i, Some (lst s (int i)))
            (if p \<noteq> Pnull then upd_prev p Pnull (upd_next (prv s' p) Pnull s') else s'))"
    using l i by (subst alloc_search.simps) (simp add: idx in_table_def p_def Let_def)
  then show ?thesis
    using p by (cases "p = Pnull") (simp_all add: take_first_blk_def Let_def p_def [symmetric] upd_num_commute)
qed

lemma split_more_stops:
  assumes "owned t A (i - 1) B" and "0 < i" "i < 17"
  shows "split_more (hd B) (int i) t = kret (hd B) t"
proof -
  have "(2::int) ^ (i - 1) \<le> 2 * 2 ^ i"
    using power_increasing [of "i - 1" "Suc i" "2::int"] by simp
  moreover have "count_pages (hd B) t = Some (2 ^ (i - 1))"
    using assms by (auto simp: owned_def dest: count_pages_dl)
  ultimately show ?thesis
    using assms by (subst split_more.simps) simp
qed

lemma first_block_handed:
  assumes rel: "buddy_rel s A" and i: "i < 17" and ne: "A i \<noteq> []"
  obtains t where "take_first_blk (int i) s = (hd (take (2 ^ i) (A i)), t)"
    "handed s A i (take (2 ^ i) (A i)) (A(i := drop (2 ^ i) (A i))) t"
    "\<And>x. x \<notin> set (A i) \<Longrightarrow> nxt t x = nxt s x \<and> prv t x = prv s x"
proof -
  note Ai = buddy_relD [OF rel i]
  let ?B = "take (2 ^ i) (A i)" and ?A' = "A(i := drop (2 ^ i) (A i))"
  obtain t where t: "take_first_blk (int i) s = (hd (A i), t)"
      "dl t Pnull (hd (A i)) ?B Pnull" "class_rel t i (drop (2 ^ i) (A i))"
      "\<And>x. x \<notin> set (A i) \<Longrightarrow> nxt t x = nxt s x \<and> prv t x = prv s x"
      "\<And>j. j \<noteq> int i \<Longrightarrow> lst t j = lst s j \<and> num t j = num s j"
      "same_frames s t" "klog t = klog s"
    by (rule take_first_blk_effect [OF Ai(1) ne i Ai(2)]) (rule that)
  have "class_rel t k (?A' k)" if k: "k < 17" for k
  proof (cases "k = i")
    case False
    have "class_rel t k (A k)"
      using buddy_relD(1) [OF rel k]
      by (rule class_rel_frame) (use t(4,5) other_class [OF rel k i False] False in auto)
    with False show ?thesis by simp
  qed (simp add: t(3))
  moreover have "mset (A i) = mset ?B + mset (drop (2 ^ i) (A i))"
    by (simp flip: mset_append)
  then have "pages_of A = pages_of ?A' + mset ?B"
    using pages_of_upd [OF i, of A "drop (2 ^ i) (A i)"] by (simp add: ac_simps)
  moreover have "length ?B = 2 ^ i" using class_rel_len [OF Ai(1) ne] by simp
  moreover have "untouched (pages_of A) s t"
    using t(4) pages_ofI [OF i, of _ A] by (auto simp: untouched_def)
  ultimately have "handed s A i ?B ?A' t"
    using t(2,6,7) by (intro handedI [OF rel]) auto
  with t(1,4) show ?thesis by (intro that [of t]) auto
qed

lemma alloc_search_hit:
  assumes rel: "buddy_rel s A" and i: "idx \<le> i" "i < 17" and ne: "A i \<noteq> []"
    and pick: "pick idx i A = (n, B, A')"
  obtains t where "alloc_search (int idx) (int i) s = kret (int i, Some (hd B)) t" "handed s A n B A' t"
proof (cases "i = idx")
  case True
  with pick have eq: "n = i" "B = take (2 ^ i) (A i)" "A' = A(i := drop (2 ^ i) (A i))"
    by (auto simp: pick_def)
  obtain t where t: "take_first_blk (int i) s = (hd B, t)" "handed s A i B A' t"
    by (rule first_block_handed [OF rel i(2) ne]) (use eq that in auto)
  with best_fit_take [OF buddy_relD(1) [OF rel i(2)] ne i(2)] True eq(1) show ?thesis
    by (intro that [of t]) auto
next
  case False
  with pick i have eq: "n = i - 1" "split_spec i A = (B, A')" "0 < i" by (auto simp: pick_def)
  obtain B' A'' t where t: "split_spec i A = (B', A'')" "SplitBlock (int i) s = kret (hd B') t"
      "handed s A (i - 1) B' A'' t"
    by (rule SplitBlock_refines [OF rel eq(3) i(2) ne]) (rule that)
  have "lst s (int i) \<noteq> Pnull" using class_rel_empty [OF buddy_relD(1) [OF rel i(2)]] ne by simp
  moreover have "split_more (hd B) (int i) t = kret (hd B) t"
    using t eq i(2) by (intro split_more_stops) (auto simp: handed_def)
  ultimately have "alloc_search (int idx) (int i) s = kret (int i, Some (hd B)) t"
    using t(2) eq(2) t(1) i False by (subst alloc_search.simps) (simp add: in_table_def)
  with t eq show ?thesis by (intro that [of t]) auto
qed

lemma alloc_search_miss:
  assumes rel: "buddy_rel s A" and "idx \<le> i" "i < 17" and none: "\<And>k. i \<le> k \<Longrightarrow> k < j \<Longrightarrow> A k = []"
    and "i \<le> j" "j \<le> 17"
  shows "alloc_search (int idx) (int i) s =
    (if j < 17 then alloc_search (int idx) (int j) s else kret (17, None) s)"
  using assms(2-)
proof (induction "j - i" arbitrary: i)
  case (Suc d)
  then have "lst s (int i) = Pnull"
    using class_rel_empty [OF buddy_relD(1) [OF rel Suc.prems(2)]] by simp
  then have step: "alloc_search (int idx) (int i) s =
      (if Suc i < 17 then alloc_search (int idx) (int i + 1) s else kret (int i + 1, None) s)"
    using Suc.prems by (subst alloc_search.simps) (simp add: in_table_def)
  show ?case
  proof (cases "Suc i < 17")
    case True
    have "alloc_search (int idx) (int (Suc i)) s =
        (if j < 17 then alloc_search (int idx) (int j) s else kret (17, None) s)"
      using Suc True by (intro Suc.hyps) auto
    with step True show ?thesis by (simp add: add.commute)
  next
    case False
    with Suc.prems Suc.hyps(2) have "i = 16" "j = 17" by linarith+
    with step show ?thesis by simp
  qed
qed simp

lemma find_upt_Some:
  "find P [i..<n] = Some j \<Longrightarrow> i \<le> j \<and> j < n \<and> P j \<and> (\<forall>k. i \<le> k \<longrightarrow> k < j \<longrightarrow> \<not> P k)"
proof -
  assume "find P [i..<n] = Some j"
  then obtain m where m: "m < n - i" "P (i + m)" "j = i + m" "\<forall>k<m. \<not> P (i + k)"
    by (auto simp: find_Some_iff)
  have "\<not> P k" if "i \<le> k" "k < j" for k
    using m(3,4) that by (metis add_less_cancel_left le_Suc_ex)
  with m show ?thesis by auto
qed

lemma alloc_search_refines:
  assumes rel: "buddy_rel s A" and idx: "idx < 17"
  shows "alloc_spec idx A = None \<Longrightarrow> alloc_search (int idx) (int idx) s = kret (17, None) s"
    and "alloc_spec idx A = Some (n, B, A') \<Longrightarrow>
      \<exists>i t. i < 17 \<and> alloc_search (int idx) (int idx) s = kret (int i, Some (hd B)) t \<and> handed s A n B A' t"
proof -
  assume "alloc_spec idx A = None"
  then have "A k = []" if "idx \<le> k" "k < 17" for k
    using that by (auto simp: alloc_spec_def find_None_iff)
  then show "alloc_search (int idx) (int idx) s = kret (17, None) s"
    using alloc_search_miss [OF rel order_refl idx, of 17] idx by simp
next
  assume "alloc_spec idx A = Some (n, B, A')"
  then obtain i where "find (\<lambda>i. A i \<noteq> []) [idx..<17] = Some i" and pick: "pick idx i A = (n, B, A')"
    by (auto simp: alloc_spec_def)
  then have i: "idx \<le> i" "i < 17" "A i \<noteq> []" "\<And>k. idx \<le> k \<Longrightarrow> k < i \<Longrightarrow> A k = []"
    using find_upt_Some by blast+
  obtain t where "alloc_search (int idx) (int i) s = kret (int i, Some (hd B)) t" "handed s A n B A' t"
    by (rule alloc_search_hit [OF rel i(1,2,3) pick]) (rule that)
  moreover have "alloc_search (int idx) (int idx) s = alloc_search (int idx) (int i) s"
    using alloc_search_miss [OF rel order_refl idx i(4) i(1)] i(2) by simp
  ultimately show "\<exists>i t. i < 17 \<and> alloc_search (int idx) (int idx) s = kret (int i, Some (hd B)) t \<and>
      handed s A n B A' t"
    using i(2) by auto
qed

end
