(* ===== verification/Buddy_Init.thy ===== *)
theory Buddy_Init
  imports Buddy_Refine
begin

text \<open>
  Start-up of the page allocator: \<open>init_pages\<close> builds the frame table from the memory map and
  \<open>init_buddy\<close> cuts the frames into blocks, largest first.
\<close>

section \<open>The frame table\<close>

definition page_up :: "nat \<Rightarrow> nat" where
  "page_up n = (n + 4095) div 4096 * 4096"

text \<open>The number of frames between an address and the end of the region, capped by \<open>MAXSIZE\<close>.\<close>

definition nframes :: "nat \<Rightarrow> nat \<Rightarrow> nat" where
  "nframes a len = (min len 536870913 - a + 4095) div 4096"

definition fresh_page :: "uint \<Rightarrow> phy_page" where
  "fresh_page a = \<lparr>ref_num = 0, flags = 0, start_addr = a, va = 0, pg_next = Pnull, pg_prev = Pnull\<rparr>"

definition with_frames :: "nat \<Rightarrow> nat \<Rightarrow> nat \<Rightarrow> 'a pmm_scheme \<Rightarrow> 'a pmm_scheme" where
  "with_frames n k a s = s\<lparr>phy_pages := (\<lambda>p. case p of
       PG j \<Rightarrow> if n \<le> j \<and> j < n + k then fresh_page (of_nat (a + 4096 * (j - n))) else phy_pages s p
     | Pnull \<Rightarrow> phy_pages s p), phy_page_num := int (n + k)\<rparr>"

lemma nframes_step:
  "nframes a len = (if a < len \<and> a \<le> 536870912 then Suc (nframes (a + 4096) len) else 0)"
proof -
  define x where "x = min len 536870913 - a"
  have "0 < x \<longleftrightarrow> a < len \<and> a \<le> 536870912" by (auto simp: x_def)
  moreover have "(x + 4095) div 4096 = (if 0 < x then Suc ((x - 4096 + 4095) div 4096) else 0)"
    by (cases "x < 4096") (auto simp: div_if)
  ultimately show ?thesis unfolding nframes_def diff_diff_left [symmetric] x_def [symmetric] by simp
qed

lemma nframes_range: "j < nframes a len \<Longrightarrow> a + 4096 * j < len \<and> a + 4096 * j \<le> 536870912"
proof -
  assume "j < nframes a len"
  then have "Suc j * 4096 \<le> min len 536870913 - a + 4095"
    unfolding nframes_def by (subst less_eq_div_iff_mult_less_eq [symmetric]) auto
  then show ?thesis by auto
qed

lemma with_frames_step:
  assumes "phy_page_num s = int n"
  shows "with_frames (Suc n) k (a + 4096)
      (s\<lparr>phy_pages := (phy_pages s)(PG n := fresh_page (of_nat a)), phy_page_num := int n + 1\<rparr>) =
    with_frames n (Suc k) a s"
proof -
  have "a + 4096 + 4096 * (j - Suc n) = a + 4096 * (j - n)" if "Suc n \<le> j" for j
    using that by (simp add: algebra_simps flip: diff_mult_distrib2)
  then show ?thesis
    by (auto simp: with_frames_def fun_eq_iff split: pgptr.split
        intro!: arg_cong2 [of _ _ _ _ "\<lambda>h m. s\<lparr>phy_pages := h, phy_page_num := m\<rparr>"])
qed

lemma init_pages_loop_frames:
  assumes "phy_page_num s = int n" "n + nframes a len \<le> 131072" "len < 2 ^ 32" "a < 2 ^ 32"
  shows "init_pages_loop (of_nat a) (of_nat len) s = kret () (with_frames n (nframes a len) a s)"
  using assms
proof (induction "nframes a len" arbitrary: a n s)
  case 0
  from 0(1) have "\<not> (a < len \<and> a \<le> 536870912)" using nframes_step [of a len] by auto
  then have "\<not> ((of_nat a :: uint) < of_nat len \<and> (of_nat a :: uint) \<le> MAXSIZE)"
    using 0(4,5) by (simp add: word_less_nat_alt word_le_nat_alt unat_of_nat MAXSIZE_def)
  moreover have "(\<lambda>p. case p of Pnull \<Rightarrow> phy_pages s p | PG j \<Rightarrow> phy_pages s p) = phy_pages s"
    by (auto split: pgptr.split)
  then have "with_frames n 0 a s = s"
    using 0(2) by (simp add: with_frames_def not_le [symmetric] del: not_le cong: pgptr.case_cong)
  ultimately show ?case using 0(1) by (subst init_pages_loop.simps) auto
next
  case (Suc k)
  from Suc(2) have c: "a < len" "a \<le> 536870912" and k: "k = nframes (a + 4096) len"
    using nframes_step [of a len] by (auto split: if_splits)
  have "(of_nat a :: uint) < of_nat len" "(of_nat a :: uint) \<le> MAXSIZE"
    using c Suc.prems by (simp_all add: word_less_nat_alt word_le_nat_alt unat_of_nat MAXSIZE_def)
  moreover have "of_nat a + PGSIZE = (of_nat (a + 4096) :: uint)" by (simp add: PGSIZE_def)
  moreover have "n < 131072" using Suc.prems(2) Suc.hyps(2) by simp
  ultimately have "init_pages_loop (of_nat a) (of_nat len) s =
      init_pages_loop (of_nat (a + 4096)) (of_nat len)
        (s\<lparr>phy_pages := (phy_pages s)(PG n := fresh_page (of_nat a)), phy_page_num := int n + 1\<rparr>)"
    using Suc.prems(1) by (subst init_pages_loop.simps) (simp add: MAX_PG_NUM_def fresh_page_def)
  also have "\<dots> = kret () (with_frames (Suc n) (nframes (a + 4096) len) (a + 4096)
        (s\<lparr>phy_pages := (phy_pages s)(PG n := fresh_page (of_nat a)), phy_page_num := int n + 1\<rparr>))"
    using Suc.prems Suc.hyps(2) k c by (intro Suc.hyps(1)) auto
  finally show ?case
    using with_frames_step [OF Suc.prems(1)] Suc.hyps(2) k by simp
qed

lemma add_page: "unat y < 4294963200 \<Longrightarrow> unat (y + PGSIZE) = unat y + 4096" for y :: uint
  by (subst unat_add_lem [THEN iffD1]) (simp_all add: PGSIZE_def)

lemma page_up_word:
  fixes x :: uint
  assumes "unat x < 4294963200"
  shows "unat (if x AND 0xfff \<noteq> 0 then push_bit 12 (drop_bit 12 x) + PGSIZE else x) =
    (unat x + 4095) div 4096 * 4096"
proof -
  define n where "n = unat x"
  have m: "x AND 0xfff = 0 \<longleftrightarrow> n mod 4096 = 0"
  proof -
    have "x AND 0xfff = take_bit 12 x" by (simp add: take_bit_eq_mask mask_eq_exp_minus_1)
    then have "unat (x AND 0xfff) = n mod 4096"
      by (simp add: n_def unsigned_take_bit_eq take_bit_eq_mod unat_mod_distrib)
    then show ?thesis by (metis unat_eq_zero)
  qed
  have "unat (push_bit 12 (drop_bit 12 x)) = n div 4096 * 4096"
    using assms unfolding unsigned_push_bit_eq unsigned_drop_bit_eq
    by (simp add: n_def push_bit_eq_mult drop_bit_eq_div take_bit_eq_mod le_less_trans [of _ "unat x"])
  moreover have "n div 4096 * 4096 \<le> n" by simp
  ultimately have p: "unat (push_bit 12 (drop_bit 12 x) + PGSIZE) = n div 4096 * 4096 + 4096"
    using assms add_page [of "push_bit 12 (drop_bit 12 x)"] unfolding n_def by linarith
  have "(n + 4095) div 4096 * 4096 = (if n mod 4096 \<noteq> 0 then n div 4096 * 4096 + 4096 else n)"
  proof -
    define q r where "q = n div 4096" and "r = n mod 4096"
    then have n: "n = q * 4096 + r" "r < 4096" by simp_all
    have "(q * 4096 + (r + 4095)) div 4096 = q + (r + 4095) div 4096" by simp
    moreover have "(r + 4095) div 4096 = (if r = 0 then 0 else 1)" using n(2) by (auto simp: div_if)
    ultimately show ?thesis using n by (simp add: ac_simps r_def [symmetric] q_def [symmetric])
  qed
  then show ?thesis using m p by (simp add: n_def)
qed

lemma first_page_addr_nat:
  assumes "unat kern_start \<le> unat kern_end" "unat kern_end - unat kern_start < 2 ^ 31"
  shows "first_page_addr 0x100000 kern_start kern_end =
    of_nat (page_up (1048576 + (unat kern_end - unat kern_start) div 4))"
proof -
  define d where "d = unat kern_end - unat kern_start"
  have d: "kern_end - kern_start = of_nat d" "d < 2147483648"
    using assms by (simp_all add: d_def word_le_nat_alt of_nat_diff)
  have "sint (of_nat d :: uint) = int d"
    using d(2) by (simp add: signed_of_nat signed_take_bit_int_eq_self)
  then have "sint (kern_end - kern_start) div 4 = int (d div 4)"
    unfolding d(1) by (simp add: zdiv_int)
  then have w: "0x100000 + word_of_int (sint (kern_end - kern_start) div 4) = (of_nat (1048576 + d div 4) :: uint)"
    by simp
  have u: "unat (of_nat (1048576 + d div 4) :: uint) = 1048576 + d div 4"
    using d(2) by (subst unat_of_nat) simp
  have "unat (first_page_addr 0x100000 kern_start kern_end) = page_up (1048576 + d div 4)"
    unfolding first_page_addr_def Let_def w page_up_def
    by (rule page_up_word [of "of_nat (1048576 + d div 4)", unfolded u]) (use d(2) in simp)
  then show ?thesis unfolding d_def [symmetric]
    by (metis of_nat_unat ucast_id)
qed


text \<open>One region starts at 1 MB, as the multiboot memory map of a PC has it.\<close>

definition one_region :: "(nat \<Rightarrow> mmap_entry) \<Rightarrow> nat \<Rightarrow> nat \<Rightarrow> bool" where
  "one_region mmap n e \<longleftrightarrow> e < n \<and>
     (\<forall>i<n. (mmap_type (mmap i) = 1 \<and> base_addr_low (mmap i) = 0x100000) = (i = e))"

definition first_frame :: "uint \<Rightarrow> uint \<Rightarrow> nat" where
  "first_frame kern_start kern_end = page_up (1048576 + (unat kern_end - unat kern_start) div 4)"

definition frame_count :: "mmap_entry \<Rightarrow> uint \<Rightarrow> uint \<Rightarrow> nat" where
  "frame_count region kern_start kern_end =
     nframes (first_frame kern_start kern_end) (1048576 + unat (length_low region))"

lemma init_pages_skip:
  assumes "\<And>j. i \<le> j \<Longrightarrow> j < i + n \<Longrightarrow> \<not> (mmap_type (mmap j) = 1 \<and> base_addr_low (mmap j) = 0x100000)"
  shows "init_pages_entries mmap ks ke i (n + m) s = init_pages_entries mmap ks ke (i + n) m s"
  using assms
proof (induction n arbitrary: i)
  case (Suc n)
  have "\<not> (mmap_type (mmap i) = 1 \<and> base_addr_low (mmap i) = 0x100000)" using Suc.prems by simp
  moreover have "init_pages_entries mmap ks ke (Suc i) (n + m) s = init_pages_entries mmap ks ke (Suc i + n) m s"
    using Suc.prems by (intro Suc.IH) auto
  ultimately show ?case by (simp add: Let_def del: de_Morgan_conj)
qed simp

lemma init_pages_frames:
  assumes reg: "one_region mmap (unat mmap_length) e"
    and kern: "unat kern_start \<le> unat kern_end" "unat kern_end - unat kern_start < 2 ^ 31"
    and len: "1048576 + unat (length_low (mmap e)) < 2 ^ 32" and n: "phy_page_num s = 0"
  defines "N \<equiv> frame_count (mmap e) kern_start kern_end"
  shows "init_pages mmap mmap_length kern_start kern_end s =
      kret () (with_frames 0 N (first_frame kern_start kern_end) s)"
    and "N \<le> 130817"
proof -
  define a where "a = first_frame kern_start kern_end"
  have a: "1048576 \<le> a" "a < 2 ^ 32"
    using kern by (auto simp: a_def first_frame_def page_up_def div_le_mono)
  show N: "N \<le> 130817"
    using a(1) by (simp add: N_def frame_count_def nframes_def a_def [symmetric])
  let ?e = "mmap e"
  have e: "mmap_type ?e = 1" "base_addr_low ?e = 0x100000"
    using reg by (auto simp: one_region_def)
  have w: "0x100000 + length_low ?e = of_nat (1048576 + unat (length_low ?e))" by simp
  have run: "init_pages_loop (first_page_addr (base_addr_low ?e) kern_start kern_end)
      (base_addr_low ?e + length_low ?e) s = kret () (with_frames 0 N a s)"
    unfolding e w first_page_addr_nat [OF kern] a_def [symmetric, unfolded first_frame_def]
    using init_pages_loop_frames [of s 0 a "1048576 + unat (length_low ?e)"] n a(2) N len
    by (simp add: N_def frame_count_def a_def)
  define r where "r = unat mmap_length - Suc e"
  have split: "unat mmap_length = e + Suc r" using reg by (simp add: r_def one_region_def)
  have "init_pages mmap mmap_length kern_start kern_end s =
      init_pages_entries mmap kern_start kern_end e (Suc r) s"
    unfolding init_pages_def split using reg split
    by (subst init_pages_skip) (auto simp: one_region_def)
  also have "\<dots> = init_pages_entries mmap kern_start kern_end (Suc e) (r + 0) (with_frames 0 N a s)"
    using run e by (simp add: Let_def)
  also have "\<dots> = kret () (with_frames 0 N a s)"
    using reg split by (subst init_pages_skip) (auto simp: one_region_def)
  finally show "init_pages mmap mmap_length kern_start kern_end s =
      kret () (with_frames 0 N (first_frame kern_start kern_end) s)" by (simp add: a_def)
qed

section \<open>Cutting the frames into blocks\<close>

text \<open>\<open>t\<close> is \<open>s\<close> with the pages \<open>st..st + n - 1\<close> in one chain.\<close>

definition chained :: "nat \<Rightarrow> nat \<Rightarrow> 'a pmm_scheme \<Rightarrow> 'a pmm_scheme \<Rightarrow> bool" where
  "chained st n s t \<longleftrightarrow> dl t Pnull (PG st) (map PG [st..<st + n]) Pnull \<and>
     (\<forall>x. x \<notin> PG ` {st..<st + n} \<longrightarrow> nxt t x = nxt s x \<and> prv t x = prv s x) \<and>
     (\<forall>j. lst t j = lst s j \<and> num t j = num s j) \<and> same_frames s t"

lemma link_pages_chain:
  assumes "1 \<le> i" "i \<le> n" and "dl s Pnull (PG st) (map PG [st..<st + i]) Pnull"
  shows "chained st n s (link_pages idx (int st) (int n) (int i) s)"
  using assms
proof (induction "n - i" arbitrary: i s)
  case 0
  then show ?case by (subst link_pages.simps) (simp add: chained_def)
next
  case (Suc d)
  let ?l = "PG (st + i - 1)" and ?x = "PG (st + i)"
  let ?s = "upd_next ?x Pnull (upd_next ?l ?x (upd_prev ?x ?l s))"
  have last: "last (map PG [st..<st + i]) = ?l" using Suc.prems(1) by (simp add: last_map)
  have "dl (upd_prev ?x Pnull (upd_next ?x Pnull s)) Pnull (PG st) (map PG [st..<st + i]) Pnull"
    using Suc.prems(3) by (rule dl_frame) auto
  then have "dl ?s Pnull (PG st) (map PG [st..<st + i] @ [?x]) Pnull"
    using Suc.prems(1) last by (auto simp: distinct_map inj_on_def intro!: dl_join [where q = "?x" and c = Pnull])
  then have chain: "dl ?s Pnull (PG st) (map PG [st..<st + Suc i]) Pnull" by simp
  have idx: "nat (int st + int i) = st + i" "nat (int st + int i - 1) = st + i - 1"
    using Suc.prems(1) by auto
  have step: "link_pages idx (int st) (int n) (int i) s = link_pages idx (int st) (int n) (int (Suc i)) ?s"
    using Suc.hyps(2) Suc.prems(1)
    by (subst link_pages.simps) (simp add: Let_def idx add.commute [of 1])
  define t where "t = link_pages idx (int st) (int n) (int i) s"
  have "chained st n ?s t"
    unfolding t_def step using Suc.hyps(2) chain by (intro Suc.hyps(1)) auto
  moreover have "st + i - 1 \<in> {st..<st + n}" "st + i \<in> {st..<st + n}"
    using Suc.hyps(2) Suc.prems(1) by auto
  then have "?l \<in> PG ` {st..<st + n}" "?x \<in> PG ` {st..<st + n}" by blast+
  moreover have "same_frames s t" if "same_frames ?s t"
    using that same_frames_trans [of s ?s t] by simp
  ultimately show ?case unfolding t_def [symmetric] by (auto simp: chained_def)
qed

lemma link_pages_block:
  assumes "1 \<le> n"
  shows "chained st n (upd_lst idx (PG st) s) (link_pages idx (int st) (int n) 0 s)"
proof -
  let ?s = "upd_prev (PG st) Pnull (upd_next (PG st) Pnull (upd_lst idx (PG st) s))"
  have "dl ?s Pnull (PG st) (map PG [st..<st + 1]) Pnull" by simp
  then have "chained st n ?s (link_pages idx (int st) (int n) (int 1) ?s)"
    using assms by (intro link_pages_chain) auto
  moreover have "link_pages idx (int st) (int n) 0 s = link_pages idx (int st) (int n) (int 1) ?s"
    using assms by (subst link_pages.simps) (simp add: Let_def)
  moreover have "PG st \<in> PG ` {st..<st + n}" using assms by auto
  moreover have "same_frames (upd_lst idx (PG st) s) t" if "same_frames ?s t" for t
    using that same_frames_trans [of "upd_lst idx (PG st) s" ?s t] by simp
  ultimately show ?thesis by (auto simp: chained_def)
qed

text \<open>One round of \<open>init_blks\<close>: a class that was empty gets its one block.\<close>

lemma new_block:
  assumes rel: "buddy_rel s A" and m: "m < 17" "A m = []"
    and pg: "pages_of A = mset (map PG [0..<st])" and ok: "\<And>j. j < st + 2 ^ m \<Longrightarrow> frame_ok s (PG j)"
  defines "t \<equiv> (let u = link_pages (int m) (int st) (2 ^ m) 0 s in upd_num (int m) (num u (int m) + 1) u)"
    and "A' \<equiv> A(m := map PG [st..<st + 2 ^ m])"
  shows "buddy_rel t A'" "pages_of A' = mset (map PG [0..<st + 2 ^ m])" "same_frames s t"
proof -
  define u where "u = link_pages (int m) (int st) (2 ^ m) 0 s"
  have u: "chained st (2 ^ m) (upd_lst (int m) (PG st) s) u"
    using link_pages_block [of "2 ^ m" st "int m" s] by (simp add: u_def)
  have t: "t = upd_num (int m) (num u (int m) + 1) u" by (simp add: t_def u_def Let_def)
  have "num s (int m) = 0" using buddy_relD(1) [OF rel m(1)] m(2) by (simp add: class_rel_def)
  then have n: "num t (int m) = 1" using u by (simp add: t chained_def)
  have "same_frames (upd_lst (int m) (PG st) s) u" using u by (simp add: chained_def)
  then show fr: "same_frames s t"
    using same_frames_trans [of s "upd_lst (int m) (PG st) s" u] by (simp add: t)
  show pg': "pages_of A' = mset (map PG [0..<st + 2 ^ m])"
    using pages_of_upd [OF m(1), of A "map PG [st..<st + 2 ^ m]"] m(2) pg
    by (simp add: A'_def upt_add_eq_append [of 0])
  have "class_rel t k (A' k)" if k: "k < 17" for k
  proof (cases "k = m")
    case True
    have "dl t Pnull (PG st) (map PG [st..<st + 2 ^ m]) Pnull"
      by (rule dl_frame [of u]) (use u in \<open>auto simp: t chained_def\<close>)
    with True n u show ?thesis by (simp add: A'_def class_rel_def t chained_def)
  next
    case False
    have "x \<notin> PG ` {st..<st + 2 ^ m}" if "x \<in> set (A k)" for x
      using pages_ofI [of k x A] k that pg by auto
    then have "nxt t x = nxt s x \<and> prv t x = prv s x" if "x \<in> set (A k)" for x
      using u that by (simp add: t chained_def)
    moreover have "lst t (int k) = lst s (int k)" "num t (int k) = num s (int k)"
      using u False by (simp_all add: t chained_def)
    ultimately have "class_rel t k (A k)"
      using class_rel_frame [OF buddy_relD(1) [OF rel k]] by blast
    with False show ?thesis by (simp add: A'_def)
  qed
  moreover have "one_each (pages_of A')"
    unfolding pg' one_each_distinct by (simp add: distinct_map inj_on_def)
  moreover have "frame_ok t p" if "p \<in># pages_of A'" for p
    using that ok unfolding pg' frame_ok_same [OF fr] by auto
  ultimately show "buddy_rel t A'"
    using rel fr by (simp add: buddy_rel_def same_frames_def)
qed

text \<open>A last single page is never linked, unless it is the only one.\<close>

definition pages_used :: "nat \<Rightarrow> nat" where
  "pages_used n = (if n = 1 then 1 else n - n mod 2)"

lemma pages_used_step:
  assumes "n = 2 ^ m + r" "r < 2 ^ m" and "2 \<le> r"
  shows "2 ^ m + pages_used r = pages_used n"
proof -
  have "m \<noteq> 0" using assms by (cases m) auto
  then obtain k where k: "(2::nat) ^ m = 2 * k" by (cases m) auto
  have "n mod 2 = r mod 2" unfolding assms(1) k by simp
  with assms show ?thesis by (simp add: pages_used_def)
qed

lemma pages_used_last:
  assumes "n = 2 ^ m + r" "r < 2 ^ m" and "r < 2"
  shows "pages_used n = 2 ^ m"
proof (cases m)
  case 0
  with assms show ?thesis by (simp add: pages_used_def)
next
  case (Suc k)
  then have "n mod 2 = r" using assms by simp
  moreover define c where "c = (2::nat) ^ k"
  then have "0 < c" "n = 2 * c + r" using assms(1) Suc by simp_all
  then have "n \<noteq> 1" by linarith
  ultimately show ?thesis using assms(1) by (simp add: pages_used_def)
qed

lemma init_blks_rel:
  assumes "buddy_rel s A" "pages_of A = mset (map PG [0..<st])" "2 ^ m \<le> n" "n < 2 ^ Suc m" "m < 17"
    "\<And>k. k \<le> m \<Longrightarrow> A k = []" "\<And>j. j < st + n \<Longrightarrow> frame_ok s (PG j)"
  shows "\<exists>t A'. init_blks (int n) (int m) (int st) s = kret () t \<and> buddy_rel t A' \<and>
    pages_of A' = mset (map PG [0..<st + pages_used n]) \<and> same_frames s t"
  using assms
proof (induction m arbitrary: n st s A rule: less_induct)
  case (less m)
  define t where "t = (let u = link_pages (int m) (int st) (2 ^ m) 0 s in upd_num (int m) (num u (int m) + 1) u)"
  define A' where "A' = A(m := map PG [st..<st + 2 ^ m])"
  define r where "r = n - 2 ^ m"
  have r: "n = 2 ^ m + r" "r < 2 ^ m" using less.prems(3,4) by (auto simp: r_def)
  have t: "buddy_rel t A'" "pages_of A' = mset (map PG [0..<st + 2 ^ m])" "same_frames s t"
    unfolding t_def A'_def
    by (rule new_block [OF less.prems(1) less.prems(5) less.prems(6) [OF order_refl] less.prems(2)];
        use less.prems(7) r in simp)+
  have run: "init_blks (int n) (int m) (int st) s =
      kbind (klift (log2 (int r)) t) (\<lambda>idx s.
        if idx \<noteq> 0 then init_blks (int r) idx (int st + 2 ^ m) s else kret () s)"
    using less.prems(5) r(1)
    by (subst init_blks.simps) (simp add: in_table_def Let_def t_def)
  show ?case
  proof (cases "r < 2")
    case True
    then have "log2 (int r) = Some 0" by (intro log2_nonpos) auto
    then have "init_blks (int n) (int m) (int st) s = kret () t" using run by simp
    moreover have "pages_used n = 2 ^ m"
      using r True by (rule pages_used_last)
    ultimately show ?thesis using t by auto
  next
    case False
    then obtain k where k: "(2::int) ^ k \<le> int r" "int r < 2 ^ Suc k"
      using floor_power_ex [of "int r"] by auto
    then have k': "2 ^ k \<le> r" "r < 2 ^ Suc k"
      by (metis of_nat_le_iff of_nat_numeral of_nat_power, metis of_nat_less_iff of_nat_numeral of_nat_power)
    have "(2::nat) ^ k < 2 ^ m" using k'(1) r(2) by (rule le_less_trans)
    then have km: "k < m" by (rule power_less_imp_less_exp [rotated]) simp
    have "k \<noteq> 0" using k'(2) False by (cases k) auto
    have "(2::int) ^ Suc k \<le> 2 ^ 30" using km less.prems(5) by (intro power_increasing) auto
    then have "log2 (int r) = Some (int k)" using k by (intro log2_floor) auto
    with \<open>k \<noteq> 0\<close> have "init_blks (int n) (int m) (int st) s = init_blks (int r) (int k) (int (st + 2 ^ m)) t"
      using run by simp
    moreover have "\<exists>t' A''. init_blks (int r) (int k) (int (st + 2 ^ m)) t = kret () t' \<and> buddy_rel t' A'' \<and>
        pages_of A'' = mset (map PG [0..<st + 2 ^ m + pages_used r]) \<and> same_frames t t'"
    proof (rule less.IH [OF km t(1,2) k'])
      show "k < 17" using km less.prems(5) by simp
      show "A' j = []" if "j \<le> k" for j using that km less.prems(6) by (simp add: A'_def)
      show "frame_ok t (PG j)" if "j < st + 2 ^ m + r" for j
        using that less.prems(7) r(1) frame_ok_same [OF t(3)] by simp
    qed
    moreover have "2 ^ m + pages_used r = pages_used n"
      using r False by (intro pages_used_step) auto
    ultimately show ?thesis using same_frames_trans [OF t(3)] by (metis add.assoc)
  qed
qed

section \<open>Start-up\<close>

lemma init_table_reads:
  "0 \<le> i \<Longrightarrow> i < 17 \<Longrightarrow> lst (init_table s) i = Pnull \<and> num (init_table s) i = 0"
  "nxt (init_table s) p = nxt s p" "prv (init_table s) p = prv s p" "same_frames s (init_table s)"
proof -
  have *: "init_table s = fold (\<lambda>i s. upd_num i 0 (upd_lst i Pnull s))
      [0, 1, 2, 3, 4, 5, 6, 7, 8, 9, 10, 11, 12, 13, 14, 15, 16] s"
    by (simp add: init_table_def upto_rec_numeral upto.simps)
  show "nxt (init_table s) p = nxt s p" "prv (init_table s) p = prv s p" "same_frames s (init_table s)"
    by (simp_all add: *)
  show "lst (init_table s) i = Pnull \<and> num (init_table s) i = 0" if "0 \<le> i" "i < 17"
  proof -
    have "i \<in> set [0..16]" using that by simp
    then have "lst (fold (\<lambda>i s. upd_num i 0 (upd_lst i Pnull s)) is s) i = Pnull \<and>
        num (fold (\<lambda>i s. upd_num i 0 (upd_lst i Pnull s)) is s) i = 0"
      if "i \<in> set is" for "is"
      using that by (induction "is" rule: rev_induct) auto
    with \<open>i \<in> set [0..16]\<close> show ?thesis by (simp add: init_table_def)
  qed
qed

lemma init_table_rel: "phy_page_num s < 131072 \<Longrightarrow> buddy_rel (init_table s) (\<lambda>_. [])"
  using init_table_reads(4) [of s]
  by (simp add: buddy_rel_def class_rel_def init_table_reads pages_of_def one_each_def same_frames_def)

text \<open>The allocator after start-up, from the memory map and the size of the kernel image.\<close>

lemma init_buddy_establishes:
  assumes reg: "one_region mmap (unat mmap_length) e"
    and kern: "unat kern_start \<le> unat kern_end" "unat kern_end - unat kern_start < 2 ^ 31"
    and len: "1048576 + unat (length_low (mmap e)) < 2 ^ 32" and n: "phy_page_num s = 0"
    and some: "1 \<le> frame_count (mmap e) kern_start kern_end"
  defines "N \<equiv> frame_count (mmap e) kern_start kern_end"
  obtains t A where "init_buddy mmap mmap_length kern_start kern_end s = kret () t" "buddy_rel t A"
    "pages_of A = mset (map PG [0..<pages_used N])" "phy_page_num t = int N"
    "\<And>j. j < N \<Longrightarrow> start_addr (phy_pages t (PG j)) = of_nat (first_frame kern_start kern_end + 4096 * j)
       \<and> ref_num (phy_pages t (PG j)) = 0"
    "klog t = klog s" "pmm.more t = pmm.more s" "N \<le> 130817"
proof -
  define a where "a = first_frame kern_start kern_end"
  define w where "w = init_table (with_frames 0 N a s)"
  note pages = init_pages_frames [OF reg kern len n]
  have N: "1 \<le> N" "N \<le> 130817" using some pages(2) by (auto simp: N_def)
  have fr: "phy_page_num w = int N" "klog w = klog s" "pmm.more w = pmm.more s"
      "start_addr (phy_pages w (PG j)) = start_addr (phy_pages (with_frames 0 N a s) (PG j)) \<and>
       ref_num (phy_pages w (PG j)) = ref_num (phy_pages (with_frames 0 N a s) (PG j))" for j
    using init_table_reads(4) [of "with_frames 0 N a s"]
    by (simp_all add: w_def same_frames_def with_frames_def)
  have a: "1048576 \<le> a" by (auto simp: a_def first_frame_def page_up_def div_le_mono)
  have frames: "start_addr (phy_pages w (PG j)) = of_nat (a + 4096 * j) \<and> ref_num (phy_pages w (PG j)) = 0"
    if "j < N" for j
    using fr(4) [of j] that by (simp add: with_frames_def fresh_page_def)
  have ok: "frame_ok w (PG j)" if j: "j < N" for j
  proof -
    have "a + 4096 * j < 2 ^ 32"
      using nframes_range [of j a "1048576 + unat (length_low (mmap e))"] j
      by (simp add: N_def frame_count_def a_def)
    then have "1 < (of_nat (a + 4096 * j) :: uint)" using a
      by (simp only: word_less_nat_alt unat_of_nat) simp
    with frames [OF j] j fr(1) show ?thesis by (simp add: frame_ok_def)
  qed
  obtain m where m: "(2::int) ^ m \<le> int N" "int N < 2 ^ Suc m" using floor_power_ex [of "int N"] N by auto
  then have m': "2 ^ m \<le> N" "N < 2 ^ Suc m"
    by (metis of_nat_le_iff of_nat_numeral of_nat_power, metis of_nat_less_iff of_nat_numeral of_nat_power)
  have "(2::nat) ^ m < 2 ^ 17" using m'(1) N by simp
  then have m17: "m < 17" by (rule power_less_imp_less_exp [rotated]) simp
  have lg: "log2 (int N) = Some (int m)" using m N by (intro log2_floor) auto
  obtain t A where t: "init_blks (int N) (int m) (int 0) w = kret () t" "buddy_rel t A"
      "pages_of A = mset (map PG [0..<0 + pages_used N])" "same_frames w t"
    using init_blks_rel [OF _ _ m' m17, of w "\<lambda>_. []" 0] ok init_table_rel [of "with_frames 0 N a s"] N
    by (force simp: w_def pages_of_def with_frames_def)
  have "init_buddy mmap mmap_length kern_start kern_end s = kret () t"
    using pages(1) t(1) lg fr(1) unfolding N_def [symmetric] a_def [symmetric]
    by (simp add: init_buddy_def Let_def w_def [symmetric])
  with t fr(1-3) frames N(2) show ?thesis
    by (intro that [of t A]) (auto simp: same_frames_def a_def)
qed

end
