(* ===== verification/Kern_List.thy ===== *)
theory Kern_List
  imports Prelude
begin

text \<open>
  libs/list.h: the intrusive circular doubly linked list of the kernel. The memory of all
  \<open>list_t\<close> nodes is a record of two functions from addresses; address 0 is \<open>NULL\<close>.
  \<open>clist h head xs\<close> says that the nodes \<open>xs\<close> hang, in this order, on the circle of the
  sentinel \<open>head\<close>. Each operation is related to the operation on \<open>xs\<close> it implements, and
  the locale \<open>deque\<close> states these laws as the interface the scheduler and the semaphores use.
\<close>

section \<open>Nodes and operations\<close>

abbreviation NULL :: addr where "NULL \<equiv> 0"

record list_heap =
  l_next :: "addr \<Rightarrow> addr"
  l_prev :: "addr \<Rightarrow> addr"

definition set_next :: "addr \<Rightarrow> addr \<Rightarrow> list_heap \<Rightarrow> list_heap" where
  "set_next a v h = h\<lparr>l_next := (l_next h)(a := v)\<rparr>"

definition set_prev :: "addr \<Rightarrow> addr \<Rightarrow> list_heap \<Rightarrow> list_heap" where
  "set_prev a v h = h\<lparr>l_prev := (l_prev h)(a := v)\<rparr>"

definition list_init :: "addr \<Rightarrow> list_heap \<Rightarrow> list_heap" where
  "list_init l h = set_prev l l (set_next l l h)"

definition list_add_tail :: "addr \<Rightarrow> addr \<Rightarrow> list_heap \<Rightarrow> list_heap" where
  "list_add_tail head ele h =
     (if head \<noteq> NULL then
        let h = set_next (l_prev h head) ele h;
            h = set_next ele head h;
            h = set_prev ele (l_prev h head) h
        in set_prev head ele h
      else h)"

definition list_add_head :: "addr \<Rightarrow> addr \<Rightarrow> list_heap \<Rightarrow> list_heap" where
  "list_add_head head ele h =
     (if head \<noteq> NULL then
        let h = set_prev (l_next h head) ele h;
            h = set_next ele (l_next h head) h;
            h = set_next head ele h
        in set_prev ele head h
      else h)"

definition list_add_after :: "addr \<Rightarrow> addr \<Rightarrow> list_heap \<Rightarrow> list_heap" where
  "list_add_after ele1 ele2 h =
     (let h = set_prev (l_next h ele1) ele2 h;
          h = set_next ele2 (l_next h ele1) h;
          h = set_next ele1 ele2 h
      in set_prev ele2 ele1 h)"

definition list_add_before :: "addr \<Rightarrow> addr \<Rightarrow> list_heap \<Rightarrow> list_heap" where
  "list_add_before ele1 ele2 h =
     (let h = set_next (l_prev h ele1) ele2 h;
          h = set_next ele2 ele1 h;
          h = set_prev ele2 (l_prev h ele1) h
      in set_prev ele1 ele2 h)"

definition list_remove :: "addr \<Rightarrow> list_heap \<Rightarrow> list_heap" where
  "list_remove ele h =
     (let h = set_next (l_prev h ele) (l_next h ele) h;
          h = set_prev (l_next h ele) (l_prev h ele) h;
          h = set_prev ele NULL h
      in set_next ele NULL h)"

definition list_pop :: "addr \<Rightarrow> list_heap \<Rightarrow> addr \<times> list_heap" where
  "list_pop head h =
     (if l_next h head \<noteq> head then (l_next h head, list_remove (l_next h head) h)
      else (NULL, h))"

definition list_front :: "addr \<Rightarrow> list_heap \<Rightarrow> addr" where
  "list_front head h = (if l_next h head \<noteq> head then l_next h head else NULL)"

definition list_empty :: "addr \<Rightarrow> list_heap \<Rightarrow> int" where
  "list_empty head h = (if l_next h head \<noteq> head then 0 else 1)"

partial_function (option) list_find_loop :: "list_heap \<Rightarrow> addr \<Rightarrow> addr \<Rightarrow> addr \<Rightarrow> int option" where
  [code]: "list_find_loop h head elem p =
     (if p \<noteq> head then
        if p = elem then Some 1 else list_find_loop h head elem (l_next h p)
      else Some 0)"

definition list_find :: "addr \<Rightarrow> addr \<Rightarrow> list_heap \<Rightarrow> int option" where
  "list_find head elem h = list_find_loop h head elem (l_next h head)"

section \<open>Circles\<close>

text \<open>\<open>lseg h a xs b\<close>: from node \<open>a\<close> the links go through \<open>xs\<close> to node \<open>b\<close>, and back.\<close>

fun lseg :: "list_heap \<Rightarrow> addr \<Rightarrow> addr list \<Rightarrow> addr \<Rightarrow> bool" where
  "lseg h a [] b = (l_next h a = b \<and> l_prev h b = a)"
| "lseg h a (x # xs) b = (l_next h a = x \<and> l_prev h x = a \<and> lseg h x xs b)"

definition clist :: "list_heap \<Rightarrow> addr \<Rightarrow> addr list \<Rightarrow> bool" where
  "clist h head xs \<longleftrightarrow> distinct (head # xs) \<and> NULL \<notin> set (head # xs) \<and> lseg h head xs head"

lemma l_next_set_next [simp, heap_simps]:
  "l_next (set_next a v h) b = (if b = a then v else l_next h b)"
  by (simp add: set_next_def)

lemma l_prev_set_next [simp, heap_simps]: "l_prev (set_next a v h) b = l_prev h b"
  by (simp add: set_next_def)

lemma l_next_set_prev [simp, heap_simps]: "l_next (set_prev a v h) b = l_next h b"
  by (simp add: set_prev_def)

lemma l_prev_set_prev [simp, heap_simps]:
  "l_prev (set_prev a v h) b = (if b = a then v else l_prev h b)"
  by (simp add: set_prev_def)

lemma lseg_append:
  "lseg h a (xs @ x # ys) b \<longleftrightarrow> lseg h a xs x \<and> lseg h x ys b"
  by (induction xs arbitrary: a) auto

lemma lseg_snoc: "lseg h a (xs @ [x]) b \<longleftrightarrow> lseg h a xs x \<and> l_next h x = b \<and> l_prev h b = x"
  by (simp add: lseg_append)

lemma lseg_frame:
  assumes "lseg h a xs b"
    and "\<And>x. x \<in> set (a # xs) \<Longrightarrow> l_next h' x = l_next h x"
    and "\<And>x. x \<in> set (xs @ [b]) \<Longrightarrow> l_prev h' x = l_prev h x"
  shows "lseg h' a xs b"
  using assms by (induction xs arbitrary: a) auto

text \<open>What an operation may touch: a circle none of whose nodes changes stays as it is.\<close>

lemma clist_frame:
  assumes "clist h head xs"
    and "\<And>x. x \<in> set (head # xs) \<Longrightarrow> l_next h' x = l_next h x \<and> l_prev h' x = l_prev h x"
  shows "clist h' head xs"
  using assms unfolding clist_def by (auto intro!: lseg_frame [of h head xs head])

lemma lseg_last:
  "lseg h a xs b \<Longrightarrow> l_prev h b = last (a # xs)"
  by (induction xs arbitrary: a) auto

lemma lseg_first: "lseg h a xs b \<Longrightarrow> l_next h a = hd (xs @ [b])"
  by (cases xs) auto

lemma clist_nodes: "clist h head xs \<Longrightarrow> distinct (head # xs) \<and> NULL \<notin> set (head # xs)"
  by (simp add: clist_def)

lemma clist_next: "clist h head xs \<Longrightarrow> l_next h head = hd (xs @ [head])"
  unfolding clist_def by (blast dest: lseg_first)

lemma clist_empty_iff: "clist h head xs \<Longrightarrow> l_next h head = head \<longleftrightarrow> xs = []"
  by (cases xs) (auto simp: clist_def)

section \<open>Each operation on a circle\<close>

lemma list_init_clist: "l \<noteq> NULL \<Longrightarrow> clist (list_init l h) l []"
  by (simp add: clist_def list_init_def)

lemma list_add_head_clist:
  assumes c: "clist h head xs" and e: "ele \<notin> set (head # xs)" "ele \<noteq> NULL"
  shows "clist (list_add_head head ele h) head (ele # xs)"
proof (cases xs)
  case Nil
  with assms show ?thesis by (simp add: clist_def list_add_head_def Let_def)
next
  case (Cons y ys)
  with c have n: "head \<noteq> NULL" "l_next h head = y" "lseg h y ys head" "y \<noteq> head"
    by (auto simp: clist_def)
  let ?h = "list_add_head head ele h"
  have "lseg ?h y ys head"
    using n(3) by (rule lseg_frame) (use assms n Cons in \<open>auto simp: clist_def list_add_head_def Let_def\<close>)
  with assms n Cons show ?thesis
    by (auto simp: clist_def list_add_head_def Let_def)
qed

lemma list_add_tail_clist:
  assumes c: "clist h head xs" and e: "ele \<notin> set (head # xs)" "ele \<noteq> NULL"
  shows "clist (list_add_tail head ele h) head (xs @ [ele])"
proof (cases xs rule: rev_cases)
  case Nil
  with assms show ?thesis by (auto simp: clist_def list_add_tail_def Let_def)
next
  case (snoc ys y)
  with c have n: "head \<noteq> NULL" "l_prev h head = y" "lseg h head ys y" "y \<noteq> head" "y \<notin> set ys"
    by (auto simp: clist_def lseg_snoc)
  let ?h = "list_add_tail head ele h"
  have "lseg ?h head ys y"
    using n(3) by (rule lseg_frame) (use assms n snoc in \<open>auto simp: clist_def list_add_tail_def Let_def\<close>)
  moreover have "l_next ?h y = ele" "l_prev ?h ele = y" "l_next ?h ele = head" "l_prev ?h head = ele"
    using assms n snoc by (auto simp: list_add_tail_def Let_def)
  ultimately show ?thesis
    using assms n snoc by (auto simp: clist_def lseg_append)
qed

lemma list_remove_clist:
  assumes c: "clist h head (xs @ x # ys)"
  shows "clist (list_remove x h) head (xs @ ys)"
    and "l_next (list_remove x h) x = NULL" and "l_prev (list_remove x h) x = NULL"
proof -
  let ?h = "list_remove x h" and ?a = "last (head # xs)" and ?b = "hd (ys @ [head])"
  from c have s: "lseg h head xs x" "lseg h x ys head"
    and d: "distinct (head # xs @ x # ys)" "NULL \<notin> set (head # xs @ x # ys)"
    by (auto simp: clist_def lseg_append)
  have a: "l_prev h x = ?a" and b: "l_next h x = ?b"
    using lseg_last [OF s(1)] lseg_first [OF s(2)] by simp_all
  have ab: "?a \<in> set (head # xs)" "?b \<in> set (head # ys)" "x \<noteq> ?a" "x \<noteq> ?b"
    using d by (cases xs rule: rev_cases; cases ys; auto)+
  have n: "l_next ?h y = (if y = x then NULL else if y = ?a then ?b else l_next h y)" for y
    using ab by (simp add: list_remove_def Let_def a b del: last.simps)
  have p: "l_prev ?h y = (if y = x then NULL else if y = ?b then ?a else l_prev h y)" for y
    using ab by (simp add: list_remove_def Let_def a b del: last.simps)
  show "l_next ?h x = NULL" "l_prev ?h x = NULL"
    by (simp_all add: n p)
  have "lseg ?h head (xs @ ys) head"
  proof (cases xs rule: rev_cases)
    case Nil
    show ?thesis
    proof (cases ys)
      case (Cons y zs)
      have "lseg ?h y zs head"
        by (rule lseg_frame [of h]) (use s d Nil Cons n p in auto)
      with Nil Cons d show ?thesis by (auto simp: n p)
    qed (use Nil d n p in auto)
  next
    case (snoc us u)
    have l: "lseg ?h head us u"
      by (rule lseg_frame [of h]) (use s d snoc n p in \<open>auto simp: lseg_snoc hd_append split: list.splits\<close>)
    show ?thesis
    proof (cases ys)
      case (Cons y zs)
      have "lseg ?h y zs head"
        by (rule lseg_frame [of h]) (use s d snoc Cons n p in auto)
      with l snoc Cons d show ?thesis by (auto simp: n p lseg_append)
    qed (use l snoc d n p in \<open>auto simp: lseg_append\<close>)
  qed
  with d show "clist ?h head (xs @ ys)" by (auto simp: clist_def)
qed

lemma list_pop_clist:
  assumes "clist h head (x # xs)"
  shows "fst (list_pop head h) = x" and "clist (snd (list_pop head h)) head xs"
  using assms list_remove_clist(1) [of h head "[]" x xs]
  by (auto simp: list_pop_def clist_def)

lemma list_pop_empty: "clist h head [] \<Longrightarrow> list_pop head h = (NULL, h)"
  by (simp add: list_pop_def clist_def)

lemma list_add_after_clist:
  assumes "clist h head (xs @ x # ys)" and "ele \<notin> set (head # xs @ x # ys)" "ele \<noteq> NULL"
  shows "clist (list_add_after x ele h) head (xs @ x # ele # ys)"
proof -
  let ?h = "list_add_after x ele h" and ?b = "hd (ys @ [head])"
  from assms have s: "lseg h head xs x" "lseg h x ys head"
    and d: "distinct (head # xs @ x # ys)" "NULL \<notin> set (head # xs @ x # ys)"
    by (auto simp: clist_def lseg_append)
  have b: "l_next h x = ?b" "?b \<in> set (head # ys)"
    using lseg_first [OF s(2)] by (cases ys; simp)+
  have n: "l_next ?h y = (if y = x then ele else if y = ele then ?b else l_next h y)" for y
    using assms by (auto simp: list_add_after_def Let_def b)
  have p: "l_prev ?h y = (if y = ele then x else if y = ?b then ele else l_prev h y)" for y
    using assms by (auto simp: list_add_after_def Let_def b)
  have l: "lseg ?h head xs x"
    by (rule lseg_frame [of h]) (use s d assms b n p in \<open>auto split: list.splits\<close>)
  have "lseg ?h ele ys head"
  proof (cases ys)
    case (Cons y zs)
    have "lseg ?h y zs head"
      by (rule lseg_frame [of h]) (use s d assms Cons n p in auto)
    with Cons d assms show ?thesis by (auto simp: n p)
  qed (use d assms n p in auto)
  with l d assms show ?thesis by (auto simp: clist_def lseg_append n p)
qed

text \<open>Inserting before a node is inserting after its predecessor.\<close>

lemma list_add_before_after:
  assumes "l_prev h x = a" "l_next h a = x" "ele \<noteq> a" "ele \<noteq> x"
  shows "list_add_before x ele h = list_add_after a ele h"
  using assms by (simp add: list_add_before_def list_add_after_def Let_def set_next_def
      set_prev_def fun_upd_twist [of ele x] fun_upd_twist [of ele a])

lemma list_add_before_clist:
  assumes c: "clist h head (xs @ x # ys)" and e: "ele \<notin> set (head # xs @ x # ys)" "ele \<noteq> NULL"
  shows "clist (list_add_before x ele h) head (xs @ ele # x # ys)"
proof -
  let ?a = "last (head # xs)"
  from c have s: "lseg h head xs x" and d: "distinct (head # xs @ x # ys)"
    by (auto simp: clist_def lseg_append)
  have a: "l_prev h x = ?a" "?a \<in> set (head # xs)"
    using lseg_last [OF s] last_in_set [of "head # xs"] by (simp_all del: last.simps)
  have nx: "l_next h ?a = x"
    using c by (cases xs rule: rev_cases) (auto simp: clist_def lseg_append lseg_snoc)
  have eq: "list_add_before x ele h = list_add_after ?a ele h"
    by (rule list_add_before_after) (use a nx e in \<open>auto simp del: last.simps\<close>)
  show ?thesis
  proof (cases xs rule: rev_cases)
    case Nil
    with c e have "clist (list_add_head head ele h) head (ele # x # ys)"
      by (intro list_add_head_clist) auto
    moreover have "list_add_head head ele h = list_add_after head ele h"
      using c by (simp add: list_add_head_def list_add_after_def clist_def)
    ultimately show ?thesis using Nil eq by simp
  next
    case (snoc us u)
    have "clist (list_add_after u ele h) head (us @ u # ele # (x # ys))"
      using c e snoc by (intro list_add_after_clist) auto
    with snoc eq show ?thesis by simp
  qed
qed

lemma list_find_loop_lseg:
  assumes "lseg h a xs b" and "b \<notin> set xs"
  shows "list_find_loop h b e (l_next h a) = Some (if e \<in> set xs then 1 else 0)"
  using assms
proof (induction xs arbitrary: a)
  case Nil
  then show ?case by (simp add: list_find_loop.simps)
next
  case (Cons x xs)
  then have "list_find_loop h b e (l_next h x) = Some (if e \<in> set xs then 1 else 0)"
    by simp
  with Cons.prems show ?case
    by (subst list_find_loop.simps) auto
qed

text \<open>On a circle the search always ends, and it answers membership.\<close>

lemma list_find_clist:
  "clist h head xs \<Longrightarrow> list_find head e h = Some (if e \<in> set xs then 1 else 0)"
  unfolding list_find_def clist_def by (intro list_find_loop_lseg) auto

lemma list_front_clist: "clist h head (x # xs) \<Longrightarrow> list_front head h = x"
  by (auto simp: list_front_def clist_def)

lemma list_front_empty: "clist h head [] \<Longrightarrow> list_front head h = NULL"
  by (auto simp: list_front_def clist_def)

lemma list_empty_clist: "clist h head xs \<Longrightarrow> list_empty head h = (if xs = [] then 1 else 0)"
  by (simp add: list_empty_def clist_empty_iff)

text \<open>The links of a node that is neither on the circle nor added to it.\<close>

lemma list_pop_frame:
  assumes c: "clist h head (x # xs)" and e: "e \<notin> set (head # x # xs)"
  shows "l_next (snd (list_pop head h)) e = l_next h e" "l_prev (snd (list_pop head h)) e = l_prev h e"
proof -
  have "l_next h x \<in> set (head # xs)" using c by (cases xs) (auto simp: clist_def)
  then have "e \<noteq> l_next h x" "e \<noteq> x" "e \<noteq> head" using e by auto
  with c show "l_next (snd (list_pop head h)) e = l_next h e" "l_prev (snd (list_pop head h)) e = l_prev h e"
    by (auto simp: list_pop_def list_remove_def clist_def Let_def)
qed

lemma list_add_tail_frame:
  assumes c: "clist h head xs" and e: "e \<notin> set (head # xs)" "e \<noteq> ele"
  shows "l_next (list_add_tail head ele h) e = l_next h e" "l_prev (list_add_tail head ele h) e = l_prev h e"
proof -
  have "l_prev h head = last (head # xs)" using c lseg_last by (auto simp: clist_def)
  then have "e \<noteq> l_prev h head" using e(1) by (metis last_in_set list.distinct(1))
  with e show "l_next (list_add_tail head ele h) e = l_next h e" "l_prev (list_add_tail head ele h) e = l_prev h e"
    by (simp_all add: list_add_tail_def Let_def)
qed

lemma list_add_head_frame:
  assumes c: "clist h head xs" and e: "e \<notin> set (head # xs)" "e \<noteq> ele"
  shows "l_next (list_add_head head ele h) e = l_next h e" "l_prev (list_add_head head ele h) e = l_prev h e"
proof -
  have "l_next h head = hd (xs @ [head])" using c by (rule clist_next)
  then have "e \<noteq> l_next h head" using e(1) by (cases xs) auto
  with e show "l_next (list_add_head head ele h) e = l_next h e" "l_prev (list_add_head head ele h) e = l_prev h e"
    by (simp_all add: list_add_head_def Let_def)
qed

lemmas clist_ops = list_pop_clist list_pop_empty list_find_clist list_front_clist
  list_front_empty list_empty_clist

section \<open>The interface of the queues\<close>

text \<open>
  What the scheduler and the semaphores rely on: \<open>holds h q xs\<close> is the abstraction, and the
  operations act on \<open>xs\<close> as their names say.
\<close>

locale deque =
  fixes holds :: "'h \<Rightarrow> addr \<Rightarrow> addr list \<Rightarrow> bool"
    and is_empty :: "addr \<Rightarrow> 'h \<Rightarrow> int"
    and front :: "addr \<Rightarrow> 'h \<Rightarrow> addr"
    and pop :: "addr \<Rightarrow> 'h \<Rightarrow> addr \<times> 'h"
    and add_head :: "addr \<Rightarrow> addr \<Rightarrow> 'h \<Rightarrow> 'h"
    and add_tail :: "addr \<Rightarrow> addr \<Rightarrow> 'h \<Rightarrow> 'h"
    and find :: "addr \<Rightarrow> addr \<Rightarrow> 'h \<Rightarrow> int option"
  assumes nodes: "holds h q xs \<Longrightarrow> distinct (q # xs) \<and> NULL \<notin> set (q # xs)"
    and is_empty: "holds h q xs \<Longrightarrow> is_empty q h = (if xs = [] then 1 else 0)"
    and front: "holds h q (x # xs) \<Longrightarrow> front q h = x"
    and pop_val: "holds h q (x # xs) \<Longrightarrow> fst (pop q h) = x"
    and pop_rest: "holds h q (x # xs) \<Longrightarrow> holds (snd (pop q h)) q xs"
    and add_head: "holds h q xs \<Longrightarrow> e \<notin> set (q # xs) \<Longrightarrow> e \<noteq> NULL \<Longrightarrow> holds (add_head q e h) q (e # xs)"
    and add_tail: "holds h q xs \<Longrightarrow> e \<notin> set (q # xs) \<Longrightarrow> e \<noteq> NULL \<Longrightarrow> holds (add_tail q e h) q (xs @ [e])"
    and find: "holds h q xs \<Longrightarrow> find q e h = Some (if e \<in> set xs then 1 else 0)"
begin

text \<open>One turn of a round robin: the front leaves and a new node queues up behind the rest.\<close>

lemma rotate:
  assumes "holds h q (x # xs)" and "e \<notin> set (q # xs)" "e \<noteq> NULL"
  shows "holds (add_tail q e (snd (pop q h))) q (xs @ [e])"
  using assms pop_rest by (blast intro: add_tail)

text \<open>What is put at the head is what leaves next.\<close>

lemma head_leaves_next:
  assumes "holds h q xs" and "e \<notin> set (q # xs)" "e \<noteq> NULL"
  shows "front q (add_head q e h) = e" and "fst (pop q (add_head q e h)) = e"
    and "holds (snd (pop q (add_head q e h))) q xs"
  using add_head [OF assms] by (simp_all add: front pop_val pop_rest)

text \<open>A node queued at the tail is at the front after exactly the nodes before it have left.\<close>

lemma drain:
  assumes "holds h q (xs @ ys)"
  shows "holds (((\<lambda>g. snd (pop q g)) ^^ length xs) h) q ys"
  using assms
proof (induction xs arbitrary: h)
  case (Cons x xs)
  then have "holds (snd (pop q h)) q (xs @ ys)"
    using pop_rest by simp
  from Cons.IH [OF this] show ?case
    by (simp add: funpow_Suc_right del: funpow.simps)
qed simp

lemma tail_waits_its_turn:
  assumes "holds h q xs" and "e \<notin> set (q # xs)" "e \<noteq> NULL"
  shows "front q (((\<lambda>g. snd (pop q g)) ^^ length xs) (add_tail q e h)) = e"
  using drain [OF add_tail [OF assms]] by (rule front)

end

interpretation kl: deque clist list_empty list_front list_pop list_add_head list_add_tail list_find
  by unfold_locales
    (use clist_nodes in \<open>blast | simp_all add: clist_ops list_add_head_clist list_add_tail_clist\<close>)+

end
