(* ===== verification/Threads.thy ===== *)
theory Threads
  imports Kern_List
begin

text \<open>
  src/thread/thread.c, src/sched/sched.c and src/driver/timer.c. Thread control blocks are records
  found by their address; the list node of a block lies 156 bytes into it. The pointers
  \<open>proc_ready_list\<close>, \<open>proc_block_list\<close> and \<open>proc_hanging_list\<close> are read but never assigned by the
  sources, so they are null and the three list heads are the same 8 bytes of page 0.

  \<open>schedule\<close> prints, and printing takes the console lock, whose semaphore calls \<open>schedule\<close>:
  the printing function is therefore an argument \<open>pr\<close> here, and the console theory ties the knot.
  \<open>switch_to\<close> is the point where an activation ends for the time being (\<open>Switched\<close>);
  \<open>switch_back\<close> is what it does when the thread gets the processor again.
\<close>

section \<open>State\<close>

datatype proc_state =
    PROC_CREATE | PROC_READY | PROC_RUNNING | PROC_BLOCKED | PROC_HANGING | PROC_WAITING | PROC_END

record proc_context =
  c_esp :: uint
  c_ebp :: uint
  c_ebx :: uint
  c_esi :: uint
  c_edi :: uint
  c_eflags :: uint

record proc_struct =
  p_state :: proc_state
  p_pid :: int
  kstack :: addr
  p_need_sched :: int
  p_parent :: addr
  p_mm :: addr
  context_of :: proc_context
  p_cr3 :: uint
  proc_flags :: uint
  proc_name :: "nat \<Rightarrow> uchar"
  ticks :: uchar
  prio :: uchar

record ioqueue =
  producer :: addr
  consumer :: addr
  iobuf :: "int \<Rightarrow> uchar"
  io_head :: int
  io_tail :: int

datatype handler = Timer_callback | Kbd_handler | Page_fault

record kst =
  lists :: list_heap
  procs :: "addr \<Rightarrow> proc_struct"
  current :: addr
  idle :: addr
  now_pid :: int
  proc_ready_list :: addr
  proc_block_list :: addr
  proc_hanging_list :: addr
  stack_words :: "addr \<Rightarrow> uint"
  intr_on :: bool
  tick :: uint
  sem_value :: "addr \<Rightarrow> uchar"
  lock_holder :: "addr \<Rightarrow> addr"
  holder_repeat_times :: "addr \<Rightarrow> uint"
  ports :: "(ushort \<times> uchar) list"
  interrupt_handlers :: "nat \<Rightarrow> handler option"
  text_video_mem :: "int \<Rightarrow> ushort"
  cursor_X :: uchar
  cursor_Y :: uchar
  kbd_buf :: ioqueue
  ctrl_status :: int
  shift_status :: int
  alt_status :: int
  capslock_status :: int
  ext_status :: int

type_synonym printer = "uchar list \<Rightarrow> kst \<Rightarrow> (unit, kst) run"

definition node_offset :: addr where "node_offset = 156"

definition node :: "addr \<Rightarrow> addr" where "node proc = proc + node_offset"

definition entry :: "addr \<Rightarrow> addr" where "entry elem = elem - node_offset"

definition upd_proc :: "addr \<Rightarrow> (proc_struct \<Rightarrow> proc_struct) \<Rightarrow> kst \<Rightarrow> kst" where
  "upd_proc p f s = s\<lparr>procs := (procs s)(p := f (procs s p))\<rparr>"

definition outb :: "ushort \<Rightarrow> uchar \<Rightarrow> kst \<Rightarrow> kst" where
  "outb port data s = s\<lparr>ports := ports s @ [(port, data)]\<rparr>"

text \<open>\<open>cli\<close> and \<open>sti\<close>: the second does not give back what the first found.\<close>

definition local_intr_save :: "kst \<Rightarrow> kst" where
  "local_intr_save s = s\<lparr>intr_on := False\<rparr>"

definition local_intr_restore :: "kst \<Rightarrow> kst" where
  "local_intr_restore s = s\<lparr>intr_on := True\<rparr>"

section \<open>Threads\<close>

text \<open>\<open>memcpy(proc->proc_name, name, strlen(name))\<close> into an array of 100 bytes.\<close>

definition set_proc_name :: "addr \<Rightarrow> uchar list \<Rightarrow> kst \<Rightarrow> (unit, kst) run" where
  "set_proc_name proc name s =
     kbind (kguard (length name \<le> 100) ''proc_name'' s) (\<lambda>_ s.
       kret () (upd_proc proc (\<lambda>p. p\<lparr>proc_name := (\<lambda>i. if i < length name then name ! i else proc_name p i)\<rparr>) s))"

definition zero_proc :: proc_struct where
  "zero_proc = \<lparr>p_state = PROC_CREATE, p_pid = 0, kstack = 0, p_need_sched = 0, p_parent = 0, p_mm = 0,
     context_of = \<lparr>c_esp = 0, c_ebp = 0, c_ebx = 0, c_esi = 0, c_edi = 0, c_eflags = 0\<rparr>,
     p_cr3 = 0, proc_flags = 0, proc_name = (\<lambda>_. 0), ticks = 0, prio = 0\<rparr>"

text \<open>
  \<open>proc\<close> is the block \<open>alloc_proc\<close> got from \<open>kmalloc\<close>, \<open>kthread_ret\<close> the address of the function a
  thread returns into.
\<close>

definition kthread_create ::
    "addr \<Rightarrow> addr \<Rightarrow> addr \<Rightarrow> addr \<Rightarrow> uchar list \<Rightarrow> uchar \<Rightarrow> kst \<Rightarrow> (uint, kst) run" where
  "kthread_create proc kthread_ret fn args name pri s =
     (let s = upd_proc proc (\<lambda>_. zero_proc) s;
          s = s\<lparr>lists := set_prev (node proc) NULL (set_next (node proc) NULL (lists s))\<rparr>
      in kbind (set_proc_name proc name s) (\<lambda>_ s.
        let s = upd_proc proc (\<lambda>p. p\<lparr>p_state := PROC_CREATE, kstack := current s, p_pid := now_pid s, p_mm := NULL\<rparr>) s;
            s = s\<lparr>now_pid := now_pid s + 1\<rparr>;
            stack_top = proc + 4096;
            s = s\<lparr>stack_words := (stack_words s)(stack_top - 4 := args, stack_top - 8 := kthread_ret, stack_top - 12 := fn)\<rparr>;
            s = upd_proc proc (\<lambda>p. p\<lparr>context_of := (context_of p)\<lparr>c_esp := proc + 4096 - 3 * 4, c_eflags := 0x200\<rparr>,
                  p_state := PROC_READY, ticks := pri, prio := pri\<rparr>) s;
            s = s\<lparr>lists := list_add_tail (node (proc_ready_list s)) (node proc) (lists s)\<rparr>
        in kret (word_of_int (p_pid (procs s proc))) s))"

section \<open>Scheduling\<close>

definition switch_thread :: "addr \<Rightarrow> kst \<Rightarrow> (unit, kst) run" where
  "switch_thread nextp s =
     (if current s \<noteq> nextp then
        let s = upd_proc (current s) (\<lambda>p. p\<lparr>p_state := PROC_READY\<rparr>) s;
            s = s\<lparr>current := nextp\<rparr>;
            s = local_intr_save s
        in kstop (Switched s)
      else kret () s)"

definition switch_back :: "kst \<Rightarrow> kst" where
  "switch_back s =
     (let s = local_intr_restore s in upd_proc (current s) (\<lambda>p. p\<lparr>p_state := PROC_RUNNING\<rparr>) s)"

definition thread_idle :: "addr \<Rightarrow> kst \<Rightarrow> (unit, kst) run" where
  "thread_idle stack s =
     (let s = s\<lparr>current := stack + 32768 - 4096\<rparr>;
          s = upd_proc (current s) (\<lambda>p. p\<lparr>p_state := PROC_CREATE, p_pid := now_pid s\<rparr>) s;
          s = s\<lparr>now_pid := now_pid s + 1\<rparr>;
          s = upd_proc (current s) (\<lambda>p. p\<lparr>kstack := current s, p_mm := NULL, p_state := PROC_RUNNING,
                prio := 100, ticks := 100\<rparr>) s
      in kbind (set_proc_name (current s) [0x49, 0x44, 0x4C, 0x45] s) (\<lambda>_ s.
           kret () (s\<lparr>idle := current s\<rparr>)))"

definition init_sched :: "addr \<Rightarrow> kst \<Rightarrow> (unit, kst) run" where
  "init_sched stack s =
     (let s = s\<lparr>lists := list_init (node (proc_ready_list s)) (lists s)\<rparr>;
          s = s\<lparr>lists := list_init (node (proc_block_list s)) (lists s)\<rparr>;
          s = s\<lparr>lists := list_init (node (proc_hanging_list s)) (lists s)\<rparr>
      in thread_idle stack s)"

text \<open>The text of \<open>printk("next proc:%s\n", next->proc_name)\<close>.\<close>

definition name_text :: "(nat \<Rightarrow> uchar) \<Rightarrow> uchar list" where
  "name_text name = takeWhile (\<lambda>c. c \<noteq> 0) (map name [0..<100])"

definition terminated :: "(nat \<Rightarrow> uchar) \<Rightarrow> bool" where
  "terminated name = list_ex (\<lambda>i. name i = 0) [0..<100]"

definition next_proc_text :: "(nat \<Rightarrow> uchar) \<Rightarrow> uchar list" where
  "next_proc_text name = map of_char ''next proc:'' @ name_text name @ [0x0A]"

definition schedule :: "printer \<Rightarrow> kst \<Rightarrow> (unit, kst) run" where
  "schedule pr s =
     (if ticks (procs s (current s)) = 0 then
        if list_empty (node (proc_ready_list s)) (lists s) = 0 then
          let head = list_front (node (proc_ready_list s)) (lists s);
              nextp = entry head;
              s = s\<lparr>lists := snd (list_pop (node (proc_ready_list s)) (lists s))\<rparr>;
              s = upd_proc (current s) (\<lambda>p. p\<lparr>p_state := PROC_READY, ticks := prio p\<rparr>) s;
              s = s\<lparr>lists := list_add_tail (node (proc_ready_list s)) (node (current s)) (lists s)\<rparr>;
              s = upd_proc nextp (\<lambda>p. p\<lparr>p_state := PROC_RUNNING\<rparr>) s
          in kbind (kguard (terminated (proc_name (procs s nextp))) ''proc_name'' s) (\<lambda>_ s.
             kbind (pr (next_proc_text (proc_name (procs s nextp))) s) (\<lambda>_ s. switch_thread nextp s))
        else kret () (upd_proc (current s) (\<lambda>p. p\<lparr>ticks := prio p\<rparr>) s)
      else kret () s)"

definition thread_block :: "printer \<Rightarrow> proc_state \<Rightarrow> kst \<Rightarrow> (unit, kst) run" where
  "thread_block pr state s =
     kbind (kassert (state = PROC_WAITING \<or> state = PROC_HANGING \<or> state = PROC_BLOCKED)
              (line ''next state is not block'') s) (\<lambda>_ s.
       let s = local_intr_save s;
           s = upd_proc (current s) (\<lambda>p. p\<lparr>p_state := state\<rparr>) s
       in kbind (schedule pr s) (\<lambda>_ s. kret () (local_intr_restore s)))"

definition thread_unblock :: "addr \<Rightarrow> kst \<Rightarrow> (unit, kst) run" where
  "thread_unblock proc s =
     (if proc = NULL then kret () s
      else
        let s = local_intr_save s; st = p_state (procs s proc) in
        kbind (kassert (st = PROC_WAITING \<or> st = PROC_HANGING \<or> st = PROC_BLOCKED)
                 (line ''already unblocked'') s) (\<lambda>_ s.
        kbind
          (if p_state (procs s proc) \<noteq> PROC_READY then
             kbind (klift (list_find (node (proc_ready_list s)) (node proc) (lists s)) s) (\<lambda>found s.
               if found \<noteq> 0 then kstop (Panic ''thread unblock:blocked thread already in ready list'')
               else
                 let s = s\<lparr>lists := list_add_head (node (proc_ready_list s)) (node proc) (lists s)\<rparr>
                 in kret () (upd_proc proc (\<lambda>p. p\<lparr>p_state := PROC_READY\<rparr>) s))
           else kret () s)
          (\<lambda>_ s. kret () (local_intr_restore s))))"

section \<open>The timer\<close>

definition timer_callback :: "printer \<Rightarrow> kst \<Rightarrow> (unit, kst) run" where
  "timer_callback pr s =
     (let s = upd_proc (current s) (\<lambda>p. p\<lparr>ticks := ticks p - 1\<rparr>) s
      in kbind (schedule pr s) (\<lambda>_ s. kret () (s\<lparr>tick := tick s + 1\<rparr>)))"

definition register_interrupt_handler :: "uchar \<Rightarrow> handler \<Rightarrow> kst \<Rightarrow> kst" where
  "register_interrupt_handler n h s = s\<lparr>interrupt_handlers := (interrupt_handlers s)(unat n := Some h)\<rparr>"

definition init_timer :: "uint \<Rightarrow> kst \<Rightarrow> (unit, kst) run" where
  "init_timer freq s =
     (let s = register_interrupt_handler 32 Timer_callback s in
      kbind (kguard (freq \<noteq> 0) ''division by zero'' s) (\<lambda>_ s.
        let divisor = 1193180 div freq;
            s = outb 0x43 0x36 s;
            low = ucast (divisor AND 0xFF);
            high = ucast (drop_bit 8 divisor AND 0xFF);
            s = outb 0x40 low s
        in kret () (outb 0x40 high s)))"

text \<open>\<open>sleep\<close> polls \<open>tick\<close>; \<open>now i\<close> is the value its \<open>i\<close>-th read finds.\<close>

partial_function (option) sleep_loop :: "(nat \<Rightarrow> uint) \<Rightarrow> uint \<Rightarrow> nat \<Rightarrow> nat option" where
  [code]: "sleep_loop now endcc i = (if now i < endcc then sleep_loop now endcc (Suc i) else Some i)"

definition sleep :: "uint \<Rightarrow> uint \<Rightarrow> (nat \<Rightarrow> uint) \<Rightarrow> nat option" where
  "sleep tick0 n now = sleep_loop now (tick0 + n) 0"

end
