(* ===== verification/Threads_Correct.thy ===== *)
theory Threads_Correct
  imports Threads
begin

text \<open>
  Round robin. \<open>ready s ps\<close> says that the ready list holds the threads \<open>ps\<close> in this order. A timer
  interrupt either charges the running thread one tick, or, when its quantum is used up, puts it
  behind all ready threads and switches to the first of them.
\<close>

definition ready :: "kst \<Rightarrow> addr list \<Rightarrow> bool" where
  "ready s ps \<longleftrightarrow> clist (lists s) (node (proc_ready_list s)) (map node ps)"

text \<open>A thread that can be queued: a node of its own, apart from the list head.\<close>

definition queueable :: "kst \<Rightarrow> addr \<Rightarrow> bool" where
  "queueable s p \<longleftrightarrow> p \<noteq> NULL \<and> node p \<noteq> NULL \<and> p \<noteq> proc_ready_list s"

definition same_threads :: "kst \<Rightarrow> kst \<Rightarrow> bool" where
  "same_threads s t \<longleftrightarrow> lists t = lists s \<and> procs t = procs s \<and> current t = current s \<and>
     proc_ready_list t = proc_ready_list s \<and> tick t = tick s"

section \<open>Nodes and blocks\<close>

lemma entry_node [simp]: "entry (node p) = p"
  by (simp add: entry_def node_def)

lemma node_entry [simp]: "node (entry e) = e"
  by (simp add: entry_def node_def)

lemma node_inject [simp]: "node p = node q \<longleftrightarrow> p = q"
  by (simp add: node_def)

lemma node_image [simp]: "node p \<in> node ` X \<longleftrightarrow> p \<in> X"
  by (auto simp: image_iff)

lemma upd_proc_reads [simp]:
  "procs (upd_proc p f s) q = (if q = p then f (procs s p) else procs s q)"
  "lists (upd_proc p f s) = lists s" "current (upd_proc p f s) = current s"
  "proc_ready_list (upd_proc p f s) = proc_ready_list s" "tick (upd_proc p f s) = tick s"
  "intr_on (upd_proc p f s) = intr_on s"
  by (simp_all add: upd_proc_def)

lemma intr_reads [simp]:
  "procs (local_intr_save s) = procs s" "lists (local_intr_save s) = lists s"
  "current (local_intr_save s) = current s" "proc_ready_list (local_intr_save s) = proc_ready_list s"
  "procs (local_intr_restore s) = procs s" "lists (local_intr_restore s) = lists s"
  "current (local_intr_restore s) = current s" "proc_ready_list (local_intr_restore s) = proc_ready_list s"
  "tick (local_intr_save s) = tick s" "tick (local_intr_restore s) = tick s"
  "intr_on (local_intr_save s) = False" "intr_on (local_intr_restore s) = True"
  by (simp_all add: local_intr_save_def local_intr_restore_def)

lemma ready_upd_proc [simp]: "ready (upd_proc p f s) ps = ready s ps"
  by (simp add: ready_def)

lemma ready_nodes: "ready s ps \<Longrightarrow> distinct ps \<and> proc_ready_list s \<notin> set ps"
  unfolding ready_def by (drule clist_nodes) (auto simp: distinct_map)

lemma ready_pop:
  assumes "ready s (x # xs)"
  shows "list_empty (node (proc_ready_list s)) (lists s) = 0"
    and "list_front (node (proc_ready_list s)) (lists s) = node x"
    and "ready (s\<lparr>lists := snd (list_pop (node (proc_ready_list s)) (lists s))\<rparr>) xs"
  using assms kl.is_empty kl.front kl.pop_rest by (auto simp: ready_def)

lemma ready_add_tail:
  assumes "ready s xs" "queueable s p" "p \<notin> set xs"
  shows "ready (s\<lparr>lists := list_add_tail (node (proc_ready_list s)) (node p) (lists s)\<rparr>) (xs @ [p])"
  using kl.add_tail [of "lists s" "node (proc_ready_list s)" "map node xs" "node p"] assms
  by (auto simp: ready_def queueable_def)

lemma ready_add_head:
  assumes "ready s xs" "queueable s p" "p \<notin> set xs"
  shows "ready (s\<lparr>lists := list_add_head (node (proc_ready_list s)) (node p) (lists s)\<rparr>) (p # xs)"
  using kl.add_head [of "lists s" "node (proc_ready_list s)" "map node xs" "node p"] assms
  by (auto simp: ready_def queueable_def)

text \<open>Waking a blocked thread puts it in front of the ready threads.\<close>

lemma thread_unblock_wakes:
  assumes "ready s ps" "queueable s p" "p \<notin> set ps"
    "p_state (procs s p) \<in> {PROC_WAITING, PROC_HANGING, PROC_BLOCKED}"
  shows "thread_unblock p s = kret () (local_intr_restore (upd_proc p (\<lambda>q. q\<lparr>p_state := PROC_READY\<rparr>)
      (local_intr_save s\<lparr>lists := list_add_head (node (proc_ready_list s)) (node p) (lists s)\<rparr>)))"
proof -
  have "list_find (node (proc_ready_list s)) (node p) (lists s) = Some 0"
    using kl.find [of "lists s" "node (proc_ready_list s)" "map node ps" "node p"] assms(1,3)
    by (simp add: ready_def)
  moreover have "p_state (procs s p) \<noteq> PROC_READY" using assms(4) by auto
  moreover have "p_state (procs s p) = PROC_WAITING \<or> p_state (procs s p) = PROC_HANGING \<or>
      p_state (procs s p) = PROC_BLOCKED" using assms(4) by auto
  ultimately show ?thesis using assms(2) by (simp add: thread_unblock_def Let_def queueable_def)
qed

lemma thread_unblock_panics:
  "p \<noteq> NULL \<Longrightarrow> p_state (procs s p) \<notin> {PROC_WAITING, PROC_HANGING, PROC_BLOCKED} \<Longrightarrow>
     thread_unblock p s = kstop (Panic (line ''already unblocked''))"
  by (simp add: thread_unblock_def Let_def)

section \<open>One decision of the scheduler\<close>

text \<open>The state in which \<open>schedule\<close> prints the name of the thread \<open>x\<close> it has chosen.\<close>

definition requeued :: "addr \<Rightarrow> kst \<Rightarrow> kst" where
  "requeued x s =
     (let s = s\<lparr>lists := snd (list_pop (node (proc_ready_list s)) (lists s))\<rparr>;
          s = upd_proc (current s) (\<lambda>p. p\<lparr>p_state := PROC_READY, ticks := prio p\<rparr>) s;
          s = s\<lparr>lists := list_add_tail (node (proc_ready_list s)) (node (current s)) (lists s)\<rparr>
      in upd_proc x (\<lambda>p. p\<lparr>p_state := PROC_RUNNING\<rparr>) s)"

lemma requeued_reads [simp]:
  "current (requeued x s) = current s" "proc_ready_list (requeued x s) = proc_ready_list s"
  "tick (requeued x s) = tick s"
  "x \<noteq> current s \<Longrightarrow> procs (requeued x s) =
    (procs s)(current s := (procs s (current s))\<lparr>p_state := PROC_READY, ticks := prio (procs s (current s))\<rparr>,
      x := (procs s x)\<lparr>p_state := PROC_RUNNING\<rparr>)"
  by (simp_all add: requeued_def Let_def fun_eq_iff)

lemma requeued_ready:
  assumes "ready s (x # xs)" "queueable s (current s)" "current s \<notin> set (x # xs)"
  shows "ready (requeued x s) (xs @ [current s])"
proof -
  let ?a = "upd_proc (current s) (\<lambda>p. p\<lparr>p_state := PROC_READY, ticks := prio p\<rparr>)
    (s\<lparr>lists := snd (list_pop (node (proc_ready_list s)) (lists s))\<rparr>)"
  have "ready ?a xs" using ready_pop(3) [OF assms(1)] by simp
  moreover have "queueable ?a (current s)" using assms(2) by (simp add: queueable_def)
  ultimately have "ready (?a\<lparr>lists := list_add_tail (node (proc_ready_list ?a)) (node (current s)) (lists ?a)\<rparr>)
      (xs @ [current s])"
    using assms(3) by (intro ready_add_tail) auto
  then show ?thesis by (simp add: requeued_def Let_def)
qed

lemma schedule_run:
  assumes "ready s (x # xs)" "ticks (procs s (current s)) = 0" "current s \<noteq> x"
    "terminated (proc_name (procs s x))"
  shows "schedule pr s = kbind (pr (next_proc_text (proc_name (procs s x))) (requeued x s)) (\<lambda>_ s. switch_thread x s)"
proof -
  have n: "proc_name (procs (requeued x s) x) = proc_name (procs s x)" using assms(3) by simp
  have "schedule pr s =
      kbind (kguard (terminated (proc_name (procs (requeued x s) x))) ''proc_name'' (requeued x s)) (\<lambda>_ s'.
      kbind (pr (next_proc_text (proc_name (procs s' x))) s') (\<lambda>_ s. switch_thread x s))"
    unfolding schedule_def requeued_def Let_def
    by (simp only: assms(2) ready_pop(1,2) [OF assms(1)] entry_node if_True simp_thms)
  then show ?thesis using assms(4) n by simp
qed

lemma schedule_keeps: "ticks (procs s (current s)) \<noteq> 0 \<Longrightarrow> schedule pr s = kret () s"
  by (simp add: schedule_def)

lemma schedule_alone:
  "ready s [] \<Longrightarrow> ticks (procs s (current s)) = 0 \<Longrightarrow>
     schedule pr s = kret () (upd_proc (current s) (\<lambda>p. p\<lparr>ticks := prio p\<rparr>) s)"
  using kl.is_empty [of "lists s" "node (proc_ready_list s)" "[]"] by (simp add: schedule_def ready_def)

text \<open>What printing promises: it returns and leaves the threads alone, in every quiet state.\<close>

locale quiet_printer =
  fixes pr :: printer and quiet :: "kst \<Rightarrow> bool"
  assumes prints: "quiet s \<Longrightarrow> current s \<noteq> NULL \<Longrightarrow> \<exists>t. pr txt s = kret () t \<and> same_threads s t \<and> quiet t"
begin

lemma schedule_switches:
  assumes "ready s (x # xs)" "ticks (procs s (current s)) = 0" "queueable s (current s)"
    "current s \<notin> set (x # xs)" "terminated (proc_name (procs s x))" "quiet (requeued x s)"
  obtains t u where "schedule pr s = kstop (Switched t)" "current t = x" "ready t (xs @ [current s])"
    "tick t = tick s" "\<not> intr_on t" "procs t = procs (requeued x s)" "proc_ready_list t = proc_ready_list s"
    "lists t = lists (requeued x s)" "quiet u"
    "t = local_intr_save (upd_proc (current s) (\<lambda>p. p\<lparr>p_state := PROC_READY\<rparr>) u\<lparr>current := x\<rparr>)"
proof -
  obtain u where u: "pr (next_proc_text (proc_name (procs s x))) (requeued x s) = kret () u"
      "same_threads (requeued x s) u" "quiet u"
    using prints [OF assms(6)] assms(3) by (auto simp: queueable_def)
  have c: "current u = current s" "x \<noteq> current s" using u(2) assms(4) by (auto simp: same_threads_def)
  let ?t = "local_intr_save (upd_proc (current s) (\<lambda>p. p\<lparr>p_state := PROC_READY\<rparr>) u\<lparr>current := x\<rparr>)"
  have "schedule pr s = kstop (Switched ?t)"
    using schedule_run [OF assms(1,2)] assms(5) c u(1) by (simp add: switch_thread_def Let_def)
  moreover have "procs ?t = procs (requeued x s)"
    using u(2) c by (auto simp: same_threads_def fun_eq_iff)
  moreover have "ready ?t (xs @ [current s])"
    using requeued_ready [OF assms(1,3,4)] u(2) by (simp add: ready_def same_threads_def)
  ultimately show ?thesis using u c by (intro that [of ?t u]) (auto simp: same_threads_def)
qed

end

section \<open>Round robin\<close>

text \<open>
  One timer interrupt as the machine sees it: when the handler switches away, the thread that was
  chosen goes on behind the \<open>switch_to\<close> it had stopped in, in its own activation of the handler.
\<close>

definition cpu_tick :: "printer \<Rightarrow> kst \<Rightarrow> kst option" where
  "cpu_tick pr s =
     (case timer_callback pr s of
        Some (Inr (_, t)) \<Rightarrow> Some t
      | Some (Inl (Switched t)) \<Rightarrow> Some (let t = switch_back t in t\<lparr>tick := tick t + 1\<rparr>)
      | _ \<Rightarrow> None)"

fun cpu_ticks :: "printer \<Rightarrow> nat \<Rightarrow> kst \<Rightarrow> kst option" where
  "cpu_ticks pr 0 s = Some s"
| "cpu_ticks pr (Suc n) s = Option.bind (cpu_tick pr s) (cpu_ticks pr n)"

lemma cpu_ticks_add: "cpu_ticks pr (m + n) s = Option.bind (cpu_ticks pr m s) (cpu_ticks pr n)"
  by (induction m arbitrary: s) (auto split: bind_split)

text \<open>The ticks a thread has left: the 8-bit counter goes down before it is tested.\<close>

definition quantum :: "uchar \<Rightarrow> nat" where
  "quantum n = (if n = 0 then 256 else unat n)"

definition same_locks :: "kst \<Rightarrow> kst \<Rightarrow> bool" where
  "same_locks s t \<longleftrightarrow> sem_value t = sem_value s \<and> lock_holder t = lock_holder s \<and>
     holder_repeat_times t = holder_repeat_times s"

lemma same_locks_upd [simp]:
  "same_locks s (upd_proc p f t) = same_locks s t" "same_locks s (t\<lparr>lists := h\<rparr>) = same_locks s t"
  "same_locks s (t\<lparr>tick := n\<rparr>) = same_locks s t" "same_locks s (t\<lparr>current := c\<rparr>) = same_locks s t"
  "same_locks s (local_intr_save t) = same_locks s t" "same_locks s (local_intr_restore t) = same_locks s t"
  "same_locks s s"
  by (simp_all add: same_locks_def upd_proc_def local_intr_save_def local_intr_restore_def)

text \<open>The devices: the screen and its cursor, the keyboard and the handlers of the interrupts.\<close>

definition same_devices :: "kst \<Rightarrow> kst \<Rightarrow> bool" where
  "same_devices s t \<longleftrightarrow> text_video_mem t = text_video_mem s \<and> cursor_X t = cursor_X s \<and> cursor_Y t = cursor_Y s \<and>
     kbd_buf t = kbd_buf s \<and> interrupt_handlers t = interrupt_handlers s"

lemma same_devices_upd [simp]:
  "same_devices s (upd_proc p f t) = same_devices s t" "same_devices s (t\<lparr>lists := h\<rparr>) = same_devices s t"
  "same_devices s (t\<lparr>tick := n\<rparr>) = same_devices s t" "same_devices s (t\<lparr>current := c\<rparr>) = same_devices s t"
  "same_devices s (local_intr_save t) = same_devices s t" "same_devices s (local_intr_restore t) = same_devices s t"
  "same_devices s s"
  by (simp_all add: same_devices_def upd_proc_def local_intr_save_def local_intr_restore_def)

locale round_robin = quiet_printer +
  fixes w :: addr
  assumes stable: "quiet s \<Longrightarrow> same_locks s t \<Longrightarrow> same_devices s t \<Longrightarrow> l_next (lists t) w = l_next (lists s) w \<Longrightarrow> quiet t"
begin

definition rr :: "kst \<Rightarrow> addr list \<Rightarrow> bool" where
  "rr s ps \<longleftrightarrow> ready s ps \<and> distinct (current s # ps) \<and> quiet s \<and> node (proc_ready_list s) \<noteq> w \<and>
     (\<forall>p\<in>set (current s # ps). queueable s p \<and> terminated (proc_name (procs s p)) \<and> node p \<noteq> w) \<and>
     (\<forall>p\<in>set ps. ticks (procs s p) = prio (procs s p))"

lemma requeued_quiet:
  assumes r: "rr s (x # xs)"
  shows "quiet (requeued x s)"
proof -
  let ?h = "node (proc_ready_list s)" and ?q = "snd (list_pop (node (proc_ready_list s)) (lists s))"
  have c: "clist (lists s) ?h (node x # map node xs)" and c': "clist ?q ?h (map node xs)"
    using r kl.pop_rest by (auto simp: rr_def ready_def)
  have w: "w \<notin> set (?h # node x # map node xs)" "w \<noteq> node (current s)" using r by (auto simp: rr_def)
  have "l_next (list_add_tail ?h (node (current s)) ?q) w = l_next ?q w"
    using w by (intro list_add_tail_frame(1) [OF c']) auto
  also have "\<dots> = l_next (lists s) w" using w by (intro list_pop_frame(1) [OF c])
  finally have "l_next (lists (requeued x s)) w = l_next (lists s) w" by (simp add: requeued_def Let_def)
  moreover have "same_locks s (requeued x s)" "same_devices s (requeued x s)" by (simp_all add: requeued_def Let_def)
  moreover have "quiet s" using r by (simp add: rr_def)
  ultimately show ?thesis using stable by blast
qed

text \<open>A tick that is not the last of the quantum is charged to the running thread.\<close>

lemma tick_charges:
  assumes r: "rr s ps" and t: "ticks (procs s (current s)) \<noteq> 1"
  obtains t where "cpu_tick pr s = Some t" "rr t ps" "current t = current s"
    "procs t = (procs s)(current s := (procs s (current s))\<lparr>ticks := ticks (procs s (current s)) - 1\<rparr>)"
proof -
  let ?u = "upd_proc (current s) (\<lambda>p. p\<lparr>ticks := ticks p - 1\<rparr>) s"
  let ?t = "?u\<lparr>tick := tick ?u + 1\<rparr>"
  have "schedule pr ?u = kret () ?u" using t by (intro schedule_keeps) simp
  then have "cpu_tick pr s = Some ?t"
    by (simp add: cpu_tick_def timer_callback_def Let_def) (simp add: kret_def)
  moreover have "quiet s" using r by (simp add: rr_def)
  then have "quiet ?t" by (rule stable) simp_all
  then have "rr ?t ps" using r by (simp add: rr_def ready_def queueable_def)
  ultimately show ?thesis by (intro that [of ?t]) (simp_all add: fun_eq_iff)
qed

text \<open>A thread that is alone gets its quantum again.\<close>

lemma tick_alone:
  assumes r: "rr s []" and q: "ticks (procs s (current s)) = 1"
  obtains t where "cpu_tick pr s = Some t" "rr t []" "current t = current s" "ticks (procs t (current s)) = prio (procs s (current s))"
proof -
  let ?u = "upd_proc (current s) (\<lambda>p. p\<lparr>ticks := ticks p - 1\<rparr>) s"
  let ?v = "upd_proc (current ?u) (\<lambda>p. p\<lparr>ticks := prio p\<rparr>) ?u"
  let ?t = "?v\<lparr>tick := tick ?v + 1\<rparr>"
  have "ready ?u []" "ticks (procs ?u (current ?u)) = 0" using r q by (simp_all add: rr_def)
  then have "schedule pr ?u = kret () ?v" by (rule schedule_alone)
  then have "cpu_tick pr s = Some ?t"
    by (simp add: cpu_tick_def timer_callback_def Let_def) (simp add: kret_def)
  moreover have "quiet s" using r by (simp add: rr_def)
  then have "quiet ?t" by (rule stable) simp_all
  then have "rr ?t []" using r by (simp add: rr_def ready_def queueable_def)
  ultimately show ?thesis by (intro that [of ?t]) simp_all
qed

text \<open>The last tick of the quantum hands the processor to the thread that waited longest.\<close>

lemma tick_switches:
  assumes r: "rr s (x # xs)" and q: "ticks (procs s (current s)) = 1"
  obtains t where "cpu_tick pr s = Some t" "rr t (xs @ [current s])" "current t = x"
    "ticks (procs t x) = prio (procs s x)" "\<And>p. prio (procs t p) = prio (procs s p)"
proof -
  let ?u = "upd_proc (current s) (\<lambda>p. p\<lparr>ticks := ticks p - 1\<rparr>) s"
  have "quiet s" using r by (simp add: rr_def)
  then have "quiet ?u" by (rule stable) simp_all
  then have ru: "rr ?u (x # xs)" using r by (simp add: rr_def queueable_def) blast
  have u: "ready ?u (x # xs)" "ticks (procs ?u (current ?u)) = 0" "queueable ?u (current ?u)"
      "current ?u \<notin> set (x # xs)" "terminated (proc_name (procs ?u x))"
    using ru q by (simp_all add: rr_def)
  obtain t v where t: "schedule pr ?u = kstop (Switched t)" "current t = x" "ready t (xs @ [current ?u])"
      "tick t = tick ?u" "procs t = procs (requeued x ?u)" "proc_ready_list t = proc_ready_list ?u"
      "lists t = lists (requeued x ?u)" "quiet v"
      "t = local_intr_save (upd_proc (current ?u) (\<lambda>p. p\<lparr>p_state := PROC_READY\<rparr>) v\<lparr>current := x\<rparr>)"
    by (rule schedule_switches [OF u requeued_quiet [OF ru]])
  define t' where "t' = (switch_back t)\<lparr>tick := tick (switch_back t) + 1\<rparr>"
  have run: "cpu_tick pr s = Some t'"
    using t(1) by (simp add: cpu_tick_def timer_callback_def Let_def t'_def) (simp add: kstop_def Let_def)
  have "quiet t'" using t(8)
    by (rule stable) (simp_all add: t'_def t(9) switch_back_def Let_def)
  have x: "x \<noteq> current s" using u(4) by auto
  have t': "current t' = x" "lists t' = lists t" "proc_ready_list t' = proc_ready_list s"
      "procs t' = (procs t)(x := (procs t x)\<lparr>p_state := PROC_RUNNING\<rparr>)"
    using t(2,6) by (simp_all add: t'_def switch_back_def Let_def fun_eq_iff)
  have p: "procs t' p = (if p = x then (procs s x)\<lparr>p_state := PROC_RUNNING\<rparr>
      else if p = current s then (procs s p)\<lparr>p_state := PROC_READY, ticks := prio (procs s p)\<rparr>
      else procs s p)" for p
    using x by (simp add: t'(4) t(5))
  have "ready t' (xs @ [current s])" using t(3,6) t'(2,3) by (simp add: ready_def)
  with r \<open>quiet t'\<close> have "rr t' (xs @ [current s])"
    unfolding rr_def t'(1,3) by (auto simp: p queueable_def t'(3))
  moreover have "ticks (procs t' x) = prio (procs s x)" "prio (procs t' p) = prio (procs s p)" for p
    using r by (simp_all add: p rr_def)
  ultimately show ?thesis using run t'(1) by (intro that [of t'])
qed

lemma ticks_charge:
  assumes "rr s ps" and "n < quantum (ticks (procs s (current s)))"
  shows "\<exists>t. cpu_ticks pr n s = Some t \<and> rr t ps \<and> current t = current s \<and>
    procs t = (procs s)(current s := (procs s (current s))\<lparr>ticks := ticks (procs s (current s)) - of_nat n\<rparr>)"
  using assms
proof (induction n arbitrary: s)
  case (Suc n)
  let ?c = "ticks (procs s (current s))"
  have ne: "?c \<noteq> 1" using Suc.prems(2) by (auto simp: quantum_def split: if_splits)
  obtain t where t: "cpu_tick pr s = Some t" "rr t ps" "current t = current s"
      "procs t = (procs s)(current s := (procs s (current s))\<lparr>ticks := ?c - 1\<rparr>)"
    by (rule tick_charges [OF Suc.prems(1) ne])
  have "quantum (?c - 1) = quantum ?c - 1"
  proof (cases "?c = 0")
    case True
    have "unat (- 1 :: uchar) = 255" by (simp add: unsigned_minus_1_eq_mask mask_eq_exp_minus_1)
    with True show ?thesis by (simp add: quantum_def)
  next
    case False
    then have "unat (?c - 1) = unat ?c - 1" by (simp add: unat_minus_one)
    moreover have "?c - 1 \<noteq> 0" using ne by simp
    ultimately show ?thesis using False by (simp add: quantum_def)
  qed
  then have "n < quantum (ticks (procs t (current t)))" using Suc.prems(2) t(3,4) by simp
  from Suc.IH [OF t(2) this] t show ?case by (auto simp: algebra_simps fun_eq_iff)
qed simp

text \<open>One full turn of the running thread.\<close>

lemma turn:
  assumes r: "rr s (x # xs)"
  shows "\<exists>t. cpu_ticks pr (quantum (ticks (procs s (current s)))) s = Some t \<and> rr t (xs @ [current s]) \<and>
    current t = x \<and> ticks (procs t x) = prio (procs s x) \<and> (\<forall>p. prio (procs t p) = prio (procs s p))"
proof -
  let ?c = "ticks (procs s (current s))"
  define n where "n = quantum ?c - 1"
  have n: "quantum ?c = n + 1" "n < quantum ?c" using unat_gt_0 [of ?c] by (auto simp: n_def quantum_def)
  obtain u where u: "cpu_ticks pr n s = Some u" "rr u (x # xs)" "current u = current s"
      "procs u = (procs s)(current s := (procs s (current s))\<lparr>ticks := ?c - of_nat n\<rparr>)"
    using ticks_charge [OF r n(2)] by blast
  have "(of_nat (quantum ?c) :: uchar) = ?c"
    by (simp add: quantum_def)
  then have "?c - of_nat n = 1" using n(1) by (simp add: algebra_simps)
  then have "ticks (procs u (current u)) = 1" using u(3,4) by simp
  from tick_switches [OF u(2) this] obtain t where
    t: "cpu_tick pr u = Some t" "rr t (xs @ [current u])" "current t = x"
      "ticks (procs t x) = prio (procs u x)" "\<And>p. prio (procs t p) = prio (procs u p)" by blast
  have "cpu_ticks pr (quantum ?c) s = Some t" unfolding n(1) cpu_ticks_add by (simp add: u(1) t(1))
  moreover have "prio (procs u p) = prio (procs s p)" for p using u(4) by simp
  ultimately show ?thesis using t u(3) by auto
qed

text \<open>The \<open>k\<close>-th waiting thread runs after the quanta of the threads before it.\<close>

lemma gets_its_turn:
  assumes "rr s ps" and "k < length ps"
  shows "\<exists>t. cpu_ticks pr (quantum (ticks (procs s (current s))) + (\<Sum>p\<leftarrow>take k ps. quantum (prio (procs s p)))) s = Some t \<and>
    current t = ps ! k \<and> rr t (drop (Suc k) ps @ current s # take k ps) \<and>
    ticks (procs t (ps ! k)) = prio (procs s (ps ! k)) \<and> (\<forall>p. prio (procs t p) = prio (procs s p))"
  using assms
proof (induction k)
  case 0
  then obtain x xs where "ps = x # xs" by (cases ps) auto
  with 0 turn [of s x xs] show ?case by auto
next
  case (Suc k)
  let ?n = "quantum (ticks (procs s (current s))) + (\<Sum>p\<leftarrow>take k ps. quantum (prio (procs s p)))"
  have k: "drop (Suc k) ps = ps ! Suc k # drop (Suc (Suc k)) ps" "take (Suc k) ps = take k ps @ [ps ! k]"
    using Suc.prems(2) by (simp_all add: Cons_nth_drop_Suc take_Suc_conv_app_nth)
  from Suc obtain u where u: "cpu_ticks pr ?n s = Some u" "current u = ps ! k"
      "rr u (ps ! Suc k # drop (Suc (Suc k)) ps @ current s # take k ps)"
      "ticks (procs u (ps ! k)) = prio (procs s (ps ! k))" "\<And>p. prio (procs u p) = prio (procs s p)"
    unfolding k(1) by auto
  from turn [OF u(3)] obtain t where t: "cpu_ticks pr (quantum (prio (procs s (ps ! k)))) u = Some t"
      "rr t ((drop (Suc (Suc k)) ps @ current s # take k ps) @ [ps ! k])" "current t = ps ! Suc k"
      "ticks (procs t (ps ! Suc k)) = prio (procs s (ps ! Suc k))" "\<And>p. prio (procs t p) = prio (procs s p)"
    unfolding u(2,4,5) by auto
  have "cpu_ticks pr (?n + quantum (prio (procs s (ps ! k)))) s = Some t"
    unfolding cpu_ticks_add [of pr ?n] by (simp only: u(1) Option.bind.simps t(1))
  then show ?case using t(2-5) by (simp add: k(2) add.assoc)
qed

end

end
