(* ===== verification/Sync.thy ===== *)
theory Sync
  imports Threads_Correct
begin

text \<open>
  src/sync/sync.c: binary semaphores and reentrant locks. A semaphore is known by its address;
  its waiters list lies 4 bytes into it, and the semaphore of a lock 4 bytes into the lock.
\<close>

section \<open>Semaphores and locks\<close>

definition waiters :: "addr \<Rightarrow> addr" where "waiters psema = psema + 4"

definition lock_sem :: "addr \<Rightarrow> addr" where "lock_sem lck = lck + 4"

definition set_sem :: "addr \<Rightarrow> uchar \<Rightarrow> kst \<Rightarrow> kst" where
  "set_sem psema v s = s\<lparr>sem_value := (sem_value s)(psema := v)\<rparr>"

definition set_holder :: "addr \<Rightarrow> addr \<Rightarrow> kst \<Rightarrow> kst" where
  "set_holder lck p s = s\<lparr>lock_holder := (lock_holder s)(lck := p)\<rparr>"

definition set_repeat :: "addr \<Rightarrow> uint \<Rightarrow> kst \<Rightarrow> kst" where
  "set_repeat lck n s = s\<lparr>holder_repeat_times := (holder_repeat_times s)(lck := n)\<rparr>"

definition sema_init :: "addr \<Rightarrow> uchar \<Rightarrow> kst \<Rightarrow> kst" where
  "sema_init sema value s =
     (let s = set_sem sema value s in s\<lparr>lists := list_init (waiters sema) (lists s)\<rparr>)"

definition sema_up :: "addr \<Rightarrow> kst \<Rightarrow> (unit, kst) run" where
  "sema_up psema s =
     (let s = local_intr_save s in
      kbind (kassert (sem_value s psema = 0) ''before V sema val must be 0'' s) (\<lambda>_ s.
      kbind
        (if list_empty (waiters psema) (lists s) = 0 then
           let nd = list_front (waiters psema) (lists s) in
           if nd \<noteq> NULL then
             let s = s\<lparr>lists := snd (list_pop (waiters psema) (lists s))\<rparr>
             in thread_unblock (entry nd) s
           else kret () s
         else kret () s)
        (\<lambda>_ s.
          let s = set_sem psema (sem_value s psema + 1) s in
          kbind (kassert (sem_value s psema = 1) ''after V sema must be 1'' s) (\<lambda>_ s.
            kret () (local_intr_restore s)))))"

partial_function (option) sema_wait :: "printer \<Rightarrow> addr \<Rightarrow> kst \<Rightarrow> (unit, kst) run" where
  [code]: "sema_wait pr psema s =
     (if sem_value s psema = 0 then
        kbind (klift (list_find (waiters psema) (node (current s)) (lists s)) s) (\<lambda>found s.
        kbind (kassert (found = 0) ''running thread must not be waiting'' s) (\<lambda>_ s.
          let s = s\<lparr>lists := list_add_tail (waiters psema) (node (current s)) (lists s)\<rparr> in
          kbind (thread_block pr PROC_BLOCKED s) (\<lambda>_ s. sema_wait pr psema s)))
      else kret () s)"

definition sema_down :: "printer \<Rightarrow> addr \<Rightarrow> kst \<Rightarrow> (unit, kst) run" where
  "sema_down pr psema s =
     (let s = local_intr_save s in
      kbind (sema_wait pr psema s) (\<lambda>_ s.
        let s = set_sem psema (sem_value s psema - 1) s in
        kbind (kassert (sem_value s psema = 0) ''sem value can't be less than 0'' s) (\<lambda>_ s.
          kret () (local_intr_restore s))))"

definition lock_init :: "addr \<Rightarrow> kst \<Rightarrow> kst" where
  "lock_init lck s = sema_init (lock_sem lck) 1 (set_repeat lck 0 (set_holder lck NULL s))"

definition req_lock :: "printer \<Rightarrow> addr \<Rightarrow> kst \<Rightarrow> (unit, kst) run" where
  "req_lock pr lck s =
     (if lock_holder s lck \<noteq> current s then
        kbind (sema_down pr (lock_sem lck) s) (\<lambda>_ s.
          let s = set_holder lck (current s) s in
          kbind (kassert (holder_repeat_times s lck = 0) ''another thread is requiring'' s) (\<lambda>_ s.
            kret () (set_repeat lck 1 s)))
      else kret () (set_repeat lck (holder_repeat_times s lck + 1) s))"

definition lock_release :: "addr \<Rightarrow> kst \<Rightarrow> (unit, kst) run" where
  "lock_release lck s =
     kbind (kassert (lock_holder s lck = current s) (line ''lock hold by other thread'') s) (\<lambda>_ s.
       if holder_repeat_times s lck > 1 then
         kret () (set_repeat lck (holder_repeat_times s lck - 1) s)
       else
         kbind (kassert (holder_repeat_times s lck = 1) ''not the last time to release'' s) (\<lambda>_ s.
           let s = set_holder lck NULL s; s = set_repeat lck 0 s
           in sema_up (lock_sem lck) s))"

section \<open>What the operations touch\<close>

lemma sync_reads [simp]:
  "sem_value (set_sem p v s) q = (if q = p then v else sem_value s q)"
  "lock_holder (set_sem p v s) = lock_holder s" "holder_repeat_times (set_sem p v s) = holder_repeat_times s"
  "lock_holder (set_holder l h s) m = (if m = l then h else lock_holder s m)"
  "sem_value (set_holder l h s) = sem_value s" "holder_repeat_times (set_holder l h s) = holder_repeat_times s"
  "holder_repeat_times (set_repeat l n s) m = (if m = l then n else holder_repeat_times s m)"
  "sem_value (set_repeat l n s) = sem_value s" "lock_holder (set_repeat l n s) = lock_holder s"
  by (simp_all add: set_sem_def set_holder_def set_repeat_def)

lemma sync_threads [simp]:
  "lists (set_sem p v s) = lists s" "lists (set_holder l h s) = lists s" "lists (set_repeat l n s) = lists s"
  "procs (set_sem p v s) = procs s" "procs (set_holder l h s) = procs s" "procs (set_repeat l n s) = procs s"
  "current (set_sem p v s) = current s" "current (set_holder l h s) = current s" "current (set_repeat l n s) = current s"
  "proc_ready_list (set_sem p v s) = proc_ready_list s" "proc_ready_list (set_holder l h s) = proc_ready_list s"
  "proc_ready_list (set_repeat l n s) = proc_ready_list s"
  by (simp_all add: set_sem_def set_holder_def set_repeat_def)

lemma same_threads_upd [simp]:
  "same_threads s (set_sem p v t) = same_threads s t" "same_threads s (set_holder l h t) = same_threads s t"
  "same_threads s (set_repeat l n t) = same_threads s t" "same_threads s s"
  "same_threads s (local_intr_save t) = same_threads s t" "same_threads s (local_intr_restore t) = same_threads s t"
  by (simp_all add: same_threads_def set_sem_def set_holder_def set_repeat_def local_intr_save_def local_intr_restore_def)

lemma locks_kept [simp]:
  "sem_value (local_intr_save s) = sem_value s" "sem_value (local_intr_restore s) = sem_value s"
  "lock_holder (local_intr_save s) = lock_holder s" "lock_holder (local_intr_restore s) = lock_holder s"
  "holder_repeat_times (local_intr_save s) = holder_repeat_times s"
  "holder_repeat_times (local_intr_restore s) = holder_repeat_times s"
  "sem_value (upd_proc p f s) = sem_value s" "lock_holder (upd_proc p f s) = lock_holder s"
  "holder_repeat_times (upd_proc p f s) = holder_repeat_times s"
  by (simp_all add: local_intr_save_def local_intr_restore_def upd_proc_def)

section \<open>Uncontended locks\<close>

definition unlocked :: "addr \<Rightarrow> kst \<Rightarrow> bool" where
  "unlocked l s \<longleftrightarrow> lock_holder s l = NULL \<and> sem_value s (lock_sem l) = 1 \<and> holder_repeat_times s l = 0 \<and>
     l_next (lists s) (waiters (lock_sem l)) = waiters (lock_sem l)"

definition locked_by :: "addr \<Rightarrow> addr \<Rightarrow> uint \<Rightarrow> kst \<Rightarrow> bool" where
  "locked_by l p n s \<longleftrightarrow> lock_holder s l = p \<and> sem_value s (lock_sem l) = 0 \<and> holder_repeat_times s l = n \<and>
     l_next (lists s) (waiters (lock_sem l)) = waiters (lock_sem l) \<and> p \<noteq> NULL"

lemma sema_down_available:
  "sem_value s p = 1 \<Longrightarrow> sema_down pr p s = kret () (local_intr_restore (set_sem p 0 (local_intr_save s)))"
  by (simp add: sema_down_def sema_wait.simps Let_def)

lemma req_lock_unlocked:
  assumes "unlocked l s" "current s \<noteq> NULL"
  shows "\<exists>t. req_lock pr l s = kret () t \<and> locked_by l (current s) 1 t \<and> same_threads s t"
  using assms by (simp add: req_lock_def sema_down_available unlocked_def locked_by_def Let_def)

lemma req_lock_again:
  assumes "locked_by l (current s) n s"
  shows "\<exists>t. req_lock pr l s = kret () t \<and> locked_by l (current s) (n + 1) t \<and> same_threads s t"
  using assms by (simp add: req_lock_def locked_by_def)

lemma release_nested:
  assumes "locked_by l (current s) n s" "1 < n"
  shows "\<exists>t. lock_release l s = kret () t \<and> locked_by l (current s) (n - 1) t \<and> same_threads s t"
  using assms by (simp add: lock_release_def locked_by_def)

lemma release_last:
  assumes "locked_by l (current s) 1 s"
  shows "\<exists>t. lock_release l s = kret () t \<and> unlocked l t \<and> same_threads s t"
  using assms by (simp add: lock_release_def locked_by_def unlocked_def sema_up_def list_empty_def Let_def)

lemma release_foreign:
  "lock_holder s l \<noteq> current s \<Longrightarrow> lock_release l s = kstop (Panic (line ''lock hold by other thread''))"
  by (simp add: lock_release_def)

section \<open>Contended locks\<close>

text \<open>
  \<open>thread_block\<close> gives up the processor only when the quantum of the thread is used up. A thread that
  finds the semaphore taken with ticks left comes back from it at once and meets its own assertion.
\<close>

lemma sema_down_contended:
  assumes v: "sem_value s p = 0" and w: "clist (lists s) (waiters p) ws"
    and c: "node (current s) \<notin> set (waiters p # ws)" "node (current s) \<noteq> NULL"
    and t: "ticks (procs s (current s)) \<noteq> 0"
  shows "sema_down pr p s = kstop (Panic ''running thread must not be waiting'')"
proof -
  let ?s = "local_intr_save s"
  let ?u = "?s\<lparr>lists := list_add_tail (waiters p) (node (current s)) (lists s)\<rparr>"
  let ?b = "local_intr_restore (upd_proc (current s) (\<lambda>q. q\<lparr>p_state := PROC_BLOCKED\<rparr>) (local_intr_save ?u))"
  have find: "list_find (waiters p) (node (current s)) (lists s) = Some 0"
    using kl.find [OF w] c(1) by simp
  have w': "clist (lists ?b) (waiters p) (ws @ [node (current s)])"
    using kl.add_tail [OF w c] by simp
  have block: "thread_block pr PROC_BLOCKED ?u = kret () ?b"
    using t by (simp add: thread_block_def schedule_keeps Let_def)
  have "sema_wait pr p ?b = kstop (Panic ''running thread must not be waiting'')"
    using kl.find [OF w', of "node (current s)"] v by (subst sema_wait.simps) simp
  moreover have "sema_wait pr p ?s = sema_wait pr p ?b"
    using v find block by (subst sema_wait.simps) (simp add: Let_def)
  ultimately show ?thesis by (simp add: sema_down_def Let_def)
qed

text \<open>\<open>sema_up\<close> wakes the thread that has waited longest and puts it in front of the ready threads.\<close>

lemma sema_up_wakes:
  assumes v: "sem_value s p = 0" and w: "clist (lists s) (waiters p) (node x # ws)" and r: "ready s ps"
    and x: "queueable s x" "x \<notin> set ps"
      "p_state (procs s x) \<in> {PROC_WAITING, PROC_HANGING, PROC_BLOCKED}"
    and sep: "set (waiters p # ws) \<inter> set (map node (proc_ready_list s # ps)) = {}"
  shows "\<exists>t. sema_up p s = kret () t \<and> sem_value t p = 1 \<and> clist (lists t) (waiters p) ws \<and>
    ready t (x # ps) \<and> p_state (procs t x) = PROC_READY"
proof -
  let ?h = "snd (list_pop (waiters p) (lists s))" and ?rl = "node (proc_ready_list s)"
  let ?u = "(local_intr_save s)\<lparr>lists := ?h\<rparr>"
  have x': "node x \<notin> set (?rl # map node ps)" using x(1,2) by (auto simp: queueable_def)
  have out: "e \<notin> set (waiters p # node x # ws)" if e: "e \<in> set (?rl # map node ps)" for e
  proof -
    have "e \<noteq> node x" using x' e by blast
    moreover have "e \<notin> set (waiters p # ws)" using sep e unfolding list.map(2) by blast
    ultimately show ?thesis by simp
  qed
  have "clist ?h ?rl (map node ps)"
    using r unfolding ready_def by (rule clist_frame) (use list_pop_frame [OF w out] in simp)
  then have r': "ready ?u ps" by (simp add: ready_def)
  let ?t = "local_intr_restore (set_sem p 1 (local_intr_restore (upd_proc x (\<lambda>q. q\<lparr>p_state := PROC_READY\<rparr>)
      (local_intr_save ?u\<lparr>lists := list_add_head ?rl (node x) ?h\<rparr>))))"
  have "thread_unblock x ?u = kret () (local_intr_restore (upd_proc x (\<lambda>q. q\<lparr>p_state := PROC_READY\<rparr>)
      (local_intr_save ?u\<lparr>lists := list_add_head ?rl (node x) ?h\<rparr>)))"
    using thread_unblock_wakes [OF r', of x] x by (simp add: queueable_def)
  moreover have "node x \<noteq> NULL" using x(1) by (simp add: queueable_def)
  ultimately have "sema_up p s = kret () ?t"
    using v kl.is_empty [OF w] kl.front [OF w] by (simp add: sema_up_def Let_def)
  moreover have "ready ?t (x # ps)"
    using kl.add_head [OF r' [unfolded ready_def], of "node x"] x' \<open>node x \<noteq> NULL\<close> by (simp add: ready_def)
  moreover have "clist ?h (waiters p) ws" using kl.pop_rest [OF w] .
  then have "clist (list_add_head ?rl (node x) ?h) (waiters p) ws"
  proof (rule clist_frame)
    fix e assume e: "e \<in> set (waiters p # ws)"
    have "e \<noteq> node x" using e w by (auto simp: clist_def)
    moreover have "e \<notin> set (?rl # map node ps)" using e sep unfolding list.map(2) by blast
    ultimately show "l_next (list_add_head ?rl (node x) ?h) e = l_next ?h e \<and>
        l_prev (list_add_head ?rl (node x) ?h) e = l_prev ?h e"
      using list_add_head_frame [OF r' [unfolded ready_def], of e "node x"] by simp
  qed
  ultimately show ?thesis using v by simp
qed

section \<open>Nested locking\<close>

primrec repeat_run :: "nat \<Rightarrow> ('s \<Rightarrow> (unit, 's) run) \<Rightarrow> 's \<Rightarrow> (unit, 's) run" where
  "repeat_run 0 f s = kret () s"
| "repeat_run (Suc n) f s = kbind (f s) (\<lambda>_ s. repeat_run n f s)"

lemma same_threads_trans: "same_threads s t \<Longrightarrow> same_threads t u \<Longrightarrow> same_threads s u"
  by (simp add: same_threads_def)

lemma same_threads_current: "same_threads s t \<Longrightarrow> current t = current s"
  by (simp add: same_threads_def)

lemma lock_again_many:
  assumes "locked_by l (current s) k s"
  shows "\<exists>t. repeat_run n (req_lock pr l) s = kret () t \<and> locked_by l (current s) (k + of_nat n) t \<and> same_threads s t"
  using assms
proof (induction n arbitrary: s k)
  case (Suc n)
  obtain t where t: "req_lock pr l s = kret () t" "locked_by l (current s) (k + 1) t" "same_threads s t"
    using req_lock_again [OF Suc.prems] by blast
  with Suc.IH [of t "k + 1"] show ?case
    by (auto simp: same_threads_current ac_simps intro: same_threads_trans)
qed auto

lemma release_many:
  assumes "locked_by l (current s) (of_nat (Suc n)) s" "Suc n < 2 ^ 32"
  shows "\<exists>t. repeat_run (Suc n) (lock_release l) s = kret () t \<and> unlocked l t \<and> same_threads s t"
  using assms
proof (induction n arbitrary: s)
  case 0
  then show ?case using release_last [of l s] by auto
next
  case (Suc n)
  have "1 < (of_nat (Suc (Suc n)) :: uint)"
    using Suc.prems(2) by (simp only: word_less_nat_alt unat_of_nat) simp
  then obtain t where t: "lock_release l s = kret () t" "locked_by l (current s) (of_nat (Suc n)) t" "same_threads s t"
    using release_nested [OF Suc.prems(1)] by auto
  with Suc.IH [of t] Suc.prems(2) obtain u where
    "repeat_run (Suc n) (lock_release l) t = kret () u" "unlocked l u" "same_threads t u"
    by (auto simp: same_threads_current)
  with t show ?case by (simp add: same_threads_trans [of s t u])
qed

lemma lock_round_trip:
  assumes "unlocked l s" "current s \<noteq> NULL" "0 < n" "n < 2 ^ 32"
  shows "\<exists>t u. repeat_run n (req_lock pr l) s = kret () t \<and> locked_by l (current s) (of_nat n) t \<and>
    repeat_run n (lock_release l) t = kret () u \<and> unlocked l u \<and> same_threads s u"
proof -
  obtain m where m: "n = Suc m" using assms(3) by (cases n) auto
  obtain t where t: "req_lock pr l s = kret () t" "locked_by l (current s) 1 t" "same_threads s t"
    using req_lock_unlocked [OF assms(1,2)] by blast
  obtain u where u: "repeat_run m (req_lock pr l) t = kret () u" "locked_by l (current s) (of_nat (Suc m)) u" "same_threads t u"
    using lock_again_many [of l t 1 m pr] t by (auto simp: same_threads_current)
  have "current u = current s" using t(3) u(3) by (simp add: same_threads_current)
  with release_many [of l u m] u(2) assms(4) m obtain v where
    "repeat_run n (lock_release l) u = kret () v" "unlocked l v" "same_threads u v" by auto
  with t u m show ?thesis by (auto intro: same_threads_trans)
qed

end
