(* ===== verification/Console.thy ===== *)
theory Console
  imports Sync
begin

text \<open>
  src/console/console.c and the printing functions at the end of src/libs/kstdio.c. The text buffer
  is a function from cell numbers to 16-bit cells; \<open>char\<close> is signed, so a byte is printed when
  it is at least a blank as a signed number. The lock is \<open>lck\<close>, the address of \<open>console_lck\<close>.
  \<open>printk\<close> takes the text that \<open>sprintk\<close> leaves in its buffer.
\<close>

section \<open>The screen\<close>

definition blank :: ushort where
  "blank = 0x20 OR push_bit 8 (push_bit 4 0 OR (15 AND 0x0F))"

definition move_cursor :: "kst \<Rightarrow> kst" where
  "move_cursor s =
     (let cursor_loc = ucast (cursor_Y s) * 80 + ucast (cursor_X s) :: ushort;
          s = outb 0x3D4 14 s;
          s = outb 0x3D5 (ucast (drop_bit 8 cursor_loc)) s;
          s = outb 0x3D5 15 s
      in outb 0x3D5 (ucast (cursor_loc AND 0xFF)) s)"

definition scroll :: "kst \<Rightarrow> kst" where
  "scroll s =
     (if cursor_Y s \<ge> 25 then
        let m = fold (\<lambda>i m. m(int i := m (int i + 80))) [0 * 80..<24 * 80] (text_video_mem s);
            m = fold (\<lambda>i m. m(int i := blank)) [24 * 80..<25 * 80] m
        in s\<lparr>text_video_mem := m, cursor_Y := 24\<rparr>
      else s)"

definition console_clear :: "kst \<Rightarrow> kst" where
  "console_clear s =
     (let m = fold (\<lambda>i m. m(int i := blank)) [0..<80 * 25] (text_video_mem s)
      in move_cursor (s\<lparr>text_video_mem := m, cursor_X := 0, cursor_Y := 0\<rparr>))"

definition attribute :: "uchar \<Rightarrow> uchar \<Rightarrow> ushort" where
  "attribute fore_color back_color = push_bit 8 (ucast (push_bit 4 back_color OR (fore_color AND 0x0F)))"

definition put_char :: "uchar \<Rightarrow> ushort \<Rightarrow> kst \<Rightarrow> kst" where
  "put_char c attr s =
     (if c = 0x08 \<and> cursor_X s \<noteq> 0 then s\<lparr>cursor_X := cursor_X s - 1\<rparr>
      else if c = 0x09 then s\<lparr>cursor_X := (cursor_X s + 8) AND NOT (8 - 1)\<rparr>
      else if c = 0x0D then s\<lparr>cursor_X := 0\<rparr>
      else if c = 0x0A then s\<lparr>cursor_X := 0, cursor_Y := cursor_Y s + 1\<rparr>
      else if sint c \<ge> 0x20 then
        s\<lparr>text_video_mem := (text_video_mem s)
             (int (unat (cursor_Y s)) * 80 + int (unat (cursor_X s)) := ucast c OR attr),
          cursor_X := cursor_X s + 1\<rparr>
      else s)"

definition change_line :: "kst \<Rightarrow> kst" where
  "change_line s = (if cursor_X s \<ge> 80 then s\<lparr>cursor_X := 0, cursor_Y := cursor_Y s + 1\<rparr> else s)"

definition console_putc_color :: "uchar \<Rightarrow> uchar \<Rightarrow> uchar \<Rightarrow> kst \<Rightarrow> kst" where
  "console_putc_color c font_color backcolor s =
     move_cursor (scroll (change_line (put_char c (attribute font_color backcolor) s)))"

section \<open>Writing under the lock\<close>

definition console_init :: "addr \<Rightarrow> kst \<Rightarrow> kst" where
  "console_init lck s = console_clear (lock_init lck s)"

definition console_require :: "addr \<Rightarrow> printer \<Rightarrow> kst \<Rightarrow> (unit, kst) run" where
  "console_require lck pr s = req_lock pr lck s"

definition console_release :: "addr \<Rightarrow> kst \<Rightarrow> (unit, kst) run" where
  "console_release lck s = lock_release lck s"

definition console_write_color ::
    "addr \<Rightarrow> printer \<Rightarrow> uchar \<Rightarrow> uchar \<Rightarrow> uchar list \<Rightarrow> kst \<Rightarrow> (unit, kst) run" where
  "console_write_color lck pr font_color back_color str s =
     kbind (console_require lck pr s) (\<lambda>_ s.
       console_release lck (fold (\<lambda>c. console_putc_color c font_color back_color) str s))"

definition console_write :: "addr \<Rightarrow> printer \<Rightarrow> uchar list \<Rightarrow> kst \<Rightarrow> (unit, kst) run" where
  "console_write lck pr str s =
     kbind (console_require lck pr s) (\<lambda>_ s.
       console_release lck (fold (\<lambda>c. console_putc_color c 15 0) str s))"

text \<open>
  Printing inside \<open>schedule\<close> inside the wait for the console lock: \<open>n\<close> bounds how deep the calls
  nest, and running out is \<open>None\<close>, like a call that does not return. Depth one is enough
  whenever the lock is free.
\<close>

fun printk :: "addr \<Rightarrow> nat \<Rightarrow> printer" where
  "printk lck 0 txt s = None"
| "printk lck (Suc n) txt s = console_write lck (printk lck n) txt s"

fun printk_color :: "addr \<Rightarrow> nat \<Rightarrow> uchar \<Rightarrow> uchar \<Rightarrow> printer" where
  "printk_color lck 0 font_color back_color txt s = None"
| "printk_color lck (Suc n) font_color back_color txt s =
     console_write_color lck (printk lck n) font_color back_color txt s"

section \<open>A reference terminal\<close>

text \<open>The 2000 cells as a list, and what a character does to the cells and the cursor.\<close>

record terminal =
  cells :: "ushort list"
  t_col :: nat
  t_row :: nat

definition screen :: "kst \<Rightarrow> terminal" where
  "screen s = \<lparr>cells = map (\<lambda>i. text_video_mem s (int i)) [0..<2000],
     t_col = unat (cursor_X s), t_row = unat (cursor_Y s)\<rparr>"

definition new_line :: "terminal \<Rightarrow> terminal" where
  "new_line t =
     (if t_row t = 24 then t\<lparr>cells := drop 80 (cells t) @ replicate 80 blank, t_col := 0\<rparr>
      else t\<lparr>t_col := 0, t_row := t_row t + 1\<rparr>)"

definition go_to :: "nat \<Rightarrow> terminal \<Rightarrow> terminal" where
  "go_to col t = (if col < 80 then t\<lparr>t_col := col\<rparr> else new_line t)"

definition term_char :: "uchar \<Rightarrow> ushort \<Rightarrow> terminal \<Rightarrow> terminal" where
  "term_char c attr t =
     (if c = 0x08 then t\<lparr>t_col := t_col t - 1\<rparr>
      else if c = 0x09 then go_to (8 * (t_col t div 8 + 1)) t
      else if c = 0x0D then t\<lparr>t_col := 0\<rparr>
      else if c = 0x0A then new_line t
      else if 0x20 \<le> c \<and> c < 0x80 then
        go_to (t_col t + 1) (t\<lparr>cells := (cells t)[t_row t * 80 + t_col t := ucast c OR attr]\<rparr>)
      else t)"

definition on_screen :: "kst \<Rightarrow> bool" where
  "on_screen s \<longleftrightarrow> cursor_X s < 80 \<and> cursor_Y s < 25"

end
