(* ===== verification/Console_Correct.thy ===== *)
theory Console_Correct
  imports Console
begin

text \<open>
  The console implements the reference terminal, never writes outside the 2000 cells of the text
  buffer, and its lock makes printing what the scheduler relies on: the locales \<open>quiet_printer\<close> and
  \<open>round_robin\<close> are interpreted on \<open>printk\<close>.
\<close>

section \<open>The terminal\<close>

lemma copy_up:
  "fold (\<lambda>i m. m(int i := m (int i + 80))) [0..<n] m j = (if 0 \<le> j \<and> j < int n then m (j + 80) else m j)"
  by (induction n arbitrary: j) auto

lemma fill_cells:
  "a \<le> n \<Longrightarrow> fold (\<lambda>i m. m(int i := b)) [a..<n] m j = (if int a \<le> j \<and> j < int n then b else m j)"
  by (induction n arbitrary: j) (auto simp: le_Suc_eq)

lemma scroll_mem:
  "cursor_Y s \<ge> 25 \<Longrightarrow> text_video_mem (scroll s) j =
     (if 0 \<le> j \<and> j < 1920 then text_video_mem s (j + 80)
      else if 1920 \<le> j \<and> j < 2000 then blank else text_video_mem s j)"
proof -
  assume "25 \<le> cursor_Y s"
  then have "text_video_mem (scroll s) j = fold (\<lambda>i m. m(int i := blank)) [1920..<2000]
      (fold (\<lambda>i m. m(int i := m (int i + 80))) [0..<1920] (text_video_mem s)) j"
    by (simp add: scroll_def Let_def del: upt_rec_numeral)
  also have "\<dots> = (if 0 \<le> j \<and> j < 1920 then text_video_mem s (j + 80)
      else if 1920 \<le> j \<and> j < 2000 then blank else text_video_mem s j)"
    by (subst fill_cells) (simp_all add: copy_up del: upt_rec_numeral)
  finally show ?thesis .
qed

lemma scroll_cursor:
  "cursor_Y s \<ge> 25 \<Longrightarrow> cursor_X (scroll s) = cursor_X s \<and> cursor_Y (scroll s) = 24"
  "\<not> cursor_Y s \<ge> 25 \<Longrightarrow> scroll s = s"
  by (simp_all add: scroll_def Let_def del: upt_rec_numeral)

lemma outb_reads [simp]:
  "text_video_mem (outb p d s) = text_video_mem s" "cursor_X (outb p d s) = cursor_X s"
  "cursor_Y (outb p d s) = cursor_Y s" "same_threads s' (outb p d s) = same_threads s' s"
  "same_locks s' (outb p d s) = same_locks s' s"
  by (simp_all add: outb_def same_threads_def same_locks_def)

lemma move_cursor_reads [simp]:
  "text_video_mem (move_cursor s) = text_video_mem s" "cursor_X (move_cursor s) = cursor_X s"
  "cursor_Y (move_cursor s) = cursor_Y s" "same_threads s' (move_cursor s) = same_threads s' s"
  "same_locks s' (move_cursor s) = same_locks s' s"
  by (simp_all add: move_cursor_def Let_def)

lemma scroll_screen:
  assumes "cursor_Y s < 25"
  defines "u \<equiv> s\<lparr>cursor_X := 0, cursor_Y := cursor_Y s + 1\<rparr>"
  shows "screen (scroll u) = new_line (screen s)" and "on_screen (scroll u)"
    and "j < 0 \<or> 2000 \<le> j \<Longrightarrow> text_video_mem (scroll u) j = text_video_mem s j"
proof -
  have y: "unat (cursor_Y s + 1) = unat (cursor_Y s) + 1" "unat (cursor_Y s) < 25"
    using assms(1) by (simp_all add: word_less_nat_alt unat_plus_if')
  have big: "cursor_Y u \<ge> 25 \<longleftrightarrow> unat (cursor_Y s) = 24"
    using y by (auto simp: u_def word_le_nat_alt)
  show "screen (scroll u) = new_line (screen s)"
  proof (cases "unat (cursor_Y s) = 24")
    case True
    have "map (\<lambda>i. text_video_mem (scroll u) (int i)) [0..<2000] =
        drop 80 (map (\<lambda>i. text_video_mem s (int i)) [0..<2000]) @ replicate 80 blank"
      using True big by (intro nth_equalityI) (auto simp: scroll_mem nth_append u_def add.commute)
    then show ?thesis using True big scroll_cursor(1) [of u]
      by (simp add: screen_def new_line_def u_def)
  next
    case False
    then have "scroll u = u" using big by (intro scroll_cursor(2)) simp
    with False y show ?thesis by (simp add: screen_def new_line_def u_def)
  qed
  show "on_screen (scroll u)"
    using big y scroll_cursor [of u]
    by (cases "cursor_Y u \<ge> 25") (auto simp: on_screen_def u_def word_less_nat_alt)
  show "text_video_mem (scroll u) j = text_video_mem s j" if "j < 0 \<or> 2000 \<le> j"
    using that scroll_mem [of u j] scroll_cursor(2) [of u] by (cases "cursor_Y u \<ge> 25") (auto simp: u_def)
qed

lemma tab_stops: "list_all (\<lambda>n. unat ((of_nat n + 8) AND NOT (8 - 1) :: uchar) = 8 * (n div 8 + 1)) [0..<80]"
  by code_simp

lemma tab_stop: "x < 80 \<Longrightarrow> unat ((x + 8) AND NOT (8 - 1) :: uchar) = 8 * (unat x div 8 + 1)"
  using tab_stops unfolding list_all_iff
  by (auto simp: word_less_nat_alt dest!: bspec [of _ _ "unat x"])

text \<open>A column that has reached 80 starts a new line; otherwise nothing more happens.\<close>

definition advanced :: "kst \<Rightarrow> nat \<Rightarrow> terminal \<Rightarrow> bool" where
  "advanced s col t \<longleftrightarrow> cursor_Y s < 25 \<and> unat (cursor_X s) = col \<and> col \<le> 80 \<and>
     screen s = t\<lparr>t_col := col\<rparr>"

lemma finish_line:
  assumes a: "advanced s col t"
  shows "screen (scroll (change_line s)) = go_to col t" "on_screen (scroll (change_line s))"
    and "j < 0 \<or> 2000 \<le> j \<Longrightarrow> text_video_mem (scroll (change_line s)) j = text_video_mem s j"
proof -
  have new: "new_line (t\<lparr>t_col := c\<rparr>) = new_line t" for c by (simp add: new_line_def)
  have y: "cursor_Y s < 25" and x: "unat (cursor_X s) = col" "col \<le> 80" and sc: "screen s = t\<lparr>t_col := col\<rparr>"
    using a by (auto simp: advanced_def)
  have big: "cursor_X s \<ge> 80 \<longleftrightarrow> \<not> col < 80" using x by (auto simp: word_le_nat_alt)
  have keep: "change_line s = s" "scroll s = s" if "col < 80"
    using that big y scroll_cursor(2) [of s] by (auto simp: change_line_def)
  have wrap: "change_line s = s\<lparr>cursor_X := 0, cursor_Y := cursor_Y s + 1\<rparr>" if "\<not> col < 80"
    using that big by (simp add: change_line_def)
  show "screen (scroll (change_line s)) = go_to col t"
    using keep wrap sc scroll_screen(1) [OF y] new by (cases "col < 80") (simp_all add: go_to_def)
  show "on_screen (scroll (change_line s))"
    using keep wrap scroll_screen(2) [OF y] y x by (cases "col < 80") (simp_all add: on_screen_def word_less_nat_alt)
  show "text_video_mem (scroll (change_line s)) j = text_video_mem s j" if "j < 0 \<or> 2000 \<le> j"
    using keep wrap scroll_screen(3) [OF y that] by (cases "col < 80") simp_all
qed

lemma printable_bytes: "list_all (\<lambda>n. (0x20 \<le> sint (of_nat n :: uchar)) = (0x20 \<le> n \<and> n < 0x80)) [0..<256]"
  by code_simp

lemma printable: "0x20 \<le> sint c \<longleftrightarrow> 0x20 \<le> c \<and> c < 0x80" for c :: uchar
proof -
  have "unat c \<in> set [0..<256]" using unsigned_less [of c, where ?'a = nat] by simp
  with printable_bytes have "(0x20 \<le> sint (of_nat (unat c) :: uchar)) = (0x20 \<le> unat c \<and> unat c < 0x80)"
    unfolding list_all_iff by blast
  then show ?thesis by (simp add: word_le_nat_alt word_less_nat_alt)
qed

lemma put_char_advances:
  assumes s: "on_screen s" and c: "c \<noteq> 0x0A"
  obtains col t where "advanced (put_char c a s) col t" "go_to col t = term_char c a (screen s)"
    "\<And>j. j < 0 \<or> 2000 \<le> j \<Longrightarrow> text_video_mem (put_char c a s) j = text_video_mem s j"
proof -
  let ?x = "unat (cursor_X s)" and ?y = "unat (cursor_Y s)"
  have x: "?x < 80" and y: "?y < 25" "cursor_Y s < 25" using s by (auto simp: on_screen_def word_less_nat_alt)
  have inc: "unat (cursor_X s + 1) = ?x + 1" using x by (simp add: unat_plus_if')
  have idx: "?y * 80 + ?x < 2000" using x y by simp
  consider (bs) "c = 0x08" "cursor_X s \<noteq> 0" | (tab) "c = 0x09" | (cr) "c = 0x0D"
    | (ch) "0x20 \<le> c" "c < 0x80" | (no) "c = 0x08" "cursor_X s = 0"
    | (other) "c \<notin> {0x08, 0x09, 0x0D}" "\<not> (0x20 \<le> c \<and> c < 0x80)" by blast
  then show ?thesis
  proof cases
    case bs
    then have "unat (cursor_X s - 1) = ?x - 1" by (simp add: unat_minus_one)
    with bs x y show ?thesis
      by (intro that [of "?x - 1" "screen s"]) (auto simp: advanced_def put_char_def screen_def go_to_def term_char_def)
  next
    case tab
    with x y tab_stop [of "cursor_X s"] s show ?thesis
      by (intro that [of "8 * (?x div 8 + 1)" "screen s"])
        (auto simp: advanced_def put_char_def screen_def term_char_def on_screen_def)
  next
    case cr
    with y show ?thesis
      by (intro that [of 0 "screen s"]) (auto simp: advanced_def put_char_def screen_def go_to_def term_char_def)
  next
    case ch
    then have ne: "c \<noteq> 0x08" "c \<noteq> 0x09" "c \<noteq> 0x0D" by auto
    have "(int i = int ?y * 80 + int ?x) = (i = ?y * 80 + ?x)" for i by linarith
    then have "map (\<lambda>i. if int i = int ?y * 80 + int ?x then ucast c OR a else text_video_mem s (int i)) [0..<2000] =
        (map (\<lambda>i. text_video_mem s (int i)) [0..<2000])[?y * 80 + ?x := ucast c OR a]"
      using idx by (intro nth_equalityI) (simp_all only: length_map length_upt length_list_update nth_map nth_upt
          nth_list_update, auto)
    then have adv: "advanced (put_char c a s) (?x + 1) ((screen s)\<lparr>cells := (cells (screen s))[?y * 80 + ?x := ucast c OR a]\<rparr>)"
      using ch ne c x y inc by (simp add: advanced_def put_char_def printable screen_def)
    have "j \<noteq> int ?y * 80 + int ?x" if "j < 0 \<or> 2000 \<le> j" for j using that idx by linarith
    then have "text_video_mem (put_char c a s) j = text_video_mem s j" if "j < 0 \<or> 2000 \<le> j" for j
      using that ch ne c by (simp add: put_char_def printable)
    with adv ch ne c show ?thesis
      by (intro that [OF adv]) (simp_all add: screen_def term_char_def)
  next
    case no
    with y show ?thesis
      by (intro that [of 0 "screen s"]) (auto simp: advanced_def put_char_def printable screen_def go_to_def term_char_def)
  next
    case other
    with c x y show ?thesis
      by (intro that [of ?x "screen s"]) (auto simp: advanced_def put_char_def printable screen_def go_to_def term_char_def)
  qed
qed

lemma putc_refines:
  assumes s: "on_screen s"
  shows "screen (console_putc_color c f b s) = term_char c (attribute f b) (screen s)"
    and "on_screen (console_putc_color c f b s)"
    and "j < 0 \<or> 2000 \<le> j \<Longrightarrow> text_video_mem (console_putc_color c f b s) j = text_video_mem s j"
proof -
  have mv: "screen (move_cursor u) = screen u" "on_screen (move_cursor u) = on_screen u" for u
    by (simp_all add: screen_def on_screen_def)
  let ?u = "scroll (change_line (put_char c (attribute f b) s))"
  have "screen ?u = term_char c (attribute f b) (screen s) \<and> on_screen ?u \<and>
      (\<forall>j. j < 0 \<or> 2000 \<le> j \<longrightarrow> text_video_mem ?u j = text_video_mem s j)"
  proof (cases "c = 0x0A")
    case True
    let ?v = "s\<lparr>cursor_X := 0, cursor_Y := cursor_Y s + 1\<rparr>"
    have "put_char c (attribute f b) s = ?v" "change_line ?v = ?v"
      using True by (simp_all add: put_char_def change_line_def)
    with True s scroll_screen [of s] show ?thesis by (simp add: term_char_def on_screen_def)
  next
    case False
    show ?thesis
      by (rule put_char_advances [OF s False, of "attribute f b"]) (use finish_line in auto)
  qed
  then show "screen (console_putc_color c f b s) = term_char c (attribute f b) (screen s)"
    "on_screen (console_putc_color c f b s)"
    "j < 0 \<or> 2000 \<le> j \<Longrightarrow> text_video_mem (console_putc_color c f b s) j = text_video_mem s j"
    by (auto simp: console_putc_color_def mv)
qed

section \<open>Printing under the lock\<close>

lemma putc_frame [simp]:
  "same_threads s' (console_putc_color c f b s) = same_threads s' s"
  "same_locks s' (console_putc_color c f b s) = same_locks s' s"
  by (simp_all add: console_putc_color_def scroll_def change_line_def put_char_def same_threads_def
      same_locks_def move_cursor_def outb_def Let_def del: upt_rec_numeral)

text \<open>What printing leaves alone besides the threads.\<close>

definition same_rest :: "kst \<Rightarrow> kst \<Rightarrow> bool" where
  "same_rest s t \<longleftrightarrow> proc_block_list t = proc_block_list s \<and> proc_hanging_list t = proc_hanging_list s \<and>
     now_pid t = now_pid s \<and> interrupt_handlers t = interrupt_handlers s \<and> kbd_buf t = kbd_buf s \<and>
     ctrl_status t = ctrl_status s \<and> shift_status t = shift_status s \<and> alt_status t = alt_status s \<and>
     capslock_status t = capslock_status s \<and> ext_status t = ext_status s"

lemma same_rest_upd [simp]:
  "same_rest s (set_sem p v t) = same_rest s t" "same_rest s (set_holder l h t) = same_rest s t"
  "same_rest s (set_repeat l n t) = same_rest s t" "same_rest s s"
  "same_rest s (local_intr_save t) = same_rest s t" "same_rest s (local_intr_restore t) = same_rest s t"
  by (simp_all add: same_rest_def set_sem_def set_holder_def set_repeat_def local_intr_save_def local_intr_restore_def)

lemma putc_rest [simp]: "same_rest s' (console_putc_color c f b s) = same_rest s' s"
  by (simp add: console_putc_color_def scroll_def change_line_def put_char_def same_rest_def
      move_cursor_def outb_def Let_def del: upt_rec_numeral)

definition write_chars :: "uchar \<Rightarrow> uchar \<Rightarrow> uchar list \<Rightarrow> kst \<Rightarrow> kst" where
  "write_chars f b str = fold (\<lambda>c. console_putc_color c f b) str"

lemma write_chars_frame [simp]:
  "same_threads s' (write_chars f b str s) = same_threads s' s"
  "same_locks s' (write_chars f b str s) = same_locks s' s"
  by (induction str arbitrary: s) (simp_all add: write_chars_def)

lemma write_chars_rest [simp]: "same_rest s' (write_chars f b str s) = same_rest s' s"
  by (induction str arbitrary: s) (simp_all add: write_chars_def)

lemma write_chars_refines:
  assumes "on_screen s"
  shows "screen (write_chars f b str s) = fold (\<lambda>c. term_char c (attribute f b)) str (screen s)"
    and "on_screen (write_chars f b str s)"
    and "j < 0 \<or> 2000 \<le> j \<Longrightarrow> text_video_mem (write_chars f b str s) j = text_video_mem s j"
  using assms by (induction str arbitrary: s) (simp_all add: write_chars_def putc_refines)

definition same_screen :: "kst \<Rightarrow> kst \<Rightarrow> bool" where
  "same_screen s t \<longleftrightarrow> text_video_mem t = text_video_mem s \<and> cursor_X t = cursor_X s \<and> cursor_Y t = cursor_Y s"

text \<open>What holding a lock brackets, for any operation that keeps the lock.\<close>

locale mutex =
  fixes acquire release :: "'s \<Rightarrow> (unit, 's) run" and free held :: "'s \<Rightarrow> bool" and me :: "'s \<Rightarrow> bool"
    and frame :: "'s \<Rightarrow> 's \<Rightarrow> bool"
  assumes acquire: "free s \<Longrightarrow> me s \<Longrightarrow> \<exists>t. acquire s = kret () t \<and> held t \<and> frame s t"
    and release: "held s \<Longrightarrow> \<exists>t. release s = kret () t \<and> free t \<and> frame s t"
begin

lemma critical_section:
  assumes "free s" "me s" and body: "\<And>t. held t \<Longrightarrow> held (f t)"
  shows "\<exists>t u. kbind (acquire s) (\<lambda>_ s. release (f s)) = kret () u \<and> free u \<and> held t \<and> frame s t \<and> frame (f t) u"
proof -
  obtain t where t: "acquire s = kret () t" "held t" "frame s t" using acquire [OF assms(1,2)] by blast
  obtain u where "release (f t) = kret () u" "free u" "frame (f t) u" using release [OF body [OF t(2)]] by blast
  with t show ?thesis by auto
qed

end

text \<open>A free lock, taken and given back by the running thread.\<close>

definition mine :: "addr \<Rightarrow> kst \<Rightarrow> bool" where
  "mine l s \<longleftrightarrow> locked_by l (current s) 1 s"

definition threads_screen :: "kst \<Rightarrow> kst \<Rightarrow> bool" where
  "threads_screen s t \<longleftrightarrow> same_threads s t \<and> same_screen s t \<and> same_rest s t"

interpretation cl: mutex "req_lock pr l" "lock_release l" "unlocked l" "mine l" "\<lambda>s. current s \<noteq> NULL" threads_screen
  for pr l
proof
  fix s
  have scr: "same_screen s (set_repeat l n u) = same_screen s u" "same_screen s (set_holder l p u) = same_screen s u"
      "same_screen s (set_sem q v u) = same_screen s u" "same_screen s (local_intr_save u) = same_screen s u"
      "same_screen s (local_intr_restore u) = same_screen s u" "same_screen s s" for n u p q v
    by (simp_all add: same_screen_def set_repeat_def set_holder_def set_sem_def local_intr_save_def local_intr_restore_def)
  {
    assume "unlocked l s" "current s \<noteq> NULL"
    then show "\<exists>t. req_lock pr l s = kret () t \<and> mine l t \<and> threads_screen s t"
      by (simp add: req_lock_def sema_down_available unlocked_def mine_def locked_by_def threads_screen_def scr Let_def)
  next
    assume "mine l s"
    then show "\<exists>t. lock_release l s = kret () t \<and> unlocked l t \<and> threads_screen s t"
      by (simp add: lock_release_def mine_def locked_by_def unlocked_def sema_up_def list_empty_def
          threads_screen_def scr Let_def)
  }
qed

lemma mine_write: "mine l s \<Longrightarrow> mine l (write_chars f b str s)"
  using write_chars_frame(1) [of s f b str s] write_chars_frame(2) [of s f b str s]
  by (simp add: mine_def locked_by_def same_threads_def same_locks_def)

lemma write_chars_same: "same_screen s t \<Longrightarrow> same_screen (write_chars f b str s) (write_chars f b str t)"
proof (induction str arbitrary: s t)
  case (Cons c str)
  from Cons.prems have "same_screen (console_putc_color c f b s) (console_putc_color c f b t)"
    by (simp add: same_screen_def console_putc_color_def scroll_def change_line_def put_char_def Let_def
        del: upt_rec_numeral)
  from Cons.IH [OF this] show ?case by (simp add: write_chars_def)
qed (simp add: write_chars_def)

lemma console_write_prints:
  assumes s: "unlocked lck s" "current s \<noteq> NULL"
  shows "\<exists>t. console_write_color lck pr f b str s = kret () t \<and> unlocked lck t \<and> same_threads s t \<and>
    same_screen (write_chars f b str s) t \<and> same_rest s t"
proof -
  obtain t u where u: "kbind (req_lock pr lck s) (\<lambda>_ s. lock_release lck (write_chars f b str s)) = kret () u"
      "unlocked lck u" "threads_screen s t" "threads_screen (write_chars f b str t) u"
    using cl.critical_section [of lck s "write_chars f b str" pr] s mine_write by blast
  have "same_threads t (write_chars f b str t)" by simp
  with u(3,4) have "same_threads s u" by (auto simp: threads_screen_def same_threads_def)
  moreover have "same_rest s u"
  proof -
    have "same_rest t (write_chars f b str t)" by simp
    with u(3,4) show ?thesis by (auto simp: threads_screen_def same_rest_def)
  qed
  moreover have "same_screen (write_chars f b str s) u"
    using u(3,4) write_chars_same [of s t f b str] by (simp add: threads_screen_def same_screen_def)
  ultimately show ?thesis
    using u(1,2) unfolding console_write_color_def console_require_def console_release_def write_chars_def by blast
qed

lemma printk_prints:
  assumes "unlocked lck s" "current s \<noteq> NULL"
  shows "\<exists>t. printk lck (Suc n) txt s = kret () t \<and> same_threads s t \<and> unlocked lck t \<and>
    same_screen (write_chars 15 0 txt s) t \<and> same_rest s t"
  using console_write_prints [OF assms, of "printk lck n" "15" "0" "txt"]
  unfolding console_write_color_def by (auto simp: console_write_def)

interpretation kp: round_robin "printk lck (Suc n)" "unlocked lck" "waiters (lock_sem lck)" for lck n
proof
  show "\<exists>t. printk lck (Suc n) x s = kret () t \<and> same_threads s t \<and> unlocked lck t"
    if "unlocked lck s" "current s \<noteq> NULL" for x s
    using printk_prints [OF that] by blast
  show "unlocked lck t"
    if "unlocked lck s" "same_locks s t" "same_devices s t" "l_next (lists t) (waiters (lock_sem lck)) = l_next (lists s) (waiters (lock_sem lck))"
    for s t
    using that by (simp add: unlocked_def same_locks_def)
qed

section \<open>The run queue\<close>

text \<open>
  The state between two timer interrupts: \<open>ps\<close> are the ready threads in the order of the list,
  and the console is free for the line that \<open>schedule\<close> prints.
\<close>

definition run_queue :: "addr \<Rightarrow> kst \<Rightarrow> addr list \<Rightarrow> bool" where
  "run_queue lck s ps \<longleftrightarrow>
     ready s ps \<and> distinct (current s # ps) \<and> unlocked lck s \<and>
     node (proc_ready_list s) \<noteq> waiters (lock_sem lck) \<and>
     (\<forall>p\<in>set (current s # ps). queueable s p \<and> terminated (proc_name (procs s p)) \<and>
        node p \<noteq> waiters (lock_sem lck)) \<and>
     (\<forall>p\<in>set ps. ticks (procs s p) = prio (procs s p))"

lemma run_queue_rr: "run_queue lck = kp.rr lck"
  by (intro ext) (simp only: run_queue_def kp.rr_def)

text \<open>A new thread joins the tail of the queue.\<close>

lemma terminated_short:
  "length name < 100 \<Longrightarrow> terminated (\<lambda>i. if i < length name then name ! i else 0)"
  by (auto simp: terminated_def list_ex_iff intro: exI [of _ 99])

definition created :: "addr \<Rightarrow> uchar \<Rightarrow> kst \<Rightarrow> kst \<Rightarrow> bool" where
  "created proc pri s t \<longleftrightarrow>
     lists t = list_add_tail (node (proc_ready_list s)) (node proc)
       (set_prev (node proc) NULL (set_next (node proc) NULL (lists s))) \<and>
     (\<forall>q. q \<noteq> proc \<longrightarrow> procs t q = procs s q) \<and> p_state (procs t proc) = PROC_READY \<and>
     ticks (procs t proc) = pri \<and> prio (procs t proc) = pri \<and> terminated (proc_name (procs t proc)) \<and>
     p_pid (procs t proc) = now_pid s \<and> now_pid t = now_pid s + 1 \<and>
     c_esp (context_of (procs t proc)) = proc + 4084 \<and>
     current t = current s \<and> proc_ready_list t = proc_ready_list s \<and> same_locks s t"

lemma kthread_create_run:
  assumes "length name < 100"
  obtains t where "kthread_create proc ret fn args name pri s = kret (word_of_int (now_pid s)) t"
    "created proc pri s t" "map (stack_words t) [proc + 4084, proc + 4088, proc + 4092] = [fn, ret, args]"
  using assms terminated_short [of name]
  by (simp add: kthread_create_def set_proc_name_def Let_def upd_proc_def zero_proc_def same_locks_def
      created_def cong: if_cong)

lemma kthread_create_joins:
  assumes q: "run_queue lck s ps" and p: "queueable s proc" "proc \<notin> set (current s # ps)"
    and w: "node proc \<noteq> waiters (lock_sem lck)" and n: "length name < 100"
  shows "\<exists>t. kthread_create proc ret fn args name pri s = kret (word_of_int (now_pid s)) t \<and>
    run_queue lck t (ps @ [proc]) \<and> current t = current s \<and> p_pid (procs t proc) = now_pid s \<and>
    now_pid t = now_pid s + 1 \<and> prio (procs t proc) = pri \<and> c_esp (context_of (procs t proc)) = proc + 4084 \<and>
    map (stack_words t) [proc + 4084, proc + 4088, proc + 4092] = [fn, ret, args]"
proof -
  obtain t where run: "kthread_create proc ret fn args name pri s = kret (word_of_int (now_pid s)) t"
    and t: "created proc pri s t"
    and stack: "map (stack_words t) [proc + 4084, proc + 4088, proc + 4092] = [fn, ret, args]"
    by (rule kthread_create_run [OF n, where proc = proc and ret = ret and fn = fn and args = args and s = s])
  let ?h = "set_prev (node proc) NULL (set_next (node proc) NULL (lists s))"
  have fresh: "node proc \<notin> set (node (proc_ready_list s) # map node ps)" "node proc \<noteq> NULL"
    using p by (auto simp: queueable_def)
  have "clist (lists s) (node (proc_ready_list s)) (map node ps)"
    using q by (simp add: run_queue_def ready_def)
  then have c: "clist ?h (node (proc_ready_list s)) (map node ps)"
    by (rule clist_frame) (metis fresh(1) l_next_set_next l_next_set_prev l_prev_set_next l_prev_set_prev)
  have "ready t (ps @ [proc])"
    using list_add_tail_clist [OF c fresh] t by (simp add: ready_def created_def)
  moreover have "waiters (lock_sem lck) \<notin> set (node (proc_ready_list s) # map node ps)"
    using q by (auto simp: run_queue_def)
  then have "l_next (lists t) (waiters (lock_sem lck)) = l_next (lists s) (waiters (lock_sem lck))"
    using list_add_tail_frame(1) [OF c, of "waiters (lock_sem lck)" "node proc"] w t by (simp add: created_def)
  then have "unlocked lck t"
    using q t by (simp add: run_queue_def unlocked_def same_locks_def created_def)
  moreover have "procs t r = procs s r" if "r \<in> set (current s # ps)" for r
    using that p(2) t unfolding created_def by metis
  moreover have "queueable t r = queueable s r" for r using t by (simp add: queueable_def created_def)
  moreover have "current s \<noteq> proc" using p(2) by auto
  ultimately have "run_queue lck t (ps @ [proc])"
    using q p w t by (simp add: run_queue_def ball_Un created_def)
  then show ?thesis using run t stack by (intro exI [of _ t]) (simp add: created_def)
qed

end
