(* ===== verification/Ioqueue.thy ===== *)
theory Ioqueue
  imports Console_Correct "HOL-Library.Signed_Division"
begin

text \<open>
  src/driver/ioqueue.c: the ring buffer between an interrupt handler and a thread. The sources have
  one such queue, \<open>kbd_buf\<close>; \<open>ioq\<close> is its address, which is also the address of its lock.
  The abstraction \<open>ioq_holds q xs\<close> gives the bytes in the buffer, oldest first; the locale
  \<open>byte_queue\<close> is the contract of a bounded first-in first-out queue.
\<close>

section \<open>Operations\<close>

definition buf_size :: int where "buf_size = 1024"

definition upd_ioq :: "(ioqueue \<Rightarrow> ioqueue) \<Rightarrow> kst \<Rightarrow> kst" where
  "upd_ioq f s = s\<lparr>kbd_buf := f (kbd_buf s)\<rparr>"

definition ioqueue_init :: "addr \<Rightarrow> kst \<Rightarrow> kst" where
  "ioqueue_init ioq s =
     (let s = lock_init ioq s;
          s = upd_ioq (\<lambda>q. q\<lparr>producer := NULL, consumer := NULL\<rparr>) s
      in upd_ioq (\<lambda>q. q\<lparr>io_head := 0, io_tail := 0\<rparr>) s)"

definition next_pos :: "int \<Rightarrow> int" where
  "next_pos pos = (pos + 1) smod buf_size"

definition ioq_full :: "ioqueue \<Rightarrow> bool" where
  "ioq_full q \<longleftrightarrow> next_pos (io_head q) = io_tail q"

definition ioq_empty :: "ioqueue \<Rightarrow> bool" where
  "ioq_empty q \<longleftrightarrow> io_head q = io_tail q"

text \<open>The argument \<open>proc_struct_t **waiter\<close> is one of the two fields.\<close>

datatype waiter = Producer | Consumer

definition the_waiter :: "waiter \<Rightarrow> ioqueue \<Rightarrow> addr" where
  "the_waiter w q = (case w of Producer \<Rightarrow> producer q | Consumer \<Rightarrow> consumer q)"

definition set_waiter :: "waiter \<Rightarrow> addr \<Rightarrow> ioqueue \<Rightarrow> ioqueue" where
  "set_waiter w p q = (case w of Producer \<Rightarrow> q\<lparr>producer := p\<rparr> | Consumer \<Rightarrow> q\<lparr>consumer := p\<rparr>)"

definition ioq_wait :: "printer \<Rightarrow> waiter \<Rightarrow> kst \<Rightarrow> (unit, kst) run" where
  "ioq_wait pr w s =
     kbind (kassert (the_waiter w (kbd_buf s) = NULL) ''error'' s) (\<lambda>_ s.
       let s = upd_ioq (set_waiter w (current s)) s in thread_block pr PROC_BLOCKED s)"

definition wakeup :: "waiter \<Rightarrow> kst \<Rightarrow> (unit, kst) run" where
  "wakeup w s =
     kbind (kassert (the_waiter w (kbd_buf s) \<noteq> NULL) ''error'' s) (\<lambda>_ s.
     kbind (thread_unblock (the_waiter w (kbd_buf s)) s) (\<lambda>_ s.
       kret () (upd_ioq (set_waiter w NULL) s)))"

text \<open>The loops \<open>while(ioq_empty(ioq))\<close> and \<open>while(ioq_full(ioq))\<close>.\<close>

partial_function (option) ioq_await ::
    "addr \<Rightarrow> printer \<Rightarrow> (ioqueue \<Rightarrow> bool) \<Rightarrow> waiter \<Rightarrow> kst \<Rightarrow> (unit, kst) run" where
  [code]: "ioq_await ioq pr blocked w s =
     (if blocked (kbd_buf s) then
        kbind (req_lock pr ioq s) (\<lambda>_ s.
        kbind (ioq_wait pr w s) (\<lambda>_ s.
        kbind (lock_release ioq s) (\<lambda>_ s. ioq_await ioq pr blocked w s)))
      else kret () s)"

definition ioq_getchar :: "addr \<Rightarrow> printer \<Rightarrow> kst \<Rightarrow> (uchar, kst) run" where
  "ioq_getchar ioq pr s =
     kbind (ioq_await ioq pr ioq_empty Consumer s) (\<lambda>_ s.
     kbind (kguard (0 \<le> io_tail (kbd_buf s) \<and> io_tail (kbd_buf s) < buf_size) ''buf'' s) (\<lambda>_ s.
       let byte = iobuf (kbd_buf s) (io_tail (kbd_buf s));
           s = upd_ioq (\<lambda>q. q\<lparr>io_tail := next_pos (io_tail q)\<rparr>) s
       in kbind (if producer (kbd_buf s) \<noteq> NULL then wakeup Producer s else kret () s)
            (\<lambda>_ s. kret byte s)))"

definition ioq_putchar :: "addr \<Rightarrow> printer \<Rightarrow> uchar \<Rightarrow> kst \<Rightarrow> (unit, kst) run" where
  "ioq_putchar ioq pr byte s =
     kbind (ioq_await ioq pr ioq_full Producer s) (\<lambda>_ s.
     kbind (kguard (0 \<le> io_head (kbd_buf s) \<and> io_head (kbd_buf s) < buf_size) ''buf'' s) (\<lambda>_ s.
       let s = upd_ioq (\<lambda>q. q\<lparr>iobuf := (iobuf q)(io_head q := byte)\<rparr>) s;
           s = upd_ioq (\<lambda>q. q\<lparr>io_head := next_pos (io_head q)\<rparr>) s
       in if consumer (kbd_buf s) \<noteq> NULL then wakeup Consumer s else kret () s))"

section \<open>Contents\<close>

definition ioq_holds :: "ioqueue \<Rightarrow> uchar list \<Rightarrow> bool" where
  "ioq_holds q xs \<longleftrightarrow> 0 \<le> io_tail q \<and> io_tail q < 1024 \<and> length xs < 1024 \<and>
     io_head q = (io_tail q + int (length xs)) mod 1024 \<and>
     (\<forall>i<length xs. iobuf q ((io_tail q + int i) mod 1024) = xs ! i)"

lemma next_pos_mod: "0 \<le> p \<Longrightarrow> next_pos p = (p + 1) mod 1024"
  by (simp add: next_pos_def buf_size_def signed_modulo_int_def signed_divide_int_def sgn_if
      minus_div_mult_eq_mod flip: minus_mult_div_eq_mod)

lemma mod_1024_inj: "(t + int i) mod 1024 = (t + int j) mod 1024 \<Longrightarrow> i < 1024 \<Longrightarrow> j < 1024 \<Longrightarrow> i = j"
proof -
  assume e: "(t + int i) mod 1024 = (t + int j) mod 1024" and ij: "i < 1024" "j < 1024"
  from e have "1024 dvd int i - int j" by (simp add: mod_eq_dvd_iff)
  then obtain k where k: "int i - int j = 1024 * k" by (elim dvdE)
  with ij have "k < 1" "- 1 < k" by linarith+
  with k show ?thesis by simp
qed

lemma ioq_holds_head: "ioq_holds q xs \<Longrightarrow> 0 \<le> io_head q \<and> io_head q < 1024"
  by (simp add: ioq_holds_def)

lemma ioq_empty_iff: "ioq_holds q xs \<Longrightarrow> ioq_empty q \<longleftrightarrow> xs = []"
proof -
  assume q: "ioq_holds q xs"
  then have "io_tail q = (io_tail q + int 0) mod 1024" by (simp add: ioq_holds_def)
  with q mod_1024_inj [of "io_tail q" "length xs" 0] show ?thesis
    by (auto simp: ioq_empty_def ioq_holds_def)
qed

lemma ioq_full_iff: "ioq_holds q xs \<Longrightarrow> ioq_full q \<longleftrightarrow> length xs = 1023"
proof -
  assume q: "ioq_holds q xs"
  have n: "next_pos (io_head q) = (io_tail q + int (Suc (length xs))) mod 1024"
    using q ioq_holds_head [OF q] by (simp add: next_pos_mod ioq_holds_def mod_simps ac_simps)
  have t: "io_tail q = (io_tail q + int 0) mod 1024" using q by (simp add: ioq_holds_def)
  have "length xs < 1024" using q by (simp add: ioq_holds_def)
  then show ?thesis
    using n t mod_1024_inj [of "io_tail q" "Suc (length xs)" 0] by (cases "length xs = 1023") (auto simp: ioq_full_def)
qed

lemma ioq_holds_put:
  assumes q: "ioq_holds q xs" and room: "length xs < 1023"
  shows "ioq_holds (q\<lparr>iobuf := (iobuf q)(io_head q := b), io_head := next_pos (io_head q)\<rparr>) (xs @ [b])"
proof -
  have h: "io_head q = (io_tail q + int (length xs)) mod 1024" using q by (simp add: ioq_holds_def)
  have "next_pos (io_head q) = (io_tail q + int (length (xs @ [b]))) mod 1024"
    using ioq_holds_head [OF q] h by (simp add: next_pos_mod mod_simps ac_simps)
  moreover have "((iobuf q)(io_head q := b)) ((io_tail q + int i) mod 1024) = (xs @ [b]) ! i"
    if i: "i < length (xs @ [b])" for i
  proof (cases "i = length xs")
    case False
    then have "(io_tail q + int i) mod 1024 \<noteq> io_head q"
      using i room h mod_1024_inj [of "io_tail q" i "length xs"] by auto
    with False i q show ?thesis by (simp add: ioq_holds_def nth_append)
  qed (simp add: h)
  moreover have "length (xs @ [b]) < 1024" using room by simp
  ultimately show ?thesis using q by (simp add: ioq_holds_def del: length_append)
qed

lemma ioq_holds_get:
  assumes q: "ioq_holds q (x # xs)"
  shows "iobuf q (io_tail q) = x" "ioq_holds (q\<lparr>io_tail := next_pos (io_tail q)\<rparr>) xs"
proof -
  have t: "0 \<le> io_tail q" "io_tail q < 1024" using q by (simp_all add: ioq_holds_def)
  have "iobuf q ((io_tail q + int 0) mod 1024) = (x # xs) ! 0"
    using q unfolding ioq_holds_def by blast
  with t show "iobuf q (io_tail q) = x" by simp
  have "iobuf q (((io_tail q + 1) mod 1024 + int i) mod 1024) = xs ! i" if "i < length xs" for i
  proof -
    have "iobuf q ((io_tail q + int (Suc i)) mod 1024) = (x # xs) ! Suc i"
      using q that unfolding ioq_holds_def by (metis length_Cons Suc_less_eq)
    then show ?thesis by (simp add: mod_simps ac_simps)
  qed
  with q t show "ioq_holds (q\<lparr>io_tail := next_pos (io_tail q)\<rparr>) xs"
    by (simp add: ioq_holds_def next_pos_mod mod_simps ac_simps)
qed

section \<open>The contract\<close>

text \<open>A burst of bytes in, and a burst of bytes out.\<close>

primrec put_all :: "(uchar \<Rightarrow> 's \<Rightarrow> (unit, 's) run) \<Rightarrow> uchar list \<Rightarrow> 's \<Rightarrow> (unit, 's) run" where
  "put_all put [] s = kret () s"
| "put_all put (b # bs) s = kbind (put b s) (\<lambda>_ s. put_all put bs s)"

primrec get_many :: "('s \<Rightarrow> (uchar, 's) run) \<Rightarrow> nat \<Rightarrow> 's \<Rightarrow> (uchar list, 's) run" where
  "get_many get 0 s = kret [] s"
| "get_many get (Suc n) s = kbind (get s) (\<lambda>b s. kbind (get_many get n s) (\<lambda>bs s. kret (b # bs) s))"

locale byte_queue =
  fixes holds :: "'s \<Rightarrow> uchar list \<Rightarrow> bool" and put :: "uchar \<Rightarrow> 's \<Rightarrow> (unit, 's) run"
    and get :: "'s \<Rightarrow> (uchar, 's) run" and room :: nat
  assumes put: "holds s xs \<Longrightarrow> length xs < room \<Longrightarrow> \<exists>t. put b s = kret () t \<and> holds t (xs @ [b])"
    and get: "holds s (x # xs) \<Longrightarrow> \<exists>t. get s = kret x t \<and> holds t xs"
begin

lemma puts_holds:
  "holds s xs \<Longrightarrow> length xs + length bs \<le> room \<Longrightarrow> \<exists>t. put_all put bs s = kret () t \<and> holds t (xs @ bs)"
proof (induction bs arbitrary: s xs)
  case (Cons b bs)
  obtain t where t: "put b s = kret () t" "holds t (xs @ [b])" using put [OF Cons.prems(1)] Cons.prems(2) by auto
  with Cons.IH [OF t(2)] Cons.prems(2) show ?case by simp
qed simp

lemma gets_holds:
  "holds s (xs @ ys) \<Longrightarrow> \<exists>t. get_many get (length xs) s = kret xs t \<and> holds t ys"
proof (induction xs arbitrary: s)
  case (Cons x xs)
  then obtain t where t: "get s = kret x t" "holds t (xs @ ys)" using get by fastforce
  from Cons.IH [OF t(2)] obtain u where "get_many get (length xs) t = kret xs u" "holds u ys" by blast
  with t(1) show ?case by simp
qed simp

text \<open>What goes in comes out, in order, behind what was there.\<close>

lemma first_in_first_out:
  assumes "holds s xs" "length xs + length bs \<le> room"
  shows "\<exists>t. kbind (put_all put bs s) (\<lambda>_ s. get_many get (length (xs @ bs)) s) = kret (xs @ bs) t \<and> holds t []"
proof -
  obtain t where t: "put_all put bs s = kret () t" "holds t ((xs @ bs) @ [])"
    using puts_holds [OF assms] by auto
  with gets_holds [OF t(2)] show ?thesis by auto
qed

end

lemma upd_ioq_read [simp]: "kbd_buf (upd_ioq f s) = f (kbd_buf s)"
  by (simp add: upd_ioq_def)

definition idle_queue :: "kst \<Rightarrow> uchar list \<Rightarrow> bool" where
  "idle_queue s xs \<longleftrightarrow> ioq_holds (kbd_buf s) xs \<and> producer (kbd_buf s) = NULL \<and> consumer (kbd_buf s) = NULL"

lemma ioq_putchar_stores:
  assumes "ioq_holds (kbd_buf s) xs" "length xs < 1023"
  shows "ioq_putchar ioq pr b s =
    (let s = upd_ioq (\<lambda>q. q\<lparr>iobuf := (iobuf q)(io_head q := b), io_head := next_pos (io_head q)\<rparr>) s
     in if consumer (kbd_buf s) \<noteq> NULL then wakeup Consumer s else kret () s)"
proof -
  have "\<not> ioq_full (kbd_buf s)" using ioq_full_iff [OF assms(1)] assms(2) by simp
  then have "ioq_await ioq pr ioq_full Producer s = kret () s" by (simp add: ioq_await.simps)
  then show ?thesis
    using ioq_holds_head [OF assms(1)]
    by (simp add: ioq_putchar_def buf_size_def upd_ioq_def Let_def)
qed

interpretation kq: byte_queue idle_queue "ioq_putchar ioq pr" "ioq_getchar ioq pr" 1023 for ioq pr
proof
  show "\<exists>t. ioq_putchar ioq pr b s = kret () t \<and> idle_queue t (xs @ [b])"
    if "idle_queue s xs" "length xs < 1023" for s xs b
    using that ioq_putchar_stores [of s xs ioq pr b] ioq_holds_put [of "kbd_buf s" xs b]
    by (simp add: idle_queue_def Let_def)
  show "\<exists>t. ioq_getchar ioq pr s = kret x t \<and> idle_queue t xs" if h: "idle_queue s (x # xs)" for s x xs
  proof -
    have q: "ioq_holds (kbd_buf s) (x # xs)" using h by (simp add: idle_queue_def)
    then have "\<not> ioq_empty (kbd_buf s)" using ioq_empty_iff by auto
    then have "ioq_await ioq pr ioq_empty Consumer s = kret () s" by (simp add: ioq_await.simps)
    moreover have "0 \<le> io_tail (kbd_buf s)" "io_tail (kbd_buf s) < 1024" using q by (simp_all add: ioq_holds_def)
    ultimately show ?thesis
      using h ioq_holds_get [OF q] by (simp add: ioq_getchar_def idle_queue_def buf_size_def Let_def)
  qed
qed

section \<open>Waiting on an empty queue\<close>

text \<open>
  A reader that finds the queue empty while it has ticks left comes back from \<open>thread_block\<close> at once,
  finds the queue still empty and itself registered as the consumer.
\<close>

lemma kbd_buf_kept [simp]:
  "kbd_buf (upd_proc p f s) = kbd_buf s" "kbd_buf (local_intr_save s) = kbd_buf s"
  "kbd_buf (local_intr_restore s) = kbd_buf s" "kbd_buf (set_sem q v s) = kbd_buf s"
  "kbd_buf (set_holder l h s) = kbd_buf s" "kbd_buf (set_repeat l n s) = kbd_buf s"
  by (simp_all add: upd_proc_def local_intr_save_def local_intr_restore_def set_sem_def set_holder_def set_repeat_def)

lemma upd_ioq_kept [simp]:
  "procs (upd_ioq f s) = procs s" "current (upd_ioq f s) = current s" "lists (upd_ioq f s) = lists s"
  "sem_value (upd_ioq f s) = sem_value s" "lock_holder (upd_ioq f s) = lock_holder s"
  "holder_repeat_times (upd_ioq f s) = holder_repeat_times s"
  by (simp_all add: upd_ioq_def)

lemma req_lock_free:
  assumes "unlocked l s" "current s \<noteq> NULL"
  shows "req_lock pr l s = kret () (set_repeat l 1 (set_holder l (current s)
    (local_intr_restore (set_sem (lock_sem l) 0 (local_intr_save s)))))"
  using assms by (simp add: req_lock_def sema_down_available unlocked_def Let_def)

lemma lock_release_free:
  assumes "locked_by l (current s) 1 s"
  shows "lock_release l s = kret () (local_intr_restore (set_sem (lock_sem l) 1
    (local_intr_save (set_repeat l 0 (set_holder l NULL s)))))"
  using assms by (simp add: lock_release_def locked_by_def sema_up_def list_empty_def Let_def)

lemma ioq_getchar_empty_panics:
  assumes q: "ioq_holds (kbd_buf s) []" "consumer (kbd_buf s) = NULL" and l: "unlocked ioq s"
    and c: "current s \<noteq> NULL" "ticks (procs s (current s)) \<noteq> 0"
  shows "ioq_getchar ioq pr s = kstop (Panic ''error'')"
proof -
  have e: "ioq_empty (kbd_buf s)" using q(1) ioq_empty_iff by blast
  define t where "t = set_repeat ioq 1 (set_holder ioq (current s)
    (local_intr_restore (set_sem (lock_sem ioq) 0 (local_intr_save s))))"
  define u where "u = local_intr_restore (upd_proc (current s) (\<lambda>p. p\<lparr>p_state := PROC_BLOCKED\<rparr>)
    (local_intr_save (upd_ioq (set_waiter Consumer (current s)) t)))"
  define v where "v = local_intr_restore (set_sem (lock_sem ioq) 1
    (local_intr_save (set_repeat ioq 0 (set_holder ioq NULL u))))"
  have t: "req_lock pr ioq s = kret () t" using req_lock_free [OF l c(1)] by (simp add: t_def)
  have u: "ioq_wait pr Consumer t = kret () u"
    using c(2) q(2) by (simp add: ioq_wait_def the_waiter_def thread_block_def schedule_keeps Let_def u_def t_def)
  have "locked_by ioq (current u) 1 u" using l c(1) by (simp add: locked_by_def unlocked_def u_def t_def)
  then have v: "lock_release ioq u = kret () v" using lock_release_free by (simp add: v_def)
  have vq: "kbd_buf v = set_waiter Consumer (current s) (kbd_buf s)" "current v = current s"
    by (simp_all add: v_def u_def t_def)
  have "unlocked ioq v" using l by (simp add: unlocked_def v_def u_def t_def)
  with vq(2) c(1) have "req_lock pr ioq v = kret () (set_repeat ioq 1 (set_holder ioq (current v)
      (local_intr_restore (set_sem (lock_sem ioq) 0 (local_intr_save v)))))" by (intro req_lock_free) auto
  moreover have "ioq_empty (kbd_buf v)" using e by (simp add: vq ioq_empty_def set_waiter_def)
  ultimately have "ioq_await ioq pr ioq_empty Consumer v = kstop (Panic ''error'')"
    using c(1) by (subst ioq_await.simps) (simp add: ioq_wait_def the_waiter_def vq set_waiter_def)
  then have "ioq_await ioq pr ioq_empty Consumer s = kstop (Panic ''error'')"
    using e t u v by (subst ioq_await.simps) simp
  then show ?thesis by (simp add: ioq_getchar_def)
qed

end
