(* ===== verification/Keyboard.thy ===== *)
theory Keyboard
  imports Ioqueue
begin

text \<open>
  src/driver/keyboard.c: the scan code state machine. \<open>kbd_handler\<close> gets the byte that
  \<open>inb(KBD_BUF_PORT)\<close> reads; \<open>wr\<close> is the console's \<open>console_write\<close>.
\<close>

section \<open>The key map\<close>

definition esc :: uchar where "esc = 0x1B"
definition backspace :: uchar where "backspace = 0x08"
definition tab :: uchar where "tab = 0x09"
definition enter :: uchar where "enter = 0x0D"

definition pairs :: "string \<Rightarrow> string \<Rightarrow> (uchar \<times> uchar) list" where
  "pairs lo up = zip (map of_char lo) (map of_char up)"

definition keymap :: "(uchar \<times> uchar) list" where
  "keymap =
     [(0, 0), (esc, esc)] @ pairs ''1234567890-='' ''!@#$%^&*()_+'' @ [(backspace, backspace), (tab, tab)] @
     pairs ''qwertyuiop[]'' ''QWERTYUIOP{}'' @ [(enter, enter), (0, 0)] @
     pairs ''asdfghjkl;'' ''ASDFGHJKL:'' @ [(0x27, 0x22), (0x60, 0x7E), (0, 0), (0x5C, 0x7C)] @
     pairs ''zxcvbnm,./'' ''ZXCVBNM<>?'' @ [(0, 0), (0x2A, 0x2A), (0, 0), (0x20, 0x20), (0, 0)]"

definition shift_l_make :: ushort where "shift_l_make = 0x2A"
definition shift_r_make :: ushort where "shift_r_make = 0x36"
definition alt_l_make :: ushort where "alt_l_make = 0x38"
definition alt_r_make :: ushort where "alt_r_make = 0xE038"
definition ctrl_l_make :: ushort where "ctrl_l_make = 0x1D"
definition ctrl_r_make :: ushort where "ctrl_r_make = 0xE01D"
definition capslock_make :: ushort where "capslock_make = 0x3A"

section \<open>The handler\<close>

text \<open>The keys of the first group follow the shift key alone, the others the caps lock as well.\<close>

definition key_shift :: "ushort \<Rightarrow> int \<Rightarrow> int \<Rightarrow> bool" where
  "key_shift scancode shift_flag capslock_flag =
     (if scancode < 0x0E \<or> scancode = 0x29 \<or> scancode = 0x1A \<or> scancode = 0x1B \<or>
         scancode = 0x2B \<or> scancode = 0x27 \<or> scancode = 0x28 \<or> scancode = 0x33 \<or>
         scancode = 0x34 \<or> scancode = 0x35
      then shift_flag \<noteq> 0
      else if shift_flag \<noteq> 0 \<and> capslock_flag \<noteq> 0 then False
      else shift_flag \<noteq> 0 \<or> capslock_flag \<noteq> 0)"

definition key_release :: "ushort \<Rightarrow> kst \<Rightarrow> kst" where
  "key_release make_code s =
     (let s = (if make_code = ctrl_l_make \<or> make_code = ctrl_r_make then s\<lparr>ctrl_status := 0\<rparr> else s);
          s = (if make_code = shift_l_make \<or> make_code = shift_r_make then s\<lparr>shift_status := 0\<rparr> else s)
      in if make_code = alt_l_make \<or> make_code = alt_r_make then s\<lparr>alt_status := 0\<rparr> else s)"

definition modifier_press :: "ushort \<Rightarrow> kst \<Rightarrow> kst" where
  "modifier_press scancode s =
     (if scancode = ctrl_l_make \<or> scancode = ctrl_r_make then s\<lparr>ctrl_status := 1\<rparr>
      else if scancode = shift_l_make \<or> scancode = shift_r_make then s\<lparr>shift_status := 1\<rparr>
      else if scancode = alt_l_make \<or> scancode = alt_r_make then s\<lparr>alt_status := 1\<rparr>
      else if scancode = capslock_make then s\<lparr>capslock_status := (if capslock_status s = 0 then 1 else 0)\<rparr>
      else s)"

definition key_press :: "addr \<Rightarrow> printer \<Rightarrow> ushort \<Rightarrow> kst \<Rightarrow> (unit, kst) run" where
  "key_press ioq pr scancode s =
     (let shift = key_shift scancode (shift_status s) (capslock_status s);
          scancode = scancode AND 0x00FF;
          index = unat (ucast scancode :: uchar)
      in kbind (kguard (index < length keymap) ''keymap'' s) (\<lambda>_ s.
           let cur_char = (if shift then snd (keymap ! index) else fst (keymap ! index)) in
           if cur_char \<noteq> 0 then
             if \<not> ioq_full (kbd_buf s) then ioq_putchar ioq pr cur_char s else kret () s
           else kret () (modifier_press scancode s)))"

definition kbd_handler :: "addr \<Rightarrow> printer \<Rightarrow> printer \<Rightarrow> uchar \<Rightarrow> kst \<Rightarrow> (unit, kst) run" where
  "kbd_handler ioq pr wr byte s =
     (let scancode = ucast byte :: ushort in
      if scancode = 0xE0 then kret () (s\<lparr>ext_status := 1\<rparr>)
      else
        let (scancode, s) = (if ext_status s \<noteq> 0 then (0xE000 OR scancode, s\<lparr>ext_status := 0\<rparr>) else (scancode, s))
        in if scancode AND 0x0080 \<noteq> 0 then kret () (key_release (scancode AND 0xFF7F) s)
           else if (scancode > 0x00 \<and> scancode < 0x3B) \<or> scancode = alt_r_make \<or> scancode = ctrl_r_make then
             key_press ioq pr scancode s
           else wr (map of_char ''unknown key'' @ [0x0A]) s)"

definition init_kbd :: "addr \<Rightarrow> kst \<Rightarrow> kst" where
  "init_kbd ioq s = register_interrupt_handler 0x21 Kbd_handler (ioqueue_init ioq s)"

section \<open>What a key types\<close>

text \<open>A scan code that the key map gives a character, and that character.\<close>

definition types_char :: "uchar \<Rightarrow> bool" where
  "types_char k \<longleftrightarrow> 0 < k \<and> k < 0x3B \<and> fst (keymap ! unat k) \<noteq> 0"

definition key_char :: "uchar \<Rightarrow> int \<Rightarrow> int \<Rightarrow> uchar" where
  "key_char k shift caps =
     (if key_shift (ucast k) shift caps then snd (keymap ! unat k) else fst (keymap ! unat k))"

text \<open>The scan codes of the letters: three rows of the keyboard.\<close>

definition letter_keys :: "uchar list" where
  "letter_keys = map of_nat ([0x10..<0x1A] @ [0x1E..<0x27] @ [0x2C..<0x33])"

lemma keymap_table: "keymap =
    [(0, 0), (0x1B, 0x1B), (0x31, 0x21), (0x32, 0x40), (0x33, 0x23), (0x34, 0x24),
     (0x35, 0x25), (0x36, 0x5E), (0x37, 0x26), (0x38, 0x2A), (0x39, 0x28), (0x30, 0x29),
     (0x2D, 0x5F), (0x3D, 0x2B), (0x08, 0x08), (0x09, 0x09), (0x71, 0x51), (0x77, 0x57),
     (0x65, 0x45), (0x72, 0x52), (0x74, 0x54), (0x79, 0x59), (0x75, 0x55), (0x69, 0x49),
     (0x6F, 0x4F), (0x70, 0x50), (0x5B, 0x7B), (0x5D, 0x7D), (0x0D, 0x0D), (0, 0),
     (0x61, 0x41), (0x73, 0x53), (0x64, 0x44), (0x66, 0x46), (0x67, 0x47), (0x68, 0x48),
     (0x6A, 0x4A), (0x6B, 0x4B), (0x6C, 0x4C), (0x3B, 0x3A), (0x27, 0x22), (0x60, 0x7E),
     (0, 0), (0x5C, 0x7C), (0x7A, 0x5A), (0x78, 0x58), (0x63, 0x43), (0x76, 0x56),
     (0x62, 0x42), (0x6E, 0x4E), (0x6D, 0x4D), (0x2C, 0x3C), (0x2E, 0x3E), (0x2F, 0x3F),
     (0, 0), (0x2A, 0x2A), (0, 0), (0x20, 0x20), (0, 0)]"
  by (simp add: keymap_def pairs_def esc_def backspace_def tab_def enter_def of_char_def)

lemma length_keymap: "length keymap = 0x3B"
  by (simp add: keymap_table)

text \<open>Facts on every row of the table, by evaluation.\<close>

definition row_ok :: "nat \<Rightarrow> uchar \<times> uchar \<Rightarrow> bool" where
  "row_ok n r =
     (let k = of_nat n :: uchar; c = ucast k :: ushort; b = ucast (k + 0x80) :: ushort in
      c \<noteq> 0xE0 \<and> c AND 0x0080 = 0 \<and> c AND 0x00FF = c \<and> unat (ucast c :: uchar) = n \<and> c < 0x3B \<and>
      (n = 0 \<or> 0 < c) \<and> (fst r = 0) = (snd r = 0) \<and> b \<noteq> 0xE0 \<and> b AND 0x0080 \<noteq> 0 \<and>
      (fst r = 0 \<or> (b AND 0xFF7F) \<notin> {0x1D, 0xE01D, 0x2A, 0x36, 0x38, 0xE038}))"

lemma rows_ok: "list_all (\<lambda>(n, r). row_ok n r) (List.enumerate 0 keymap)"
  unfolding keymap_table by (simp add: row_ok_def)

lemma row_ok:
  assumes "k < (0x3B :: uchar)"
  shows "row_ok (unat k) (keymap ! unat k)"
proof -
  have "(unat k, keymap ! unat k) \<in> set (List.enumerate 0 keymap)"
    using assms by (simp add: in_set_enumerate_eq length_keymap word_less_nat_alt)
  with rows_ok show ?thesis by (auto simp: list_all_iff)
qed

lemma key_facts:
  fixes k :: uchar
  assumes "k < 0x3B"
  defines "c \<equiv> ucast k :: ushort"
  shows "c \<noteq> 0xE0" "c AND 0x0080 = 0" "c AND 0x00FF = c" "unat (ucast c :: uchar) = unat k" "c < 0x3B"
    "k \<noteq> 0 \<Longrightarrow> 0 < c" "fst (keymap ! unat k) = 0 \<longleftrightarrow> snd (keymap ! unat k) = 0"
  using row_ok [OF assms(1)] by (simp_all add: row_ok_def c_def Let_def unat_eq_zero)

lemma release_facts:
  assumes "types_char k"
  defines "c \<equiv> ucast (k + 0x80) :: ushort"
  shows "c \<noteq> 0xE0" "c AND 0x0080 \<noteq> 0"
    "c AND 0xFF7F \<notin> {ctrl_l_make, ctrl_r_make, shift_l_make, shift_r_make, alt_l_make, alt_r_make}"
  using assms(1) row_ok [of k]
  by (simp_all add: types_char_def row_ok_def c_def Let_def ctrl_l_make_def ctrl_r_make_def shift_l_make_def
      shift_r_make_def alt_l_make_def alt_r_make_def)

text \<open>A letter key gives the capital exactly when one of shift and caps lock is on.\<close>

lemma letter_rows:
  "list_all (\<lambda>k. types_char k \<and> 0x61 \<le> fst (keymap ! unat k) \<and> fst (keymap ! unat k) \<le> 0x7A \<and>
     snd (keymap ! unat k) = fst (keymap ! unat k) - 0x20) letter_keys"
  unfolding letter_keys_def keymap_table by (simp add: upt_rec types_char_def keymap_table)

lemma letter_shift: "k \<in> set letter_keys \<Longrightarrow> key_shift (ucast k) sh caps = ((sh \<noteq> 0) \<noteq> (caps \<noteq> 0))"
  by (auto simp: letter_keys_def upt_rec key_shift_def)

lemma letter_char:
  assumes "k \<in> set letter_keys"
  shows "types_char k" "0x61 \<le> key_char k 0 0" "key_char k 0 0 \<le> 0x7A"
    "key_char k sh caps = (if (sh \<noteq> 0) \<noteq> (caps \<noteq> 0) then key_char k 0 0 - 0x20 else key_char k 0 0)"
  using letter_rows assms letter_shift [OF assms] by (auto simp: list_all_iff key_char_def)

section \<open>Strokes\<close>

definition same_keys :: "kst \<Rightarrow> kst \<Rightarrow> bool" where
  "same_keys s t \<longleftrightarrow> ctrl_status t = ctrl_status s \<and> shift_status t = shift_status s \<and> alt_status t = alt_status s \<and>
     capslock_status t = capslock_status s \<and> ext_status t = ext_status s"

lemma handler_make:
  assumes k: "types_char k" and s: "ext_status s = 0"
  shows "kbd_handler ioq pr wr k s =
    (if \<not> ioq_full (kbd_buf s) then ioq_putchar ioq pr (key_char k (shift_status s) (capslock_status s)) s else kret () s)"
proof -
  have b: "k < 0x3B" "k \<noteq> 0" "fst (keymap ! unat k) \<noteq> 0"
    using k by (simp_all add: types_char_def word_gt_0)
  then have "snd (keymap ! unat k) \<noteq> 0" "unat k < length keymap"
    using key_facts(7) [OF b(1)] by (simp_all add: length_keymap word_less_nat_alt)
  with b(3) show ?thesis
    using key_facts(1-6) [OF b(1)] b(2) s
    by (simp add: kbd_handler_def key_press_def Let_def key_char_def)
qed

lemma handler_break:
  assumes k: "types_char k" and s: "ext_status s = 0"
  shows "kbd_handler ioq pr wr (k + 0x80) s = kret () s"
  using release_facts [OF k] s
  by (simp add: kbd_handler_def Let_def key_release_def)

text \<open>A key pressed and released, with room in the buffer and without.\<close>

lemma stroke_stores:
  assumes k: "types_char k" and s: "ext_status s = 0" and q: "idle_queue s xs" "length xs < 1023"
  obtains t where "kbd_handler ioq pr wr k s = kret () t" "same_keys s t"
    "idle_queue t (xs @ [key_char k (shift_status s) (capslock_status s)])" "\<exists>f. t = upd_ioq f s"
proof -
  let ?c = "key_char k (shift_status s) (capslock_status s)"
  let ?t = "upd_ioq (\<lambda>q. q\<lparr>iobuf := (iobuf q)(io_head q := ?c), io_head := next_pos (io_head q)\<rparr>) s"
  have "\<not> ioq_full (kbd_buf s)" using q ioq_full_iff [of "kbd_buf s" xs] by (simp add: idle_queue_def)
  then have "kbd_handler ioq pr wr k s = kret () ?t"
    using q ioq_putchar_stores [of s xs ioq pr ?c] handler_make [OF k s]
    by (simp add: idle_queue_def Let_def)
  moreover have "idle_queue ?t (xs @ [?c])" using q ioq_holds_put [of "kbd_buf s" xs ?c] by (simp add: idle_queue_def)
  moreover have "same_keys s ?t" by (simp add: same_keys_def upd_ioq_def)
  ultimately show ?thesis by (intro that [of ?t]) blast+
qed

lemma upd_ioq_upd [simp]: "upd_ioq g (upd_ioq f s) = upd_ioq (\<lambda>q. g (f q)) s"
  by (simp add: upd_ioq_def)

lemma stroke_dropped:
  assumes k: "types_char k" and s: "ext_status s = 0" and q: "ioq_holds (kbd_buf s) xs" "length xs = 1023"
  shows "kbd_handler ioq pr wr k s = kret () s"
  using handler_make [OF k s] q by (simp add: ioq_full_iff)

primrec kbd_run :: "(uchar \<Rightarrow> kst \<Rightarrow> (unit, kst) run) \<Rightarrow> uchar list \<Rightarrow> kst \<Rightarrow> (unit, kst) run" where
  "kbd_run h [] s = kret () s"
| "kbd_run h (b # bs) s = kbind (h b s) (\<lambda>_ s. kbd_run h bs s)"

definition strokes :: "uchar list \<Rightarrow> uchar list" where
  "strokes ks = concat (map (\<lambda>k. [k, k + 0x80]) ks)"

text \<open>Typing: the buffer gets the characters of the keys, in order.\<close>

lemma typing_stores:
  assumes "list_all types_char ks" "ext_status s = 0" "idle_queue s xs" "length xs + length ks \<le> 1023"
  shows "\<exists>t. kbd_run (kbd_handler ioq pr wr) (strokes ks) s = kret () t \<and> same_keys s t \<and>
    idle_queue t (xs @ map (\<lambda>k. key_char k (shift_status s) (capslock_status s)) ks) \<and> (\<exists>f. t = upd_ioq f s)"
  using assms
proof (induction ks arbitrary: s xs)
  case Nil
  have "s = upd_ioq (\<lambda>q. q) s" by (simp add: upd_ioq_def)
  with Nil show ?case by (auto simp: strokes_def same_keys_def)
next
  case (Cons k ks)
  then obtain t where t: "kbd_handler ioq pr wr k s = kret () t" "same_keys s t"
      "idle_queue t (xs @ [key_char k (shift_status s) (capslock_status s)])" "\<exists>f. t = upd_ioq f s"
    using stroke_stores [of k s xs ioq pr wr] by auto
  then have "kbd_handler ioq pr wr (k + 0x80) t = kret () t"
    using Cons.prems by (intro handler_break) (simp_all add: same_keys_def)
  with t Cons.IH [OF _ _ t(3)] Cons.prems show ?case
    by (auto simp: strokes_def same_keys_def)
qed

section \<open>Modifier keys\<close>

text \<open>The bytes of a modifier key, with the prefix of the right-hand ones.\<close>

lemma shift_key:
  "ext_status s = 0 \<Longrightarrow> kbd_handler ioq pr wr 0x2A s = kret () (s\<lparr>shift_status := 1\<rparr>)"
  "ext_status s = 0 \<Longrightarrow> kbd_handler ioq pr wr 0x36 s = kret () (s\<lparr>shift_status := 1\<rparr>)"
  "ext_status s = 0 \<Longrightarrow> kbd_handler ioq pr wr 0xAA s = kret () (s\<lparr>shift_status := 0\<rparr>)"
  "ext_status s = 0 \<Longrightarrow> kbd_handler ioq pr wr 0xB6 s = kret () (s\<lparr>shift_status := 0\<rparr>)"
  by (simp_all add: kbd_handler_def key_press_def key_release_def length_keymap Let_def modifier_press_def
      ctrl_l_make_def ctrl_r_make_def shift_l_make_def shift_r_make_def alt_l_make_def alt_r_make_def
      keymap_def pairs_def)

lemma caps_key:
  "ext_status s = 0 \<Longrightarrow> kbd_handler ioq pr wr 0x3A s =
     kret () (s\<lparr>capslock_status := (if capslock_status s = 0 then 1 else 0)\<rparr>)"
  "ext_status s = 0 \<Longrightarrow> kbd_handler ioq pr wr 0xBA s = kret () s"
  by (simp_all add: kbd_handler_def key_press_def key_release_def length_keymap Let_def modifier_press_def
      ctrl_l_make_def ctrl_r_make_def shift_l_make_def shift_r_make_def alt_l_make_def alt_r_make_def
      capslock_make_def keymap_def pairs_def)

section \<open>Every byte\<close>

lemma kbd_buf_putc [simp]: "kbd_buf (console_putc_color c f b s) = kbd_buf s"
  by (simp add: console_putc_color_def move_cursor_def outb_def scroll_def change_line_def put_char_def Let_def)

lemma kbd_buf_write [simp]: "kbd_buf (write_chars f b str s) = kbd_buf s"
  by (induction str arbitrary: s) (simp_all add: write_chars_def)

text \<open>What the handler leaves alone: the threads, the free console, the table of the handlers.\<close>

definition kept :: "addr \<Rightarrow> kst \<Rightarrow> kst \<Rightarrow> bool" where
  "kept lck s t \<longleftrightarrow> same_threads s t \<and> (unlocked lck s \<longrightarrow> unlocked lck t) \<and> (on_screen s \<longrightarrow> on_screen t) \<and>
     interrupt_handlers t = interrupt_handlers s"

lemma kept_upd [simp]:
  "kept lck s s" "kept lck s (upd_ioq f t) = kept lck s t" "kept lck s (t\<lparr>ctrl_status := n\<rparr>) = kept lck s t"
  "kept lck s (t\<lparr>shift_status := n\<rparr>) = kept lck s t" "kept lck s (t\<lparr>alt_status := n\<rparr>) = kept lck s t"
  "kept lck s (t\<lparr>capslock_status := n\<rparr>) = kept lck s t" "kept lck s (t\<lparr>ext_status := n\<rparr>) = kept lck s t"
  by (auto simp: kept_def same_threads_def on_screen_def unlocked_def upd_ioq_def)

lemma kept_keys [simp]: "kept lck s (key_release m t) = kept lck s t" "kept lck s (modifier_press m t) = kept lck s t"
  by (simp_all add: key_release_def modifier_press_def Let_def)

lemma console_write_kbd:
  assumes "unlocked lck s" "current s \<noteq> NULL"
  shows "\<exists>t. console_write_color lck pr f b str s = kret () t \<and> kbd_buf t = kbd_buf s \<and> unlocked lck t \<and> kept lck s t"
proof -
  obtain t where t: "console_write_color lck pr f b str s = kret () t" "unlocked lck t" "same_threads s t"
      "same_screen (write_chars f b str s) t" "same_rest s t"
    using console_write_prints [OF assms] by blast
  have "on_screen s \<longrightarrow> on_screen t"
    using t(4) write_chars_refines(2) [of s f b str] by (auto simp: same_screen_def on_screen_def)
  with t show ?thesis by (auto simp: kept_def same_rest_def)
qed

text \<open>
  The handler returns on every byte. The buffer is as it was, or it has one more character; a key
  typed into a full buffer is lost.
\<close>

lemma key_release_kbd [simp]: "kbd_buf (key_release m s) = kbd_buf s" "kbd_buf (modifier_press m s) = kbd_buf s"
  by (simp_all add: key_release_def modifier_press_def Let_def)

lemma key_press_index:
  assumes "(0 < c \<and> c < 0x3B) \<or> c = alt_r_make \<or> c = ctrl_r_make"
  shows "unat (ucast (c AND 0x00FF) :: uchar) < length keymap"
proof -
  consider "c < 0x3B" | "c = 0xE038" | "c = 0xE01D" using assms by (auto simp: alt_r_make_def ctrl_r_make_def)
  then show ?thesis
  proof cases
    case 1
    have "c AND 0x00FF = take_bit 8 c" by (simp add: take_bit_eq_mask mask_eq_exp_minus_1)
    then have "unat (ucast (c AND 0x00FF) :: uchar) = unat c mod 256"
      by (simp add: unsigned_ucast_eq take_bit_eq_mod unat_mod_distrib)
    moreover have "unat c < 59" using 1 by (simp add: word_less_nat_alt)
    ultimately show ?thesis by (simp add: length_keymap)
  qed (simp_all add: length_keymap)
qed

lemma key_press_total:
  assumes c: "(0 < c \<and> c < 0x3B) \<or> c = alt_r_make \<or> c = ctrl_r_make" and q: "idle_queue s xs"
  shows "\<exists>t ys. key_press ioq pr c s = kret () t \<and> idle_queue t (xs @ ys) \<and> length ys \<le> 1 \<and> kept lck s t"
proof -
  define cur where "cur = (let r = keymap ! unat (ucast (c AND 0x00FF) :: uchar)
    in if key_shift c (shift_status s) (capslock_status s) then snd r else fst r)"
  have run: "key_press ioq pr c s =
      (if cur \<noteq> 0 then if \<not> ioq_full (kbd_buf s) then ioq_putchar ioq pr cur s else kret () s
       else kret () (modifier_press (c AND 0x00FF) s))"
    using key_press_index [OF c] by (simp add: key_press_def cur_def Let_def)
  show ?thesis
  proof (cases "cur \<noteq> 0 \<and> \<not> ioq_full (kbd_buf s)")
    case True
    with q have "length xs < 1023"
      using ioq_full_iff [of "kbd_buf s" xs] by (auto simp: idle_queue_def ioq_holds_def)
    with q have "ioq_putchar ioq pr cur s =
        kret () (upd_ioq (\<lambda>q. q\<lparr>iobuf := (iobuf q)(io_head q := cur), io_head := next_pos (io_head q)\<rparr>) s)"
      using ioq_putchar_stores [of s xs ioq pr cur] by (simp add: idle_queue_def Let_def)
    with kq.put [OF q \<open>length xs < 1023\<close>, of ioq pr cur] True show ?thesis
      unfolding run by (intro exI [of _ "upd_ioq (\<lambda>q. q\<lparr>iobuf := (iobuf q)(io_head q := cur), io_head := next_pos (io_head q)\<rparr>) s"]
        exI [of _ "[cur]"]) auto
  next
    case False
    with q show ?thesis unfolding run by (intro exI [of _ "if cur \<noteq> 0 then s else modifier_press (c AND 0x00FF) s"] exI [of _ "[]"])
      (auto simp: idle_queue_def)
  qed
qed

lemma kbd_handler_total:
  assumes q: "idle_queue s xs" and l: "unlocked lck s" "current s \<noteq> NULL"
  shows "\<exists>t ys. kbd_handler ioq pr (console_write lck pr') byte s = kret () t \<and> idle_queue t (xs @ ys) \<and> length ys \<le> 1 \<and> kept lck s t"
proof -
  define c where "c = (if ext_status s \<noteq> 0 then 0xE000 OR ucast byte else ucast byte :: ushort)"
  define u where "u = (if ext_status s \<noteq> 0 then s\<lparr>ext_status := 0\<rparr> else s)"
  have u: "idle_queue u xs" "unlocked lck u" "current u \<noteq> NULL"
    using q l by (simp_all add: u_def idle_queue_def unlocked_def)
  have run: "kbd_handler ioq pr (console_write lck pr') byte s =
      (if (ucast byte :: ushort) = 0xE0 then kret () (s\<lparr>ext_status := 1\<rparr>)
       else if c AND 0x0080 \<noteq> 0 then kret () (key_release (c AND 0xFF7F) u)
       else if (0 < c \<and> c < 0x3B) \<or> c = alt_r_make \<or> c = ctrl_r_make then key_press ioq pr c u
       else console_write lck pr' (map of_char ''unknown key'' @ [0x0A]) u)"
    by (simp add: kbd_handler_def Let_def c_def u_def)
  have same: "idle_queue t (xs @ [])" if "kbd_buf t = kbd_buf s" for t
    using q that by (simp add: idle_queue_def)
  have su: "kept lck s t" if "kept lck u t" for t
    using that by (auto simp: u_def kept_def same_threads_def on_screen_def unlocked_def split: if_splits)
  consider "(ucast byte :: ushort) = 0xE0" | "(ucast byte :: ushort) \<noteq> 0xE0" "c AND 0x0080 \<noteq> 0"
    | "(ucast byte :: ushort) \<noteq> 0xE0" "\<not> c AND 0x0080 \<noteq> 0" "(0 < c \<and> c < 0x3B) \<or> c = alt_r_make \<or> c = ctrl_r_make"
    | "(ucast byte :: ushort) \<noteq> 0xE0" "\<not> c AND 0x0080 \<noteq> 0" "\<not> ((0 < c \<and> c < 0x3B) \<or> c = alt_r_make \<or> c = ctrl_r_make)"
    by blast
  then show ?thesis
  proof cases
    case 1
    then show ?thesis unfolding run using same [of "s\<lparr>ext_status := 1\<rparr>"] by (auto intro!: exI [of _ "[]"])
  next
    case 2
    have "kept lck s (key_release (c AND 0xFF7F) u)" by (rule su) simp
    with 2 show ?thesis unfolding run using same [of "key_release (c AND 0xFF7F) u"]
      by (auto simp: u_def intro!: exI [of _ "[]"])
  next
    case 3
    then show ?thesis unfolding run using key_press_total [OF _ u(1), of c ioq pr lck] su by fastforce
  next
    case 4
    let ?str = "map of_char ''unknown key'' @ [0x0A]"
    have "kbd_handler ioq pr (console_write lck pr') byte s = console_write_color lck pr' 15 0 ?str u"
      using 4 unfolding run by (auto simp: console_write_def console_write_color_def)
    with console_write_kbd [OF u(2,3), of pr' 15 0 ?str] obtain t where
      "kbd_handler ioq pr (console_write lck pr') byte s = kret () t" "kbd_buf t = kbd_buf u" "kept lck u t" by auto
    with su [of t] same [of t] show ?thesis by (auto simp: u_def intro!: exI [of _ t] exI [of _ "[]"])
  qed
qed

end
