(* ===== verification/Kstring.thy ===== *)
theory Kstring
  imports Prelude
begin

text \<open>
  src/libs/kstring.c. Memory is a function from 32-bit addresses to bytes; pointer arithmetic
  wraps. \<open>cstr m p xs\<close> says that a C string with the characters \<open>xs\<close> starts at \<open>p\<close>.
  \<open>strlen\<close> is \<open>None\<close> when it never meets a zero byte.
\<close>

type_synonym mem = "addr \<Rightarrow> uchar"

section \<open>Operations\<close>

fun memcpy_loop :: "nat \<Rightarrow> addr \<Rightarrow> addr \<Rightarrow> mem \<Rightarrow> mem" where
  "memcpy_loop 0 dst src m = m"
| "memcpy_loop (Suc n) dst src m = memcpy_loop n (dst + 1) (src + 1) (m(dst := m src))"

definition memcpy :: "addr \<Rightarrow> addr \<Rightarrow> uint \<Rightarrow> mem \<Rightarrow> mem" where
  "memcpy dst src len m = memcpy_loop (unat len) dst src m"

fun memset_loop :: "nat \<Rightarrow> addr \<Rightarrow> uchar \<Rightarrow> mem \<Rightarrow> mem" where
  "memset_loop 0 dest val m = m"
| "memset_loop (Suc n) dest val m = memset_loop n (dest + 1) val (m(dest := val))"

definition memset :: "addr \<Rightarrow> uchar \<Rightarrow> uint \<Rightarrow> mem \<Rightarrow> mem" where
  "memset dst val len m = memset_loop (unat len) dst val m"

partial_function (option) strcmp :: "mem \<Rightarrow> addr \<Rightarrow> addr \<Rightarrow> int option" where
  [code]: "strcmp m p1 p2 =
     (if m p1 \<noteq> 0 \<and> m p2 \<noteq> 0 then
        if m p1 \<noteq> m p2 then Some 1 else strcmp m (p1 + 1) (p2 + 1)
      else if m p1 = 0 \<and> m p2 = 0 then Some 0 else Some 1)"

partial_function (option) strlen_loop :: "mem \<Rightarrow> addr \<Rightarrow> int \<Rightarrow> int option" where
  [code]: "strlen_loop m p i = (if m p \<noteq> 0 then strlen_loop m (p + 1) (i + 1) else Some i)"

definition strlen :: "mem \<Rightarrow> addr \<Rightarrow> int option" where
  "strlen m src = strlen_loop m src 0"

text \<open>\<open>strcpy\<close> gives the null pointer when the regions are closer than the string is long.\<close>

definition addr_dis :: "addr \<Rightarrow> addr \<Rightarrow> int" where
  "addr_dis dst src = (if sint (dst - src) < 0 then sint (src - dst) else sint (dst - src))"

definition strcpy :: "addr \<Rightarrow> addr \<Rightarrow> mem \<Rightarrow> (addr, mem) run" where
  "strcpy dst src m =
     kbind (klift (strlen m src) m) (\<lambda>len m.
       if addr_dis dst src < len then kret 0 m
       else kret dst (memcpy_loop (nat len) dst src m))"

fun strcat_loop :: "nat \<Rightarrow> addr \<Rightarrow> addr \<Rightarrow> int \<Rightarrow> int \<Rightarrow> mem \<Rightarrow> mem" where
  "strcat_loop 0 dst src dst_len i m = m"
| "strcat_loop (Suc n) dst src dst_len i m =
     strcat_loop n dst src dst_len (i + 1)
       (m(dst + word_of_int dst_len + word_of_int i := m (src + word_of_int i)))"

definition strcat :: "addr \<Rightarrow> addr \<Rightarrow> mem \<Rightarrow> (addr, mem) run" where
  "strcat dst src m =
     kbind (klift (strlen m src) m) (\<lambda>src_len m.
     kbind (klift (strlen m dst) m) (\<lambda>dst_len m.
       let m = strcat_loop (nat src_len) dst src dst_len 0 m
       in kret dst (m(dst + word_of_int dst_len + word_of_int src_len := 0))))"

section \<open>Regions\<close>

text \<open>The \<open>n\<close> addresses from \<open>p\<close> on.\<close>

definition region :: "addr \<Rightarrow> nat \<Rightarrow> addr set" where
  "region p n = (\<lambda>i. p + of_nat i) ` {..<n}"

lemma region_0 [simp]: "region p 0 = {}"
  by (simp add: region_def)

lemma region_Suc: "region p (Suc n) = insert p (region (p + 1) n)"
proof -
  have "{..<Suc n} = insert 0 (Suc ` {..<n})" by (rule lessThan_Suc_eq_insert_0)
  then show ?thesis by (simp add: region_def image_image ac_simps)
qed

lemma region_add: "region p (n + k) = region p n \<union> region (p + of_nat n) k"
  by (induction n arbitrary: p) (simp_all add: region_Suc ac_simps)

lemma region_mono: "n \<le> k \<Longrightarrow> region p n \<subseteq> region p k"
  by (auto simp: region_def)

lemma in_region: "i < n \<Longrightarrow> p + of_nat i \<in> region p n"
  by (auto simp: region_def)

lemma of_nat_inj32: "i < 2 ^ 32 \<Longrightarrow> j < 2 ^ 32 \<Longrightarrow> (of_nat i :: addr) = of_nat j \<Longrightarrow> i = j"
  by (simp add: word_of_nat_eq_iff take_bit_eq_mod)

lemma region_end: "n < 2 ^ 32 \<Longrightarrow> p + of_nat n \<notin> region p n"
proof
  assume n: "n < 2 ^ 32" and "p + of_nat n \<in> region p n"
  then obtain i where "i < n" "(of_nat i :: addr) = of_nat n" by (auto simp: region_def)
  with n show False using of_nat_inj32 [of i n] by simp
qed

lemma region_fresh: "n < 2 ^ 32 \<Longrightarrow> p \<notin> region (p + 1) n"
proof
  assume n: "n < 2 ^ 32" and "p \<in> region (p + 1) n"
  then obtain i where i: "i < n" "p = p + 1 + of_nat i" by (auto simp: region_def)
  then have "(of_nat (Suc i) :: addr) = 0"
    by (metis (no_types, lifting) add.assoc add_cancel_right_right of_nat_Suc)
  then have "(2::nat) ^ 32 dvd Suc i" by (simp add: word_of_nat_eq_0_iff del: of_nat_Suc)
  with i(1) n show False by (meson Suc_leI dvd_imp_le le_less_trans not_le zero_less_Suc)
qed

section \<open>Bytes and strings in memory\<close>

fun bytes :: "mem \<Rightarrow> addr \<Rightarrow> uchar list \<Rightarrow> bool" where
  "bytes m p [] = True"
| "bytes m p (x # xs) = (m p = x \<and> bytes m (p + 1) xs)"

definition cstr :: "mem \<Rightarrow> addr \<Rightarrow> uchar list \<Rightarrow> bool" where
  "cstr m p xs \<longleftrightarrow> 0 \<notin> set xs \<and> bytes m p (xs @ [0])"

lemma bytes_append: "bytes m p (xs @ ys) \<longleftrightarrow> bytes m p xs \<and> bytes m (p + of_nat (length xs)) ys"
  by (induction xs arbitrary: p) (simp_all add: ac_simps)

lemma bytes_frame:
  "bytes m p xs \<Longrightarrow> (\<And>a. a \<in> region p (length xs) \<Longrightarrow> m' a = m a) \<Longrightarrow> bytes m' p xs"
  by (induction xs arbitrary: p) (simp_all add: region_Suc)

lemma cstr_frame:
  "cstr m p xs \<Longrightarrow> (\<And>a. a \<in> region p (length xs + 1) \<Longrightarrow> m' a = m a) \<Longrightarrow> cstr m' p xs"
  by (auto simp: cstr_def intro: bytes_frame)

lemma cstr_Nil [simp]: "cstr m p [] \<longleftrightarrow> m p = 0"
  by (simp add: cstr_def)

lemma cstr_Cons [simp]: "cstr m p (x # xs) \<longleftrightarrow> x \<noteq> 0 \<and> m p = x \<and> cstr m (p + 1) xs"
  by (auto simp: cstr_def)

lemma cstr_unique: "cstr m p xs \<Longrightarrow> cstr m p ys \<Longrightarrow> xs = ys"
proof (induction xs arbitrary: p ys)
  case Nil
  then show ?case by (cases ys) auto
next
  case (Cons x xs)
  then show ?case by (cases ys) auto
qed

lemma memcpy_loop_frame: "a \<notin> region dst n \<Longrightarrow> memcpy_loop n dst src m a = m a"
  by (induction n arbitrary: dst src m) (simp_all add: region_Suc)

lemma memset_loop_frame: "a \<notin> region dst n \<Longrightarrow> memset_loop n dst v m a = m a"
  by (induction n arbitrary: dst m) (simp_all add: region_Suc)

lemma memset_loop_bytes: "n < 2 ^ 32 \<Longrightarrow> bytes (memset_loop n dst v m) dst (replicate n v)"
proof (induction n arbitrary: dst m)
  case (Suc n)
  then show ?case
    using memset_loop_frame [of dst "dst + 1" n v] region_fresh [of n dst] by simp
qed simp

text \<open>A forward copy is right when the destination does not run into the bytes still to be read.\<close>

lemma memcpy_loop_bytes:
  assumes "bytes m src xs" and "length xs = n" "n < 2 ^ 32" and "region dst n \<inter> region src n = {}"
  shows "bytes (memcpy_loop n dst src m) dst xs"
  using assms
proof (induction xs arbitrary: dst src m n)
  case (Cons x xs)
  then obtain k where n: "n = Suc k" "length xs = k" by auto
  have "dst \<notin> region (src + 1) k" using Cons.prems(4) unfolding n(1) region_Suc by blast
  then have b: "bytes (m(dst := m src)) (src + 1) xs"
    using Cons.prems(1) n(2) by (auto intro!: bytes_frame [of m "src + 1"])
  have sep: "region (dst + 1) k \<inter> region (src + 1) k = {}"
    using Cons.prems(4) unfolding n(1) region_Suc by blast
  have "bytes (memcpy_loop k (dst + 1) (src + 1) (m(dst := m src))) (dst + 1) xs"
    by (rule Cons.IH [OF b n(2) _ sep]) (use Cons.prems(3) n(1) in simp)
  moreover have "memcpy_loop k (dst + 1) (src + 1) (m(dst := m src)) dst = x"
    using Cons.prems(1,3) n(1) region_fresh [of k dst] by (subst memcpy_loop_frame) simp_all
  ultimately show ?case using n(1) by simp
qed simp

section \<open>What the operations compute\<close>

lemma unat_less32: "unat (x :: uint) < 2 ^ 32"
  using unsigned_less [of x, where ?'a = nat] by simp

lemma memcpy_copies:
  assumes "bytes m src xs" "length xs = unat len" "region dst (unat len) \<inter> region src (unat len) = {}"
  shows "bytes (memcpy dst src len m) dst xs" and "a \<notin> region dst (unat len) \<Longrightarrow> memcpy dst src len m a = m a"
  using assms unat_less32 [of len]
  by (simp_all add: memcpy_def memcpy_loop_bytes memcpy_loop_frame)

lemma memset_fills:
  "bytes (memset dst v len m) dst (replicate (unat len) v)"
  "a \<notin> region dst (unat len) \<Longrightarrow> memset dst v len m a = m a"
  using unat_less32 [of len] by (simp_all add: memset_def memset_loop_bytes memset_loop_frame)

lemma strlen_loop_cstr: "cstr m p xs \<Longrightarrow> strlen_loop m p i = Some (i + int (length xs))"
  by (induction xs arbitrary: p i) (simp_all add: strlen_loop.simps [of m])

lemma strlen_cstr: "cstr m p xs \<Longrightarrow> strlen m p = Some (int (length xs))"
  by (simp add: strlen_def strlen_loop_cstr)

lemma strcmp_cstr:
  "cstr m p xs \<Longrightarrow> cstr m q ys \<Longrightarrow> strcmp m p q = Some (if xs = ys then 0 else 1)"
proof (induction xs arbitrary: p q ys)
  case Nil
  then show ?case by (cases ys) (simp_all add: strcmp.simps [of m])
next
  case (Cons x xs)
  then show ?case by (cases ys) (simp_all add: strcmp.simps [of m])
qed

lemma strcat_loop_memcpy:
  "strcat_loop n dst src l i m =
     memcpy_loop n (dst + word_of_int l + word_of_int i) (src + word_of_int i) m"
  by (induction n arbitrary: i m) (simp_all add: ac_simps)

lemma strcat_appends:
  assumes d: "cstr m dst xs" and s: "cstr m src ys" and len: "length xs + length ys + 1 < 2 ^ 32"
    and sep: "region dst (length xs + length ys + 1) \<inter> region src (length ys + 1) = {}"
  shows "\<exists>m'. strcat dst src m = kret dst m' \<and> cstr m' dst (xs @ ys) \<and>
    (\<forall>a. a \<notin> region dst (length xs + length ys + 1) \<longrightarrow> m' a = m a)"
proof -
  let ?e = "dst + of_nat (length xs)" and ?n = "length ys"
  let ?c = "memcpy_loop ?n ?e src m"
  let ?m = "?c(?e + of_nat ?n := 0)"
  have run: "strcat dst src m = kret dst ?m"
    by (simp add: strcat_def strlen_cstr [OF d] strlen_cstr [OF s] strcat_loop_memcpy Let_def)
  have reg: "region dst (length xs + length ys + 1) = region dst (length xs) \<union> region ?e (?n + 1)"
    using region_add [of dst "length xs" "?n + 1"] by simp
  have sub: "region ?e ?n \<subseteq> region ?e (?n + 1)" "region src ?n \<subseteq> region src (?n + 1)"
    by (intro region_mono; simp)+
  have end': "?e + of_nat ?n \<notin> region ?e ?n" using len by (intro region_end) simp
  have "bytes ?c ?e ys"
    using s len sep reg sub by (intro memcpy_loop_bytes) (auto simp: cstr_def bytes_append)
  then have "bytes ?m ?e ys" by (rule bytes_frame) (use end' in auto)
  moreover have front: "a \<notin> region ?e (?n + 1)" if a: "a \<in> region dst (length xs)" for a
  proof
    assume "a \<in> region ?e (?n + 1)"
    then obtain j where j: "j < ?n + 1" "a = dst + of_nat (length xs) + of_nat j"
      by (auto simp: region_def)
    moreover obtain i where i: "i < length xs" "a = dst + of_nat i"
      using a by (auto simp: region_def)
    ultimately have ij: "i < length xs" "j < ?n + 1"
        "dst + of_nat i = dst + of_nat (length xs) + of_nat j" by auto
    then have "(of_nat i :: addr) = of_nat (length xs + j)" by (simp add: add.assoc)
    with ij len show False using of_nat_inj32 [of i "length xs + j"] by auto
  qed
  have "?e + of_nat ?n \<in> region ?e (?n + 1)" by (intro in_region) simp
  then have keep: "?m a = m a" if "a \<notin> region ?e (?n + 1)" for a
    using that sub(1) memcpy_loop_frame [of a ?e ?n src m] by auto
  have "bytes m dst xs" using d by (simp add: cstr_def bytes_append)
  then have "bytes ?m dst xs" by (rule bytes_frame) (rule keep [OF front])
  ultimately have "cstr ?m dst (xs @ ys)"
    using d s by (simp add: cstr_def bytes_append ac_simps)
  moreover have "?m a = m a" if "a \<notin> region dst (length xs + length ys + 1)" for a
    using that reg by (intro keep) blast
  ultimately show ?thesis using run by blast
qed

text \<open>The distance test of \<open>strcpy\<close> is enough for a forward copy.\<close>

lemma sint_small: "\<bar>k\<bar> < 2 ^ 31 \<Longrightarrow> sint (word_of_int k :: uint) = k"
  by (simp add: signed_of_int signed_take_bit_int_eq_self)

lemma addr_dis_offset:
  assumes "dst - src = word_of_int k" and "\<bar>k\<bar> < 2 ^ 31"
  shows "addr_dis dst src = \<bar>k\<bar>"
proof -
  have "src - dst = word_of_int (- k)" using assms(1) by (simp add: algebra_simps)
  then show ?thesis
    using assms sint_small [of k] sint_small [of "- k"] by (auto simp: addr_dis_def)
qed

lemma addr_dis_apart:
  assumes "int n \<le> addr_dis dst src" and "n < 2 ^ 31"
  shows "region dst n \<inter> region src n = {}"
proof (rule ccontr)
  assume "region dst n \<inter> region src n \<noteq> {}"
  then obtain i j where ij: "i < n" "j < n" "dst + of_nat i = src + of_nat j"
    by (auto simp: region_def)
  then have "dst - src = word_of_int (int j - int i)" by (simp add: algebra_simps)
  moreover have "\<bar>int j - int i\<bar> < int n" using ij by auto
  ultimately show False using addr_dis_offset [of dst src "int j - int i"] assms by auto
qed

lemma strcpy_copies:
  assumes s: "cstr m src xs" and far: "int (length xs) \<le> addr_dis dst src" and len: "length xs < 2 ^ 31"
  shows "\<exists>m'. strcpy dst src m = kret dst m' \<and> bytes m' dst xs \<and>
    (\<forall>a. a \<notin> region dst (length xs) \<longrightarrow> m' a = m a)"
proof -
  let ?m = "memcpy_loop (length xs) dst src m"
  have "strcpy dst src m = kret dst ?m"
    using far by (simp add: strcpy_def strlen_cstr [OF s])
  moreover have "bytes m src xs" using s by (simp add: cstr_def bytes_append)
  then have "bytes ?m dst xs"
    using addr_dis_apart [OF far len] len by (intro memcpy_loop_bytes) auto
  ultimately show ?thesis using memcpy_loop_frame by blast
qed

lemma strcpy_too_close:
  "cstr m src xs \<Longrightarrow> addr_dis dst src < int (length xs) \<Longrightarrow> strcpy dst src m = kret 0 m"
  by (simp add: strcpy_def strlen_cstr)

end
