(* ===== verification/Kstdio.thy ===== *)
theory Kstdio
  imports Kstring "HOL-Library.Signed_Division"
begin

text \<open>
  src/libs/kstdio.c up to the console: number conversion and \<open>sprintk\<close>. The static buffer and the
  local array \<open>tmp\<close> are addresses, given as arguments; the variable arguments are the 32-bit
  words that \<open>va_arg\<close> reads in turn. \<open>render\<close> is the reference: the text a format stands for.
\<close>

section \<open>Number conversion\<close>

lemma word_div_smaller: "v div b \<noteq> 0 \<Longrightarrow> 1 < unat b \<Longrightarrow> unat (v div b) < unat v" for v b :: uint
  by (cases "v = 0") (auto simp: unat_div_distrib unat_gt_0 intro: div_less_dividend)

text \<open>The loop that all three conversions end with: exchange the ends of the digits.\<close>

fun reverse_loop :: "nat \<Rightarrow> nat \<Rightarrow> nat \<Rightarrow> addr \<Rightarrow> mem \<Rightarrow> mem" where
  "reverse_loop 0 i cnt buf m = m"
| "reverse_loop (Suc n) i cnt buf m =
     reverse_loop n (Suc i) cnt buf
       (let tmp = m (buf + of_nat i);
            m = m(buf + of_nat i := m (buf + of_nat (cnt - i - 1)))
        in m(buf + of_nat (cnt - i - 1) := tmp))"

function itoa_loop :: "int \<Rightarrow> nat \<Rightarrow> addr \<Rightarrow> mem \<Rightarrow> nat \<times> mem" where
  "itoa_loop v cnt buf m =
     (let m = m(buf + of_nat cnt := word_of_int (v smod 10 + 0x30)); v' = v sdiv 10
      in if v' \<noteq> 0 then itoa_loop v' (Suc cnt) buf m else (Suc cnt, m))"
  by pat_completeness auto
termination
proof (relation "measure (\<lambda>(v, cnt, buf, m). nat \<bar>v\<bar>)")
  fix v v' :: int
  assume "v' = v sdiv 10" "v' \<noteq> 0"
  then have "\<bar>v'\<bar> = \<bar>v\<bar> div 10" "v \<noteq> 0"
    by (auto simp: signed_divide_int_def abs_mult sgn_if)
  moreover have "\<bar>v\<bar> div 10 < \<bar>v\<bar>" if "v \<noteq> 0" using that by (intro int_div_less_self) auto
  ultimately show "((v', a, b, c), (v, d, e, f)) \<in> measure (\<lambda>(v, cnt, buf, m). nat \<bar>v\<bar>)" for a b c d e f
    by simp
qed auto

declare itoa_loop.simps [simp del]

definition itoa :: "int \<Rightarrow> addr \<Rightarrow> mem \<Rightarrow> mem" where
  "itoa x buf m =
     (let (cnt, m) = itoa_loop x 0 buf m; m = m(buf + of_nat cnt := 0)
      in reverse_loop (cnt div 2) 0 cnt buf m)"

function utoa_loop :: "uint \<Rightarrow> nat \<Rightarrow> addr \<Rightarrow> mem \<Rightarrow> nat \<times> mem" where
  "utoa_loop v cnt buf m =
     (let m = m(buf + of_nat cnt := ucast (v mod 10 + 0x30)); v' = v div 10
      in if v' \<noteq> 0 then utoa_loop v' (Suc cnt) buf m else (Suc cnt, m))"
  by pat_completeness auto
termination
proof (relation "measure (\<lambda>(v, cnt, buf, m). unat v)")
  fix v v' :: uint
  assume "v' = v div 10" "v' \<noteq> 0"
  then have "unat v' < unat v" using word_div_smaller [of v 10] by simp
  then show "((v', a, b, c), (v, d, e, f)) \<in> measure (\<lambda>(v, cnt, buf, m). unat v)" for a b c d e f by simp
qed auto

declare utoa_loop.simps [simp del]

definition utoa :: "uint \<Rightarrow> addr \<Rightarrow> mem \<Rightarrow> mem" where
  "utoa x buf m =
     (let (cnt, m) = utoa_loop x 0 buf m; m = m(buf + of_nat cnt := 0)
      in reverse_loop (cnt div 2) 0 cnt buf m)"

function ToHex_loop :: "uint \<Rightarrow> nat \<Rightarrow> addr \<Rightarrow> mem \<Rightarrow> nat \<times> mem" where
  "ToHex_loop v cnt buf m =
     (let c = (if v mod 16 < 10 then ucast (v mod 16 + 0x30) else ucast (v mod 16 - 10 + 0x41));
          m = m(buf + of_nat cnt := c); v' = v div 16
      in if v' \<noteq> 0 then ToHex_loop v' (Suc cnt) buf m else (Suc cnt, m))"
  by pat_completeness auto
termination
proof (relation "measure (\<lambda>(v, cnt, buf, m). unat v)")
  fix v v' :: uint
  assume "v' = v div 16" "v' \<noteq> 0"
  then have "unat v' < unat v" using word_div_smaller [of v 16] by simp
  then show "((v', a, b, c), (v, d, e, f)) \<in> measure (\<lambda>(v, cnt, buf, m). unat v)" for a b c d e f by simp
qed auto

declare ToHex_loop.simps [simp del]

definition ToHex :: "uint \<Rightarrow> addr \<Rightarrow> mem \<Rightarrow> mem" where
  "ToHex x buf m =
     (let (cnt, m) = ToHex_loop x 0 buf m; m = m(buf + of_nat cnt := 0)
      in reverse_loop (cnt div 2) 0 cnt buf m)"

section \<open>Formatted output\<close>

abbreviation percent :: uchar where "percent \<equiv> 0x25"

text \<open>\<open>strcat(buf + loc, src); cnt += strlen(src); loc += strlen(src)\<close>\<close>

definition append_str :: "addr \<Rightarrow> addr \<Rightarrow> nat \<Rightarrow> int \<Rightarrow> mem \<Rightarrow> (nat \<times> int, mem) run" where
  "append_str buf src loc cnt m =
     kbind (strcat (buf + of_nat loc) src m) (\<lambda>_ m.
     kbind (klift (strlen m src) m) (\<lambda>n m. kret (loc + nat n, cnt + n) m))"

text \<open>\<open>val < 0\<close> writes a minus sign and negates in 32 bits; \<open>int\<close> and \<open>long\<close> are the same width.\<close>

definition put_signed :: "addr \<Rightarrow> addr \<Rightarrow> uint \<Rightarrow> nat \<Rightarrow> int \<Rightarrow> mem \<Rightarrow> (nat \<times> int, mem) run" where
  "put_signed buf tmp a loc cnt m =
     (let val = sint a;
          (m, loc, val) = (if val < 0 then (m(buf + of_nat loc := 0x2D), Suc loc, i32 (- val)) else (m, loc, val))
      in append_str buf tmp loc cnt (itoa val tmp m))"

definition conversion ::
    "addr \<Rightarrow> addr \<Rightarrow> uchar \<Rightarrow> uint list \<Rightarrow> nat \<Rightarrow> int \<Rightarrow> mem \<Rightarrow> (uint list \<times> nat \<times> int, mem) run" where
  "conversion buf tmp c ap loc cnt m =
     (if c \<in> {0x75, 0x64, 0x63, 0x6C, 0x78, 0x73} then
        case ap of
          [] \<Rightarrow> kstop (Undefined ''va_arg'')
        | a # ap \<Rightarrow>
            kbind
              (if c = 0x75 then append_str buf tmp loc cnt (utoa a tmp m)
               else if c = 0x64 \<or> c = 0x6C then put_signed buf tmp a loc cnt m
               else if c = 0x63 then kret (Suc loc, cnt + 1) (m(buf + of_nat loc := ucast a))
               else if c = 0x78 then append_str buf tmp loc cnt (ToHex a tmp m)
               else append_str buf a loc cnt m)
              (\<lambda>(loc, cnt) m. kret (ap, loc, cnt) m)
      else kret (ap, Suc loc, cnt + 1) (m(buf + of_nat loc := c)))"

partial_function (option) sprintk_loop ::
    "addr \<Rightarrow> addr \<Rightarrow> addr \<Rightarrow> uint list \<Rightarrow> nat \<Rightarrow> int \<Rightarrow> mem \<Rightarrow> (int, mem) run" where
  [code]: "sprintk_loop buf tmp p ap loc cnt m =
     (if m p = 0 then kret cnt m
      else if m p \<noteq> percent then
        sprintk_loop buf tmp (p + 1) ap (Suc loc) cnt (m(buf + of_nat loc := m p))
      else
        kbind (conversion buf tmp (m (p + 1)) ap loc cnt m) (\<lambda>(ap, loc, cnt) m.
          sprintk_loop buf tmp (p + 2) ap loc cnt m))"

definition sprintk :: "addr \<Rightarrow> addr \<Rightarrow> addr \<Rightarrow> uint list \<Rightarrow> mem \<Rightarrow> (int, mem) run" where
  "sprintk buf tmp fmt ap m = sprintk_loop buf tmp fmt ap 0 0 (memset buf 0 1024 m)"

end
