(* ===== verification/Kstdio_Correct.thy ===== *)
theory Kstdio_Correct
  imports Kstdio
begin

text \<open>
  The conversions of kstdio.c write the usual numerals, and \<open>sprintk\<close> writes the text \<open>render\<close>
  gives for its format. The locale \<open>digit_writer\<close> is the contract the three digit loops share.
\<close>

section \<open>Numerals\<close>

fun radix :: "nat \<Rightarrow> (nat \<Rightarrow> uchar) \<Rightarrow> nat \<Rightarrow> uchar list" where
  "radix b d n = (if n < b \<or> b < 2 then [d n] else radix b d (n div b) @ [d (n mod b)])"

declare radix.simps [simp del]

lemma radix_length: "2 \<le> b \<Longrightarrow> n < b ^ k \<Longrightarrow> length (radix b d n) \<le> max 1 k"
proof (induction b d n arbitrary: k rule: radix.induct)
  case (1 b d n)
  show ?case
  proof (cases "n < b")
    case True
    then show ?thesis by (simp add: radix.simps)
  next
    case False
    then obtain j where k: "k = Suc j" using "1.prems" by (cases k) auto
    have "n div b < b ^ j" using "1.prems" k by (simp add: less_mult_imp_div_less mult.commute)
    moreover have "j \<noteq> 0" using False "1.prems" k by (cases j) auto
    ultimately have "length (radix b d (n div b)) \<le> j" using "1.IH" [of j] False "1.prems" by simp
    then show ?thesis using False "1.prems" k by (subst radix.simps) simp
  qed
qed

lemma radix_nonempty: "radix b d n \<noteq> []"
  by (subst radix.simps) simp

lemma radix_no_null: "2 \<le> b \<Longrightarrow> (\<And>i. i < b \<Longrightarrow> d i \<noteq> 0) \<Longrightarrow> 0 \<notin> set (radix b d n)"
proof (induction b d n rule: radix.induct)
  case (1 b d n)
  have "d (n mod b) \<noteq> 0" using 1 by simp
  with 1 show ?case by (cases "n < b") (auto simp: radix.simps [of b d n])
qed

lemma radix_digits: "2 \<le> b \<Longrightarrow> (\<And>i. i < b \<Longrightarrow> P (d i)) \<Longrightarrow> list_all P (radix b d n)"
proof (induction b d n rule: radix.induct)
  case (1 b d n)
  have "P (d (n mod b))" using 1 by simp
  with 1 show ?case by (cases "n < b") (auto simp: radix.simps [of b d n])
qed

text \<open>The numeral determines the number.\<close>

fun value_of :: "nat \<Rightarrow> (uchar \<Rightarrow> nat) \<Rightarrow> uchar list \<Rightarrow> nat" where
  "value_of b v xs = foldl (\<lambda>n x. n * b + v x) 0 xs"

lemma value_of_radix: "2 \<le> b \<Longrightarrow> (\<And>i. i < b \<Longrightarrow> v (d i) = i) \<Longrightarrow> value_of b v (radix b d n) = n"
proof (induction b d n rule: radix.induct)
  case (1 b d n)
  show ?case
  proof (cases "n < b")
    case True
    with 1 show ?thesis by (simp add: radix.simps [of b d n])
  next
    case False
    with 1 have "value_of b v (radix b d (n div b)) = n div b" by simp
    with False 1 show ?thesis by (simp add: radix.simps [of b d n])
  qed
qed

section \<open>Reversing in place\<close>

lemma bytes_nth: "bytes m p xs \<longleftrightarrow> (\<forall>i<length xs. m (p + of_nat i) = xs ! i)"
proof (induction xs arbitrary: p)
  case (Cons x xs)
  show ?case by (auto simp: Cons less_Suc_eq_0_disj ac_simps)
qed simp

lemma reverse_loop_nth:
  assumes "n + i = cnt div 2" "cnt < 2 ^ 32" "k < cnt"
  shows "reverse_loop n i cnt buf m (buf + of_nat k) =
    (if i \<le> k \<and> k < cnt - i then m (buf + of_nat (cnt - 1 - k)) else m (buf + of_nat k))"
  using assms
proof (induction n arbitrary: i m)
  case 0
  then have "cnt - 1 - k = k" if "i \<le> k" "k < cnt - i" using that by presburger
  then show ?case by (simp del: of_nat_diff)
next
  case (Suc n)
  let ?j = "cnt - i - 1"
  let ?m = "(m(buf + of_nat i := m (buf + of_nat ?j)))(buf + of_nat ?j := m (buf + of_nat i))"
  have ij: "i < ?j" "?j < cnt" using Suc.prems by auto
  have rd: "?m (buf + of_nat l) = (if l = ?j then m (buf + of_nat i) else if l = i then m (buf + of_nat ?j)
      else m (buf + of_nat l))" if "l < cnt" for l
    using that ij Suc.prems(2) of_nat_inj32 [of l i] of_nat_inj32 [of l ?j] by (auto simp del: of_nat_diff)
  have "reverse_loop (Suc n) i cnt buf m (buf + of_nat k) =
      (if Suc i \<le> k \<and> k < cnt - Suc i then ?m (buf + of_nat (cnt - 1 - k)) else ?m (buf + of_nat k))"
    using Suc.IH [of "Suc i" ?m] Suc.prems by (simp add: Let_def del: fun_upd_apply of_nat_diff)
  also have "\<dots> = (if i \<le> k \<and> k < cnt - i then m (buf + of_nat (cnt - 1 - k)) else m (buf + of_nat k))"
    using rd [of k] rd [of "cnt - 1 - k"] Suc.prems(3) ij by (auto simp del: fun_upd_apply of_nat_diff)
  finally show ?case .
qed

lemma reverse_loop_frame:
  "n + i = cnt div 2 \<Longrightarrow> a \<notin> region buf cnt \<Longrightarrow> reverse_loop n i cnt buf m a = m a"
proof (induction n arbitrary: i m)
  case (Suc n)
  have "i < cnt" "cnt - i - 1 < cnt" using Suc.prems(1) by linarith+
  then have "buf + of_nat i \<in> region buf cnt" "buf + of_nat (cnt - i - 1) \<in> region buf cnt"
    using in_region by blast+
  then have "a \<noteq> buf + of_nat i" "a \<noteq> buf + of_nat (cnt - i - 1)" using Suc.prems(2) by blast+
  with Suc show ?case by (simp add: Let_def del: of_nat_diff)
qed simp

lemma reverse_loop_bytes:
  assumes "bytes m buf xs" and "length xs < 2 ^ 32"
  shows "bytes (reverse_loop (length xs div 2) 0 (length xs) buf m) buf (rev xs)"
  using assms unfolding bytes_nth by (auto simp: reverse_loop_nth rev_nth simp del: of_nat_diff)

section \<open>Digit loops\<close>

definition finish_digits :: "nat \<times> mem \<Rightarrow> addr \<Rightarrow> mem" where
  "finish_digits r buf =
     (let (cnt, m) = r; m = m(buf + of_nat cnt := 0) in reverse_loop (cnt div 2) 0 cnt buf m)"

locale digit_writer =
  fixes base :: nat and dig :: "nat \<Rightarrow> uchar"
    and loop :: "'v \<Rightarrow> nat \<Rightarrow> addr \<Rightarrow> mem \<Rightarrow> nat \<times> mem"
    and shrink :: "'v \<Rightarrow> 'v" and val :: "'v \<Rightarrow> nat" and ok :: "'v \<Rightarrow> bool"
  assumes base: "2 \<le> base" and dig: "i < base \<Longrightarrow> dig i \<noteq> 0"
    and loop: "ok v \<Longrightarrow> loop v cnt buf m =
      (let m = m(buf + of_nat cnt := dig (val v mod base))
       in if val v div base \<noteq> 0 then loop (shrink v) (Suc cnt) buf m else (Suc cnt, m))"
    and shrink: "ok v \<Longrightarrow> ok (shrink v)" "ok v \<Longrightarrow> val (shrink v) = val v div base"
begin

lemma loop_writes:
  assumes "ok v" and "length (radix base dig (val v)) < 2 ^ 32"
  shows "\<exists>m'. loop v cnt buf m = (cnt + length (radix base dig (val v)), m') \<and>
    bytes m' (buf + of_nat cnt) (rev (radix base dig (val v))) \<and>
    (\<forall>a. a \<notin> region (buf + of_nat cnt) (length (radix base dig (val v))) \<longrightarrow> m' a = m a)"
  using assms
proof (induction "val v" arbitrary: v cnt m rule: less_induct)
  case less
  let ?m = "m(buf + of_nat cnt := dig (val v mod base))"
  show ?case
  proof (cases "val v < base")
    case True
    then have "radix base dig (val v) = [dig (val v)]" using base by (simp add: radix.simps)
    moreover have "loop v cnt buf m = (Suc cnt, ?m)" using loop [OF less.prems(1)] True by simp
    ultimately show ?thesis using True by (simp add: region_Suc)
  next
    case False
    let ?r = "radix base dig (val v div base)"
    have R: "radix base dig (val v) = ?r @ [dig (val v mod base)]"
      using False base by (subst radix.simps) simp
    have "val v div base \<noteq> 0" using False base by (simp add: div_eq_0_iff)
    then have step: "loop v cnt buf m = loop (shrink v) (Suc cnt) buf ?m"
      using loop [OF less.prems(1)] by (simp add: Let_def del: fun_upd_apply)
    have "val (shrink v) < val v"
      using shrink(2) [OF less.prems(1)] False base by (simp add: div_less_dividend)
    from less.hyps [OF this shrink(1) [OF less.prems(1)], of "Suc cnt" ?m] less.prems(2)
    obtain m' where m': "loop v cnt buf m = (Suc cnt + length ?r, m')"
        "bytes m' (buf + of_nat cnt + 1) (rev ?r)"
        "\<And>a. a \<notin> region (buf + of_nat cnt + 1) (length ?r) \<Longrightarrow> m' a = ?m a"
      unfolding step shrink(2) [OF less.prems(1)] R by (auto simp: ac_simps simp del: fun_upd_apply)
    have "buf + of_nat cnt \<notin> region (buf + of_nat cnt + 1) (length ?r)"
      using less.prems(2) R by (intro region_fresh) simp
    then have "m' (buf + of_nat cnt) = dig (val v mod base)" using m'(3) by simp
    then have "bytes m' (buf + of_nat cnt) (rev (radix base dig (val v)))"
      using m'(2) by (simp add: R)
    moreover have "\<forall>a. a \<notin> region (buf + of_nat cnt) (length (radix base dig (val v))) \<longrightarrow> m' a = m a"
      using m'(3) by (simp add: R region_Suc)
    ultimately show ?thesis using m'(1) R by auto
  qed
qed

lemma conversion_string:
  fixes buf :: addr and m :: mem
  assumes "ok v" and len: "length (radix base dig (val v)) + 1 < 2 ^ 32"
  defines "m' \<equiv> finish_digits (loop v 0 buf m) buf"
  shows "cstr m' buf (radix base dig (val v))"
    and "a \<notin> region buf (length (radix base dig (val v)) + 1) \<Longrightarrow> m' a = m a"
proof -
  let ?R = "radix base dig (val v)"
  obtain m1 where m1: "loop v 0 buf m = (length ?R, m1)" "bytes m1 buf (rev ?R)"
      "\<And>a. a \<notin> region buf (length ?R) \<Longrightarrow> m1 a = m a"
    using loop_writes [OF assms(1), of 0 buf m] len by auto
  let ?z = "buf + of_nat (length ?R)"
  have z: "?z \<notin> region buf (length ?R)"
    using len by (intro region_end) simp
  define m2 where "m2 = m1(?z := 0)"
  have m': "m' = reverse_loop (length ?R div 2) 0 (length ?R) buf m2"
    by (simp add: m'_def finish_digits_def m1(1) m2_def Let_def)
  have "bytes m2 buf (rev ?R)"
    using m1(2) by (rule bytes_frame) (use z in \<open>auto simp: m2_def\<close>)
  then have "bytes m' buf ?R" using reverse_loop_bytes [of m2 buf "rev ?R"] len m' by simp
  moreover have "m' ?z = 0" unfolding m' using z by (subst reverse_loop_frame) (simp_all add: m2_def)
  ultimately show "cstr m' buf ?R"
    using radix_no_null [OF base dig] by (simp add: cstr_def bytes_append)
  show "m' a = m a" if "a \<notin> region buf (length ?R + 1)"
    using that m1(3) unfolding m' region_add
    by (subst reverse_loop_frame) (auto simp: m2_def region_Suc)
qed

end

definition dec_digit :: "nat \<Rightarrow> uchar" where
  "dec_digit n = of_nat (n + 48)"

definition hex_digit :: "nat \<Rightarrow> uchar" where
  "hex_digit n = (if n < 10 then of_nat (n + 48) else of_nat (n + 55))"

lemma digit_nonzero: "i < 10 \<Longrightarrow> dec_digit i \<noteq> 0" "i < 16 \<Longrightarrow> hex_digit i \<noteq> 0"
  by (auto simp: dec_digit_def hex_digit_def word_of_nat_eq_0_iff simp del: of_nat_add dest: dvd_imp_le)

lemma ucast_digit: "unat (x :: uint) + k < 256 \<Longrightarrow> (ucast (x + of_nat k) :: uchar) = of_nat (unat x + k)"
proof -
  assume k: "unat x + k < 256"
  have "x + of_nat k = of_nat (unat x + k)" by simp
  then show ?thesis using k by (simp only: unsigned_of_nat) (simp add: take_bit_nat_eq_self)
qed

interpretation ut: digit_writer 10 dec_digit utoa_loop "\<lambda>v. v div 10" unat "\<lambda>_. True"
proof
  fix v :: uint and cnt buf m
  have "(ucast (v mod 10 + 0x30) :: uchar) = dec_digit (unat v mod 10)"
    using ucast_digit [of "v mod 10" 48] by (simp add: dec_digit_def unat_mod_distrib)
  moreover have "v div 10 = 0 \<longleftrightarrow> unat v div 10 = 0"
    using unat_eq_zero [of "v div 10"] by (simp add: unat_div_distrib)
  ultimately show "utoa_loop v cnt buf m =
      (let m = m(buf + of_nat cnt := dec_digit (unat v mod 10))
       in if unat v div 10 \<noteq> 0 then utoa_loop (v div 10) (Suc cnt) buf m else (Suc cnt, m))"
    by (subst utoa_loop.simps) (simp only: Let_def)
qed (auto simp: digit_nonzero unat_div_distrib)

interpretation hx: digit_writer 16 hex_digit ToHex_loop "\<lambda>v. v div 16" unat "\<lambda>_. True"
proof
  fix v :: uint and cnt buf m
  let ?d = "v mod 16"
  have u: "unat ?d = unat v mod 16" by (simp add: unat_mod_distrib)
  have "(if ?d < 10 then ucast (?d + 0x30) else ucast (?d - 10 + 0x41) :: uchar) = hex_digit (unat v mod 16)"
    using ucast_digit [of ?d 48] ucast_digit [of ?d 55] u
    by (simp add: hex_digit_def word_less_nat_alt add.commute [of 55 "v mod 16"])
  moreover have "v div 16 = 0 \<longleftrightarrow> unat v div 16 = 0"
    using unat_eq_zero [of "v div 16"] by (simp add: unat_div_distrib)
  ultimately show "ToHex_loop v cnt buf m =
      (let m = m(buf + of_nat cnt := hex_digit (unat v mod 16))
       in if unat v div 16 \<noteq> 0 then ToHex_loop (v div 16) (Suc cnt) buf m else (Suc cnt, m))"
    by (subst ToHex_loop.simps) (simp only: Let_def)
qed (auto simp: digit_nonzero unat_div_distrib)

interpretation it: digit_writer 10 dec_digit itoa_loop "\<lambda>v. v sdiv 10" nat "\<lambda>v. 0 \<le> v"
proof
  fix v :: int and cnt buf m
  assume "0 \<le> v"
  then obtain n where v: "v = int n" by (rule nonneg_int_cases)
  have sd: "v sdiv 10 = int (n div 10)" "v smod 10 = int (n mod 10)"
    unfolding v by (auto simp: signed_divide_int_def signed_modulo_int_def sgn_if zdiv_int zmod_int)
  have "word_of_int (v smod 10 + 0x30) = dec_digit (nat v mod 10)"
    unfolding dec_digit_def sd(2) by (simp add: v)
  moreover have "v sdiv 10 \<noteq> 0 \<longleftrightarrow> nat v div 10 \<noteq> 0"
    unfolding sd(1) by (simp add: v)
  ultimately show "itoa_loop v cnt buf m =
      (let m = m(buf + of_nat cnt := dec_digit (nat v mod 10))
       in if nat v div 10 \<noteq> 0 then itoa_loop (v sdiv 10) (Suc cnt) buf m else (Suc cnt, m))"
    by (subst itoa_loop.simps) (simp only: Let_def)
  show "0 \<le> v sdiv 10" "nat (v sdiv 10) = nat v div 10"
    unfolding sd(1) by (simp_all add: v)
qed (auto simp: digit_nonzero)

section \<open>What a format stands for\<close>

abbreviation decimal :: "nat \<Rightarrow> uchar list" where "decimal \<equiv> radix 10 dec_digit"
abbreviation hexadecimal :: "nat \<Rightarrow> uchar list" where "hexadecimal \<equiv> radix 16 hex_digit"

lemma numeral_length: "length (decimal (unat (a :: uint))) \<le> 10" "length (hexadecimal (unat a)) \<le> 8"
  "n < 2147483648 \<Longrightarrow> length (decimal n) \<le> 10"
  using unat_less32 [of a] radix_length [of 10 "unat a" 10 dec_digit]
    radix_length [of 16 "unat a" 8 hex_digit] radix_length [of 10 n 10 dec_digit] by simp_all

text \<open>Each conversion leaves a C string in the 32 bytes of \<open>tmp\<close> and touches nothing else.\<close>

lemma utoa_string:
  "cstr (utoa a tmp m) tmp (decimal (unat a))" "x \<notin> region tmp 32 \<Longrightarrow> utoa a tmp m x = m x"
proof -
  have e: "utoa a tmp m = finish_digits (utoa_loop a 0 tmp m) tmp" by (simp add: utoa_def finish_digits_def)
  have len: "length (decimal (unat a)) + 1 < 2 ^ 32" using numeral_length(1) [of a] by simp
  show "cstr (utoa a tmp m) tmp (decimal (unat a))"
    unfolding e by (rule ut.conversion_string(1) [OF TrueI len])
  show "utoa a tmp m x = m x" if "x \<notin> region tmp 32"
    unfolding e using that numeral_length(1) [of a] region_mono [of "length (decimal (unat a)) + 1" 32 tmp]
    by (intro ut.conversion_string(2) [OF TrueI len]) auto
qed

lemma ToHex_string:
  "cstr (ToHex a tmp m) tmp (hexadecimal (unat a))" "x \<notin> region tmp 32 \<Longrightarrow> ToHex a tmp m x = m x"
proof -
  have e: "ToHex a tmp m = finish_digits (ToHex_loop a 0 tmp m) tmp" by (simp add: ToHex_def finish_digits_def)
  have len: "length (hexadecimal (unat a)) + 1 < 2 ^ 32" using numeral_length(2) [of a] by simp
  show "cstr (ToHex a tmp m) tmp (hexadecimal (unat a))"
    unfolding e by (rule hx.conversion_string(1) [OF TrueI len])
  show "ToHex a tmp m x = m x" if "x \<notin> region tmp 32"
    unfolding e using that numeral_length(2) [of a] region_mono [of "length (hexadecimal (unat a)) + 1" 32 tmp]
    by (intro hx.conversion_string(2) [OF TrueI len]) auto
qed

lemma itoa_string:
  assumes v: "0 \<le> v" "v < 2147483648"
  shows "cstr (itoa v tmp m) tmp (decimal (nat v))" "x \<notin> region tmp 32 \<Longrightarrow> itoa v tmp m x = m x"
proof -
  have e: "itoa v tmp m = finish_digits (itoa_loop v 0 tmp m) tmp" by (simp add: itoa_def finish_digits_def)
  have l: "length (decimal (nat v)) \<le> 10" using v by (intro numeral_length(3)) auto
  then have len: "length (decimal (nat v)) + 1 < 2 ^ 32" by simp
  show "cstr (itoa v tmp m) tmp (decimal (nat v))"
    unfolding e by (rule it.conversion_string(1) [OF v(1) len])
  show "itoa v tmp m x = m x" if "x \<notin> region tmp 32"
    unfolding e using that l region_mono [of "length (decimal (nat v)) + 1" 32 tmp]
    by (intro it.conversion_string(2) [OF v(1) len]) auto
qed

datatype piece = Lit uchar | Conv uchar uint

definition is_conv :: "uchar \<Rightarrow> bool" where
  "is_conv c \<longleftrightarrow> c \<in> {0x75, 0x64, 0x63, 0x6C, 0x78, 0x73}"

text \<open>A percent sign at the very end has no reading.\<close>

fun pieces :: "uchar list \<Rightarrow> uint list \<Rightarrow> piece list option" where
  "pieces [] ap = Some []"
| "pieces (c # f) ap =
     (if c \<noteq> percent then map_option ((#) (Lit c)) (pieces f ap)
      else case f of
        [] \<Rightarrow> None
      | d # g \<Rightarrow>
          if is_conv d then
            case ap of [] \<Rightarrow> None | a # ap \<Rightarrow> map_option ((#) (Conv d a)) (pieces g ap)
          else map_option ((#) (Lit d)) (pieces g ap))"

definition signed_text :: "uint \<Rightarrow> uchar list" where
  "signed_text a = (if sint a < 0 then 0x2D # decimal (nat (- sint a)) else decimal (nat (sint a)))"

fun piece_text :: "(addr \<Rightarrow> uchar list) \<Rightarrow> piece \<Rightarrow> uchar list" where
  "piece_text str (Lit c) = [c]"
| "piece_text str (Conv d a) =
     (if d = 0x75 then decimal (unat a)
      else if d = 0x64 \<or> d = 0x6C then signed_text a
      else if d = 0x63 then [ucast a]
      else if d = 0x78 then hexadecimal (unat a)
      else str a)"

definition render :: "(addr \<Rightarrow> uchar list) \<Rightarrow> piece list \<Rightarrow> uchar list" where
  "render str ps = concat (map (piece_text str) ps)"

section \<open>The output buffer\<close>

definition out_buf :: "mem \<Rightarrow> addr \<Rightarrow> uchar list \<Rightarrow> bool" where
  "out_buf m buf xs \<longleftrightarrow> length xs < 1024 \<and> bytes m buf (xs @ replicate (1024 - length xs) 0)"

lemma out_buf_nth:
  "out_buf m buf xs \<longleftrightarrow> length xs < 1024 \<and>
     (\<forall>k<1024. m (buf + of_nat k) = (if k < length xs then xs ! k else 0))"
  unfolding out_buf_def bytes_nth by (auto simp: nth_append)

lemma out_buf_frame:
  "out_buf m buf xs \<Longrightarrow> (\<And>a. a \<in> region buf 1024 \<Longrightarrow> m' a = m a) \<Longrightarrow> out_buf m' buf xs"
  unfolding out_buf_def using bytes_frame [of m buf "xs @ replicate (1024 - length xs) 0" m'] by simp

lemma out_buf_put:
  assumes "out_buf m buf xs" "length xs + 1 < 1024"
  shows "out_buf (m(buf + of_nat (length xs) := c)) buf (xs @ [c])"
proof -
  have "(of_nat k :: addr) = of_nat (length xs) \<longleftrightarrow> k = length xs" if "k < 1024" for k
    using that assms(2) of_nat_inj32 [of k "length xs"] by auto
  with assms show ?thesis unfolding out_buf_nth by (auto simp: nth_append less_Suc_eq)
qed

lemma out_buf_string: "out_buf m buf xs \<Longrightarrow> 0 \<notin> set xs \<Longrightarrow> cstr m buf xs"
proof -
  assume o: "out_buf m buf xs" and "0 \<notin> set xs"
  then obtain k where "1024 - length xs = Suc k" by (metis Suc_diff_Suc out_buf_def)
  with o \<open>0 \<notin> set xs\<close> show ?thesis by (simp add: out_buf_def cstr_def bytes_append)
qed

lemma append_str_writes:
  assumes o: "out_buf m buf xs" and s: "cstr m src ys" and fit: "length xs + length ys < 1024"
    and sep: "region src (length ys + 1) \<inter> region buf 1024 = {}"
  shows "\<exists>m'. append_str buf src (length xs) cnt m = kret (length (xs @ ys), cnt + int (length ys)) m' \<and>
    out_buf m' buf (xs @ ys) \<and> (\<forall>a. a \<notin> region buf 1024 \<longrightarrow> m' a = m a)"
proof -
  let ?d = "buf + of_nat (length xs)"
  have sub: "region ?d (length ys + 1) \<subseteq> region buf 1024"
    using fit region_add [of buf "length xs" "length ys + 1"]
      region_mono [of "length xs + (length ys + 1)" 1024 buf] by auto
  have z: "cstr m ?d []" using o by (simp add: out_buf_nth)
  obtain m' where m': "strcat ?d src m = kret ?d m'" "cstr m' ?d ys"
      "\<And>a. a \<notin> region ?d (length ys + 1) \<Longrightarrow> m' a = m a"
    using strcat_appends [OF z s] sub sep fit by auto
  have keep: "m' a = m a" if "a \<notin> region buf 1024" for a using m'(3) sub that by blast
  have "cstr m' src ys" using s by (rule cstr_frame) (use keep sep in auto)
  then have "append_str buf src (length xs) cnt m = kret (length (xs @ ys), cnt + int (length ys)) m'"
    by (simp add: append_str_def m'(1) strlen_cstr)
  moreover have "m' (buf + of_nat k) = (if k < length (xs @ ys) then (xs @ ys) ! k else 0)" if k: "k < 1024" for k
  proof (cases "length xs \<le> k \<and> k < length xs + length ys + 1")
    case True
    then obtain j where j: "k = length xs + j" "j < length (ys @ [0])" by (auto simp: le_iff_add)
    have "m' (?d + of_nat j) = (ys @ [0]) ! j" using m'(2) j(2) by (simp add: cstr_def bytes_nth)
    with j show ?thesis by (simp add: ac_simps nth_append)
  next
    case False
    have "buf + of_nat k \<notin> region ?d (length ys + 1)"
    proof
      assume "buf + of_nat k \<in> region ?d (length ys + 1)"
      then obtain j where "j < length ys + 1" "(of_nat k :: addr) = of_nat (length xs + j)"
        by (auto simp: region_def add.assoc)
      with False k fit show False using of_nat_inj32 [of k "length xs + j"] by auto
    qed
    with m'(3) o k False show ?thesis by (auto simp: out_buf_nth nth_append)
  qed
  ultimately show ?thesis using keep fit unfolding out_buf_nth by auto
qed

section \<open>Correctness of \<open>sprintk\<close>\<close>

text \<open>
  Where the strings of the arguments lie, and the one integer whose negation is not an integer.
\<close>

fun piece_ok :: "mem \<Rightarrow> addr set \<Rightarrow> (addr \<Rightarrow> uchar list) \<Rightarrow> piece \<Rightarrow> bool" where
  "piece_ok m W str (Lit c) = True"
| "piece_ok m W str (Conv d a) =
     ((d = 0x73 \<longrightarrow> cstr m a (str a) \<and> region a (length (str a) + 1) \<inter> W = {}) \<and>
      (d = 0x64 \<or> d = 0x6C \<longrightarrow> a \<noteq> 0x80000000))"

text \<open>A conversion through \<open>tmp\<close>: the digits go there first.\<close>

lemma append_via_tmp:
  assumes o: "out_buf m buf xs" and sep: "region tmp 32 \<inter> region buf 1024 = {}"
    and t: "cstr m1 tmp ys" "\<And>a. a \<notin> region tmp 32 \<Longrightarrow> m1 a = m a"
    and len: "length ys + 1 \<le> 32" "length xs + length ys < 1024"
  shows "\<exists>n m'. append_str buf tmp (length xs) cnt m1 = kret (length (xs @ ys), n) m' \<and>
    out_buf m' buf (xs @ ys) \<and> (\<forall>a. a \<notin> region buf 1024 \<union> region tmp 32 \<longrightarrow> m' a = m a)"
proof -
  have sub: "region tmp (length ys + 1) \<subseteq> region tmp 32" using len(1) by (rule region_mono)
  have "out_buf m1 buf xs" using o by (rule out_buf_frame) (use t(2) sep in blast)
  moreover have "region tmp (length ys + 1) \<inter> region buf 1024 = {}" using sub sep by blast
  ultimately obtain m' where m': "append_str buf tmp (length xs) cnt m1 = kret (length (xs @ ys), cnt + int (length ys)) m'"
      "out_buf m' buf (xs @ ys)" "\<And>a. a \<notin> region buf 1024 \<Longrightarrow> m' a = m1 a"
    using append_str_writes [OF _ t(1) len(2)] by blast
  then have "\<forall>a. a \<notin> region buf 1024 \<union> region tmp 32 \<longrightarrow> m' a = m a" using t(2) by simp
  with m'(1,2) show ?thesis by blast
qed

lemma itoa_append:
  assumes "out_buf m buf xs" "region tmp 32 \<inter> region buf 1024 = {}" "length xs + length (decimal (nat v)) < 1024"
    and v: "0 \<le> v" "v < 2147483648"
  shows "\<exists>n m'. append_str buf tmp (length xs) cnt (itoa v tmp m) = kret (length (xs @ decimal (nat v)), n) m' \<and>
    out_buf m' buf (xs @ decimal (nat v)) \<and> (\<forall>a. a \<notin> region buf 1024 \<union> region tmp 32 \<longrightarrow> m' a = m a)"
proof -
  have "length (decimal (nat v)) \<le> 10" using v by (intro numeral_length(3)) auto
  then show ?thesis
    by (intro append_via_tmp [OF assms(1,2) itoa_string(1) [OF v] itoa_string(2) [OF v] _ assms(3)]) simp_all
qed

lemma put_signed_writes:
  assumes o: "out_buf m buf xs" and sep: "region tmp 32 \<inter> region buf 1024 = {}"
    and fit: "length xs + length (signed_text a) < 1024" and a: "a \<noteq> 0x80000000"
  shows "\<exists>n m'. put_signed buf tmp a (length xs) cnt m = kret (length (xs @ signed_text a), n) m' \<and>
    out_buf m' buf (xs @ signed_text a) \<and> (\<forall>a. a \<notin> region buf 1024 \<union> region tmp 32 \<longrightarrow> m' a = m a)"
proof -
  have "sint a \<noteq> - 2147483648"
  proof
    assume "sint a = - 2147483648"
    then have "(word_of_int (sint a) :: uint) = word_of_int (- 2147483648)" by simp
    with a show False by simp
  qed
  moreover have "- 2147483648 \<le> sint a" "sint a < 2147483648"
    using sint_greater_eq [of a] sint_less [of a] by simp_all
  ultimately have r: "- 2147483648 < sint a" "sint a < 2147483648" by linarith+
  show ?thesis
  proof (cases "sint a < 0")
    case True
    let ?m = "m(buf + of_nat (length xs) := 0x2D)"
    have neg: "signed_text a = 0x2D # decimal (nat (- sint a))" "i32 (- sint a) = - sint a"
      using True r by (simp_all add: signed_text_def)
    have "out_buf ?m buf (xs @ [0x2D])" using o fit neg(1) by (intro out_buf_put) simp_all
    from itoa_append [OF this sep, of "- sint a" cnt] fit True r neg(1)
    obtain n m' where m': "append_str buf tmp (Suc (length xs)) cnt (itoa (- sint a) tmp ?m) =
          kret (length (xs @ signed_text a), n) m'"
        "out_buf m' buf (xs @ signed_text a)" "\<And>a. a \<notin> region buf 1024 \<union> region tmp 32 \<Longrightarrow> m' a = ?m a"
      by auto
    moreover have "buf + of_nat (length xs) \<in> region buf 1024" using fit by (intro in_region) simp
    ultimately show ?thesis using True neg(2) by (auto simp: put_signed_def Let_def)
  next
    case False
    then show ?thesis
      using itoa_append [OF o sep, of "sint a" cnt] fit r by (auto simp: put_signed_def signed_text_def Let_def)
  qed
qed

lemma conversion_writes:
  assumes o: "out_buf m buf xs" and sep: "region tmp 32 \<inter> region buf 1024 = {}"
    and d: "is_conv d" and fit: "length xs + length (piece_text str (Conv d a)) < 1024"
    and ok: "piece_ok m (region buf 1024 \<union> region tmp 32) str (Conv d a)"
  shows "\<exists>n m'. conversion buf tmp d (a # ap) (length xs) cnt m =
      kret (ap, length (xs @ piece_text str (Conv d a)), n) m' \<and>
    out_buf m' buf (xs @ piece_text str (Conv d a)) \<and>
    (\<forall>a. a \<notin> region buf 1024 \<union> region tmp 32 \<longrightarrow> m' a = m a)"
proof -
  have c: "d \<in> {0x75, 0x64, 0x63, 0x6C, 0x78, 0x73}" using d by (simp add: is_conv_def)
  let ?W = "region buf 1024 \<union> region tmp 32"
  let ?goal = "\<lambda>r ys. \<exists>n m'. r = kret (length (xs @ ys), n) m' \<and> out_buf m' buf (xs @ ys) \<and>
    (\<forall>a. a \<notin> ?W \<longrightarrow> m' a = m a)"
  have u: "?goal (append_str buf tmp (length xs) cnt (utoa a tmp m)) (decimal (unat a))" if "d = 0x75"
    using fit that numeral_length(1) [of a]
    by (intro append_via_tmp [OF o sep utoa_string]) simp_all
  have x: "?goal (append_str buf tmp (length xs) cnt (ToHex a tmp m)) (hexadecimal (unat a))" if "d = 0x78"
    using fit that numeral_length(2) [of a]
    by (intro append_via_tmp [OF o sep ToHex_string]) simp_all
  have i: "?goal (put_signed buf tmp a (length xs) cnt m) (signed_text a)" if "d = 0x64 \<or> d = 0x6C"
    using fit that ok by (intro put_signed_writes [OF o sep]) auto
  have s: "?goal (append_str buf a (length xs) cnt m) (str a)" if "d = 0x73"
  proof -
    have "cstr m a (str a)" "region a (length (str a) + 1) \<inter> region buf 1024 = {}"
      using ok that by (simp, simp add: Int_Un_distrib)
    with fit that append_str_writes [OF o, of a "str a" cnt] show ?thesis by fastforce
  qed
  have ch: "?goal (kret (Suc (length xs), cnt + 1) (m(buf + of_nat (length xs) := ucast a))) [ucast a]"
    if "d = 0x63"
    using fit that out_buf_put [OF o, of "ucast a"] in_region [of "length xs" 1024 buf] by auto
  show ?thesis
    using c u x i s ch by (elim insertE) (auto simp: conversion_def)
qed

lemma piece_ok_frame:
  "piece_ok m W str pc \<Longrightarrow> (\<And>a. a \<notin> W \<Longrightarrow> m' a = m a) \<Longrightarrow> piece_ok m' W str pc"
  by (cases pc) (auto simp: disjoint_iff intro!: cstr_frame [of m])

lemma cstr_rest:
  assumes "cstr m p (c # f)" "region p (length (c # f) + 1) \<inter> W = {}" "\<And>a. a \<notin> W \<Longrightarrow> m' a = m a"
  shows "cstr m' (p + 1) f" "region (p + 1) (length f + 1) \<inter> W = {}"
proof -
  have reg: "region p (length (c # f) + 1) = insert p (region (p + 1) (length f + 1))"
    by (simp add: region_Suc)
  then show sep: "region (p + 1) (length f + 1) \<inter> W = {}" using assms(2) by blast
  have "cstr m (p + 1) f" using assms(1) by simp
  then show "cstr m' (p + 1) f" by (rule cstr_frame) (use assms(3) sep in blast)
qed

lemma sprintk_loop_renders:
  fixes buf tmp :: addr
  defines "W \<equiv> region buf 1024 \<union> region tmp 32"
  assumes sep: "region tmp 32 \<inter> region buf 1024 = {}"
  assumes "pieces f ap = Some ps" "cstr m p f" "region p (length f + 1) \<inter> W = {}"
    "\<And>pc. pc \<in> set ps \<Longrightarrow> piece_ok m W str pc" "out_buf m buf xs"
    "length xs + length (render str ps) < 1024"
  shows "\<exists>n m'. sprintk_loop buf tmp p ap (length xs) cnt m = kret n m' \<and>
    out_buf m' buf (xs @ render str ps) \<and> (\<forall>a. a \<notin> W \<longrightarrow> m' a = m a)"
  using assms(3-)
proof (induction f ap arbitrary: p ps m xs cnt rule: pieces.induct)
  case (1 ap)
  then show ?case by (subst sprintk_loop.simps) (simp add: render_def)
next
  case (2 c f ap)
  have put: "length xs < 1024 \<Longrightarrow> a \<notin> W \<Longrightarrow> (m(buf + of_nat (length xs) := e)) a = m a" for a e
    using in_region [of "length xs" 1024 buf] by (auto simp: W_def)
  note rest = cstr_rest [OF "2.prems"(2,3)]
  show ?case
  proof (cases "c = percent")
    case False
    then obtain qs where qs: "pieces f ap = Some qs" "ps = Lit c # qs" using "2.prems"(1) by auto
    define m1 where "m1 = m(buf + of_nat (length xs) := c)"
    have fit: "length (xs @ [c]) + length (render str qs) < 1024" "length xs + 1 < 1024"
      using "2.prems"(6) qs(2) by (simp_all add: render_def)
    have keep: "m1 a = m a" if "a \<notin> W" for a using put [OF _ that] fit(2) by (simp add: m1_def)
    have o: "out_buf m1 buf (xs @ [c])" unfolding m1_def by (rule out_buf_put [OF "2.prems"(5) fit(2)])
    have oks: "piece_ok m1 W str q" if "q \<in> set qs" for q
      using piece_ok_frame [OF "2.prems"(4) keep] that qs(2) by simp
    have "\<exists>n m'. sprintk_loop buf tmp (p + 1) ap (length (xs @ [c])) cnt m1 = kret n m' \<and>
        out_buf m' buf ((xs @ [c]) @ render str qs) \<and> (\<forall>a. a \<notin> W \<longrightarrow> m' a = m1 a)"
      by (rule "2.IH"(1) [OF False qs(1) rest(1) [OF keep] rest(2) [OF keep] oks o fit(1)])
    moreover have "sprintk_loop buf tmp p ap (length xs) cnt m =
        sprintk_loop buf tmp (p + 1) ap (Suc (length xs)) cnt m1"
      using "2.prems"(2) False by (subst sprintk_loop.simps) (simp add: m1_def)
    ultimately show ?thesis using keep qs(2) by (simp add: render_def)
  next
    case True
    then obtain d g where f: "f = d # g" using "2.prems"(1) by (auto split: list.splits)
    obtain pc qs ap' where qs: "pieces g ap' = Some qs" "ps = pc # qs"
      "(is_conv d \<and> (\<exists>a. ap = a # ap' \<and> pc = Conv d a)) \<or> (\<not> is_conv d \<and> ap' = ap \<and> pc = Lit d)"
      using "2.prems"(1) True f by (auto split: if_splits list.splits)
    have fit: "length (xs @ piece_text str pc) + length (render str qs) < 1024"
      using "2.prems"(6) qs(2) by (simp add: render_def)
    have ok: "piece_ok m W str pc" using "2.prems"(4) qs(2) by simp
    have "\<exists>n m1. conversion buf tmp d ap (length xs) cnt m = kret (ap', length (xs @ piece_text str pc), n) m1 \<and>
        out_buf m1 buf (xs @ piece_text str pc) \<and> (\<forall>a. a \<notin> W \<longrightarrow> m1 a = m a)"
      using qs(3)
    proof (elim disjE conjE exE)
      fix a assume "is_conv d" "ap = a # ap'" "pc = Conv d a"
      with conversion_writes [OF "2.prems"(5) sep, of d str a ap' cnt] ok fit show ?thesis
        by (simp add: W_def)
    next
      assume "\<not> is_conv d" "ap' = ap" "pc = Lit d"
      with out_buf_put [OF "2.prems"(5), of d] fit put show ?thesis
        by (simp add: conversion_def is_conv_def)
    qed
    then obtain n m1 where m1: "conversion buf tmp d ap (length xs) cnt m = kret (ap', length (xs @ piece_text str pc), n) m1"
        "out_buf m1 buf (xs @ piece_text str pc)" "\<And>a. a \<notin> W \<Longrightarrow> m1 a = m a" by blast
    have g: "cstr m1 (p + 2) g" "region (p + 2) (length g + 1) \<inter> W = {}"
      using cstr_rest [OF rest(1) [unfolded f, of m] rest(2) [unfolded f, of m] m1(3)] by (simp_all add: add.assoc)
    have oks: "piece_ok m1 W str q" if "q \<in> set qs" for q
      using piece_ok_frame [OF "2.prems"(4) m1(3)] that qs(2) by simp
    have "\<exists>n' m'. sprintk_loop buf tmp (p + 2) ap' (length (xs @ piece_text str pc)) n m1 = kret n' m' \<and>
        out_buf m' buf ((xs @ piece_text str pc) @ render str qs) \<and> (\<forall>a. a \<notin> W \<longrightarrow> m' a = m1 a)"
      using qs(3)
    proof (elim disjE conjE exE)
      fix a assume "is_conv d" "ap = a # ap'"
      with True show ?thesis
        using "2.IH"(2) [OF _ f _ _ qs(1) g oks m1(2) fit] by simp
    next
      assume "\<not> is_conv d" "ap' = ap"
      with True show ?thesis
        using "2.IH"(3) [OF _ f _ qs(1) [unfolded \<open>ap' = ap\<close>] g oks m1(2) fit] by simp
    qed
    moreover have "m p = percent" "m (p + 1) = d" using "2.prems"(2) True f by simp_all
    then have "sprintk_loop buf tmp p ap (length xs) cnt m =
        sprintk_loop buf tmp (p + 2) ap' (length (xs @ piece_text str pc)) n m1"
      using m1(1) by (subst sprintk_loop.simps) simp
    ultimately show ?thesis using m1(3) qs(2) by (simp add: render_def)
  qed
qed

lemma sprintk_renders:
  assumes sep: "region tmp 32 \<inter> region buf 1024 = {}" and ps: "pieces f ap = Some ps"
    and f: "cstr m fmt f" "region fmt (length f + 1) \<inter> (region buf 1024 \<union> region tmp 32) = {}"
    and ok: "\<forall>pc\<in>set ps. piece_ok m (region buf 1024 \<union> region tmp 32) str pc"
    and fit: "length (render str ps) < 1024"
  shows "\<exists>n m'. sprintk buf tmp fmt ap m = kret n m' \<and> out_buf m' buf (render str ps) \<and>
    (\<forall>a. a \<notin> region buf 1024 \<union> region tmp 32 \<longrightarrow> m' a = m a)"
proof -
  let ?W = "region buf 1024 \<union> region tmp 32" and ?m = "memset buf 0 1024 m"
  have z: "?m a = m a" if "a \<notin> ?W" for a using memset_fills(2) [of a buf 1024] that by simp
  have "out_buf ?m buf []" using memset_fills(1) [of buf 0 1024 m] by (simp add: out_buf_def)
  moreover have "cstr ?m fmt f" using f(1) by (rule cstr_frame) (use f(2) z in blast)
  moreover have "piece_ok ?m ?W str pc" if "pc \<in> set ps" for pc
    using ok that by (blast intro: piece_ok_frame z)
  ultimately show ?thesis
    using sprintk_loop_renders [OF sep ps _ f(2), of ?m str "[]" 0] fit z by (auto simp: sprintk_def)
qed

text \<open>The most negative integer is written as a minus sign and characters that are no digits.\<close>

lemma itoa_int_min:
  "bytes (itoa (i32 (- sint (0x80000000 :: uint))) tmp m) tmp
     [0x2E, 0x2F, 0x2C, 0x29, 0x2C, 0x28, 0x2D, 0x2A, 0x2C, 0x28, 0]"
proof -
  have "i32 (- sint (0x80000000 :: uint)) = - 2147483648" by (simp add: i32_def)
  moreover have "itoa_loop (- 2147483648) 0 tmp m = (10, m(tmp := 0x28, tmp + 1 := 0x2C, tmp + 2 := 0x2A,
      tmp + 3 := 0x2D, tmp + 4 := 0x28, tmp + 5 := 0x2C, tmp + 6 := 0x29, tmp + 7 := 0x2C, tmp + 8 := 0x2F, tmp + 9 := 0x2E))"
    by (simp add: itoa_loop.simps signed_divide_int_def signed_modulo_int_def)
  moreover define m2 where "m2 = m(tmp := 0x28, tmp + 1 := 0x2C, tmp + 2 := 0x2A, tmp + 3 := 0x2D,
      tmp + 4 := 0x28, tmp + 5 := 0x2C, tmp + 6 := 0x29, tmp + 7 := 0x2C, tmp + 8 := 0x2F, tmp + 9 := 0x2E, tmp + 10 := 0)"
  ultimately have e: "itoa (i32 (- sint (0x80000000 :: uint))) tmp m = reverse_loop 5 0 10 tmp m2"
    by (simp add: itoa_def Let_def)
  define xs :: "uchar list" where "xs = [0x28, 0x2C, 0x2A, 0x2D, 0x28, 0x2C, 0x29, 0x2C, 0x2F, 0x2E]"
  have xs: "length xs = 10" "10 div 2 = (5::nat)" by (simp_all add: xs_def)
  have "bytes m2 tmp xs" by (simp add: m2_def xs_def)
  then have "bytes (reverse_loop 5 0 10 tmp m2) tmp (rev xs)"
    using reverse_loop_bytes [of m2 tmp xs] unfolding xs by simp
  moreover have "reverse_loop 5 0 10 tmp m2 (tmp + 10) = 0"
    using region_end [of 10 tmp] by (subst reverse_loop_frame) (simp_all add: m2_def)
  ultimately have "bytes (reverse_loop 5 0 10 tmp m2) tmp (rev xs @ [0])"
    unfolding bytes_append by (simp add: xs)
  then show ?thesis unfolding e xs_def by simp
qed

end
