(* ===== verification/Segments.thy ===== *)
theory Segments
  imports Keyboard Kstdio_Correct
begin

text \<open>
  libs/mmu.h (segment and gate descriptors), src/segmm/gdt.c and src/segmm/idt.c: the descriptor
  tables of the processor, the interrupt controllers and the dispatch of interrupts. A bit field of
  \<open>w\<close> bits is a \<open>w word\<close>, and a store into it truncates.
\<close>

section \<open>Segment descriptors\<close>

record segdesc =
  lim_15_0 :: "16 word"
  base_15_0 :: "16 word"
  base_23_16 :: "8 word"
  sd_type :: "4 word"
  sd_s :: "1 word"
  sd_dpl :: "2 word"
  sd_p :: "1 word"
  lim_19_16 :: "4 word"
  sd_avl :: "1 word"
  sd_rsv1 :: "1 word"
  sd_db :: "1 word"
  sd_g :: "1 word"
  base_31_24 :: "8 word"

definition SEG :: "uint \<Rightarrow> uint \<Rightarrow> uint \<Rightarrow> uint \<Rightarrow> segdesc" where
  "SEG ty base lim dpl =
     \<lparr>lim_15_0 = ucast (drop_bit 12 lim AND 0xFFFF), base_15_0 = ucast (base AND 0xFFFF),
      base_23_16 = ucast (drop_bit 16 base AND 0xFF), sd_type = ucast ty, sd_s = 1, sd_dpl = ucast dpl, sd_p = 1,
      lim_19_16 = ucast (drop_bit 28 lim), sd_avl = 0, sd_rsv1 = 0, sd_db = 1, sd_g = 1,
      base_31_24 = ucast (drop_bit 24 base)\<rparr>"

definition SEG16 :: "uint \<Rightarrow> uint \<Rightarrow> uint \<Rightarrow> uint \<Rightarrow> segdesc" where
  "SEG16 ty base lim dpl =
     \<lparr>lim_15_0 = ucast (lim AND 0xFFFF), base_15_0 = ucast (base AND 0xFFFF),
      base_23_16 = ucast (drop_bit 16 base AND 0xFF), sd_type = ucast ty, sd_s = 1, sd_dpl = ucast dpl, sd_p = 1,
      lim_19_16 = ucast (drop_bit 16 lim), sd_avl = 0, sd_rsv1 = 0, sd_db = 1, sd_g = 0,
      base_31_24 = ucast (drop_bit 24 base)\<rparr>"

definition STA_X :: uint where "STA_X = 0x8"
definition STA_W :: uint where "STA_W = 0x2"
definition STA_R :: uint where "STA_R = 0x2"
definition DPL_KERNEL :: uint where "DPL_KERNEL = 0x0"
definition DPL_USER :: uint where "DPL_USER = 0x3"
definition SEG_KCODE :: nat where "SEG_KCODE = 1"
definition SEG_KDATA :: nat where "SEG_KDATA = 2"
definition SEG_UCODE :: nat where "SEG_UCODE = 3"
definition SEG_UDATA :: nat where "SEG_UDATA = 4"
definition NSEGS :: nat where "NSEGS = 6"

text \<open>The table register: limit and base. A descriptor has 8 bytes.\<close>

record dt_ptr =
  dt_limit :: ushort
  dt_base :: uint

definition init_gdt :: "uint \<Rightarrow> (nat \<Rightarrow> segdesc) \<Rightarrow> dt_ptr \<times> (nat \<Rightarrow> segdesc)" where
  "init_gdt table_addr gdt_table =
     (\<lparr>dt_limit = of_nat (8 * NSEGS - 1), dt_base = table_addr\<rparr>,
      gdt_table(0 := SEG 0 0 0 0,
        SEG_KCODE := SEG (STA_X OR STA_R) 0 0xFFFFFFFF DPL_KERNEL,
        SEG_KDATA := SEG STA_W 0 0xFFFFFFFF DPL_KERNEL,
        SEG_UCODE := SEG (STA_X OR STA_R) 0 0xFFFFFFFF DPL_USER,
        SEG_UDATA := SEG STA_W 0 0xFFFFFFFF DPL_USER))"

section \<open>Gate descriptors\<close>

record gatedesc =
  off_15_0 :: "16 word"
  gd_cs :: "16 word"
  gd_args :: "5 word"
  gd_rsv1 :: "3 word"
  gd_type :: "4 word"
  gd_s :: "1 word"
  gd_dpl :: "2 word"
  gd_p :: "1 word"
  off_31_16 :: "16 word"

definition STS_IG32 :: "4 word" where "STS_IG32 = 0xE"
definition STS_TG32 :: "4 word" where "STS_TG32 = 0xF"

definition SETGATE :: "nat \<Rightarrow> int \<Rightarrow> uint \<Rightarrow> uint \<Rightarrow> uint \<Rightarrow> (nat \<Rightarrow> gatedesc) \<Rightarrow> (nat \<Rightarrow> gatedesc)" where
  "SETGATE i istrap sel off d idt_table = idt_table(i :=
     \<lparr>off_15_0 = ucast (off AND 0xFFFF), gd_cs = ucast sel, gd_args = 0, gd_rsv1 = 0,
      gd_type = (if istrap \<noteq> 0 then STS_TG32 else STS_IG32), gd_s = 0, gd_dpl = ucast d, gd_p = 1,
      off_31_16 = ucast (drop_bit 16 off)\<rparr>)"

definition init_8259 :: "kst \<Rightarrow> kst" where
  "init_8259 s =
     (let s = outb 0x20 0x11 s; s = outb 0xA0 0x11 s;
          s = outb 0x21 0x20 s; s = outb 0xA1 0x28 s;
          s = outb 0x21 0x04 s; s = outb 0xA1 0x02 s;
          s = outb 0x21 0x01 s; s = outb 0xA1 0x01 s;
          s = outb 0x21 0x00 s
      in outb 0x21 0x00 s)"

text \<open>\<open>interrupt i\<close> is the address of the entry stub of interrupt \<open>i\<close> in src/segmm/intr.S.\<close>

definition init_gates :: "(nat \<Rightarrow> uint) \<Rightarrow> (nat \<Rightarrow> gatedesc) \<Rightarrow> (nat \<Rightarrow> gatedesc)" where
  "init_gates interrupt idt_table =
     SETGATE 255 1 STA_X (interrupt 255) DPL_USER
       (fold (\<lambda>i. SETGATE i 0 STA_X (interrupt i) DPL_KERNEL) [0..<48] idt_table)"

definition init_idt ::
    "uint \<Rightarrow> (nat \<Rightarrow> uint) \<Rightarrow> (nat \<Rightarrow> gatedesc) \<Rightarrow> kst \<Rightarrow> (dt_ptr \<times> (nat \<Rightarrow> gatedesc)) \<times> kst" where
  "init_idt table_addr interrupt idt_table s =
     (let s = init_8259 s
      in ((\<lparr>dt_limit = of_nat (8 * 256 - 1), dt_base = table_addr\<rparr>, init_gates interrupt idt_table), s))"

section \<open>Dispatch\<close>

text \<open>
  The handlers the kernel registers. \<open>byte\<close> is what the keyboard port delivers, \<open>pgf\<close> the page
  fault handler.
\<close>

record devices =
  kbd_ioq :: addr
  con_lck :: addr
  kbd_port :: uchar

definition run_handler ::
    "devices \<Rightarrow> nat \<Rightarrow> (kst \<Rightarrow> (unit, kst) run) \<Rightarrow> handler \<Rightarrow> kst \<Rightarrow> (unit, kst) run" where
  "run_handler dev n pgf h s =
     (case h of
        Timer_callback \<Rightarrow> timer_callback (printk (con_lck dev) n) s
      | Kbd_handler \<Rightarrow> kbd_handler (kbd_ioq dev) (printk (con_lck dev) n)
          (console_write (con_lck dev) (printk (con_lck dev) n)) (kbd_port dev) s
      | Page_fault \<Rightarrow> pgf s)"

definition unhandled_text :: "uint \<Rightarrow> uchar list" where
  "unhandled_text int_no = map of_char ''Unhandled interrupt: '' @ signed_text int_no @ [0x0A]"

definition send_eoi :: "uint \<Rightarrow> kst \<Rightarrow> kst" where
  "send_eoi int_no s =
     (if int_no \<ge> 32 then
        let s = (if int_no \<ge> 40 then outb 0xA0 0x20 s else s) in outb 0x20 0x20 s
      else s)"

definition interrupt_handler ::
    "devices \<Rightarrow> nat \<Rightarrow> (kst \<Rightarrow> (unit, kst) run) \<Rightarrow> uint \<Rightarrow> kst \<Rightarrow> (unit, kst) run" where
  "interrupt_handler dev n pgf int_no s =
     (let s = send_eoi int_no s in
      kbind (kguard (unat int_no < 256) ''interrupt_handlers'' s) (\<lambda>_ s.
        case interrupt_handlers s (unat int_no) of
          Some h \<Rightarrow> run_handler dev n pgf h s
        | None \<Rightarrow> printk_color (con_lck dev) n 1 0 (unhandled_text int_no) s))"

section \<open>What the processor reads\<close>

text \<open>
  The base and the last byte of a segment, and the entry point of a gate, put together from the
  fields as the processor does it.
\<close>

definition seg_base :: "segdesc \<Rightarrow> uint" where
  "seg_base d = push_bit 24 (ucast (base_31_24 d)) OR push_bit 16 (ucast (base_23_16 d)) OR ucast (base_15_0 d)"

definition seg_last :: "segdesc \<Rightarrow> uint" where
  "seg_last d =
     (let lim = push_bit 16 (ucast (lim_19_16 d)) OR ucast (lim_15_0 d)
      in if sd_g d = 1 then push_bit 12 lim OR 0xFFF else lim)"

definition gate_entry :: "gatedesc \<Rightarrow> uint" where
  "gate_entry g = push_bit 16 (ucast (off_31_16 g)) OR ucast (off_15_0 g)"

lemma and_masks:
  "x AND 0xFF = take_bit 8 x" "x AND 0xFFF = take_bit 12 x" "x AND 0xFFFF = take_bit 16 x" for x :: uint
  by (simp_all add: take_bit_eq_mask mask_eq_exp_minus_1)

lemmas bit_rules = bit_or_iff bit_push_bit_iff bit_unsigned_iff bit_drop_bit_eq bit_take_bit_iff

lemma SEG_base: "seg_base (SEG ty base lim dpl) = base"
proof (rule bit_word_eqI)
  fix n assume "n < LENGTH(32)"
  then consider "n < 16" | "16 \<le> n" "n < 24" | "24 \<le> n" "n < 32" by force
  then show "bit (seg_base (SEG ty base lim dpl)) n = bit base n"
    by cases (auto simp: seg_base_def SEG_def and_masks bit_rules)
qed

lemma bit_4095: "bit (0xFFF :: int) n \<longleftrightarrow> n < 12"
  using bit_mask_iff [of 12 n, where ?'a = int] by (simp add: mask_eq_exp_minus_1)

lemma SEG_last: "seg_last (SEG ty base lim dpl) = lim OR 0xFFF"
proof (rule bit_word_eqI)
  fix n assume "n < LENGTH(32)"
  then consider "n < 12" | "12 \<le> n" "n < 28" | "28 \<le> n" "n < 32" by force
  then show "bit (seg_last (SEG ty base lim dpl)) n = bit (lim OR 0xFFF) n"
    by cases (auto simp: seg_last_def SEG_def and_masks bit_rules bit_4095 Let_def)
qed

lemma SETGATE_entry: "gate_entry (SETGATE i istrap sel off d t i) = off"
proof (rule bit_word_eqI)
  fix n assume "n < LENGTH(32)"
  then consider "n < 16" | "16 \<le> n" "n < 32" by force
  then show "bit (gate_entry (SETGATE i istrap sel off d t i)) n = bit off n"
    by cases (auto simp: gate_entry_def SETGATE_def and_masks bit_rules)
qed

section \<open>The tables after start-up\<close>

text \<open>A segment that spans the whole address space, and a gate to a kernel entry.\<close>

definition flat :: "segdesc \<Rightarrow> uint \<Rightarrow> uint \<Rightarrow> bool" where
  "flat d ty dpl \<longleftrightarrow> seg_base d = 0 \<and> seg_last d = 0xFFFFFFFF \<and> sd_p d = 1 \<and> sd_s d = 1 \<and> sd_db d = 1 \<and>
     sd_type d = ucast ty \<and> sd_dpl d = ucast dpl"

definition kernel_gate :: "gatedesc \<Rightarrow> uint \<Rightarrow> 4 word \<Rightarrow> 2 word \<Rightarrow> bool" where
  "kernel_gate g off ty dpl \<longleftrightarrow> gate_entry g = off \<and> unat (gd_cs g) = 8 * SEG_KCODE \<and> gd_type g = ty \<and>
     gd_dpl g = dpl \<and> gd_p g = 1 \<and> gd_s g = 0"

lemma SEG_flat: "flat (SEG ty 0 0xFFFFFFFF dpl) ty dpl"
proof -
  have "seg_last (SEG ty 0 0xFFFFFFFF dpl) = 0xFFFFFFFF" unfolding SEG_last by simp
  then show ?thesis by (simp add: flat_def SEG_base) (simp add: SEG_def)
qed

lemma init_gdt_flat:
  assumes "init_gdt a t = (ptr, gdt)"
  shows "flat (gdt SEG_KCODE) (STA_X OR STA_R) DPL_KERNEL" "flat (gdt SEG_KDATA) STA_W DPL_KERNEL"
    "flat (gdt SEG_UCODE) (STA_X OR STA_R) DPL_USER" "flat (gdt SEG_UDATA) STA_W DPL_USER"
    "dt_base ptr = a" "unat (dt_limit ptr) + 1 = 8 * NSEGS"
  using assms SEG_flat
  by (auto simp: init_gdt_def SEG_KCODE_def SEG_KDATA_def SEG_UCODE_def SEG_UDATA_def NSEGS_def)

lemma SETGATE_kernel:
  "kernel_gate (SETGATE i istrap STA_X off d t i) off (if istrap \<noteq> 0 then STS_TG32 else STS_IG32) (ucast d)"
  unfolding kernel_gate_def SETGATE_entry by (simp add: SETGATE_def STA_X_def SEG_KCODE_def)

lemma gates_fold:
  "fold (\<lambda>i. SETGATE i tr sel (off i) d) [0..<n] t j =
     (if j < n then SETGATE j tr sel (off j) d t j else t j)"
  by (induction n) (auto simp: SETGATE_def)

lemma init_gates_kernel:
  "j < 48 \<Longrightarrow> kernel_gate (init_gates interrupt t j) (interrupt j) STS_IG32 0"
  "kernel_gate (init_gates interrupt t 255) (interrupt 255) STS_TG32 3"
  "48 \<le> j \<Longrightarrow> j \<noteq> 255 \<Longrightarrow> init_gates interrupt t j = t j"
proof -
  have other: "init_gates interrupt t j = fold (\<lambda>i. SETGATE i 0 STA_X (interrupt i) DPL_KERNEL) [0..<48] t j"
    if "j \<noteq> 255" for j using that by (simp add: init_gates_def SETGATE_def del: upt_rec_numeral)
  show "kernel_gate (init_gates interrupt t j) (interrupt j) STS_IG32 0" if "j < 48"
    using that SETGATE_kernel [of j 0 "interrupt j" DPL_KERNEL t]
    by (simp add: other gates_fold DPL_KERNEL_def del: upt_rec_numeral)
  show "kernel_gate (init_gates interrupt t 255) (interrupt 255) STS_TG32 3"
    using SETGATE_kernel [of 255 1 "interrupt 255" DPL_USER]
    by (simp add: init_gates_def DPL_USER_def del: upt_rec_numeral)
  show "init_gates interrupt t j = t j" if "48 \<le> j" "j \<noteq> 255"
    using that by (simp add: other gates_fold del: upt_rec_numeral)
qed

section \<open>Interrupts reach their handlers\<close>

lemma interrupt_registered:
  assumes "interrupt_handlers s (unat int_no) = Some h" "unat int_no < 256"
  shows "interrupt_handler dev n pgf int_no s = run_handler dev n pgf h (send_eoi int_no s)"
  using assms by (simp add: interrupt_handler_def send_eoi_def Let_def outb_def)

lemma interrupt_unregistered:
  assumes "interrupt_handlers s (unat int_no) = None" "unat int_no < 256"
  shows "interrupt_handler dev n pgf int_no s =
    printk_color (con_lck dev) n 1 0 (unhandled_text int_no) (send_eoi int_no s)"
  using assms by (simp add: interrupt_handler_def send_eoi_def Let_def outb_def)

text \<open>The acknowledgements of the two controllers.\<close>

lemma send_eoi_ports:
  "ports (send_eoi int_no s) = ports s @
     (if int_no < 32 then [] else if int_no < 40 then [(0x20, 0x20)] else [(0xA0, 0x20), (0x20, 0x20)])"
  by (auto simp: send_eoi_def outb_def Let_def)

lemma send_eoi_same [simp]:
  "same_threads s (send_eoi i s)" "kbd_buf (send_eoi i s) = kbd_buf s" "unlocked l (send_eoi i s) = unlocked l s"
  "current (send_eoi i s) = current s" "interrupt_handlers (send_eoi i s) = interrupt_handlers s"
  by (auto simp: send_eoi_def outb_def Let_def same_threads_def unlocked_def)

text \<open>After the drivers are set up.\<close>

lemma drivers_registered:
  assumes "init_timer freq s = kret () t"
  shows "interrupt_handlers (init_kbd ioq t) 32 = Some Timer_callback"
    "interrupt_handlers (init_kbd ioq t) 33 = Some Kbd_handler"
    "j \<notin> {32, 33} \<Longrightarrow> interrupt_handlers (init_kbd ioq t) j = interrupt_handlers s j"
  using assms
  by (auto simp: init_timer_def init_kbd_def register_interrupt_handler_def ioqueue_init_def lock_init_def
      sema_init_def set_sem_def set_holder_def set_repeat_def upd_ioq_def outb_def Let_def kbind_eq_kret
      kguard_def split: if_splits)

end
