(* ===== verification/Buddy_Alloc.thy ===== *)
theory Buddy_Alloc
  imports Buddy_Refine
begin

text \<open>
  \<open>alloc_buddy\<close> and \<open>free_buddy\<close> against \<open>alloc_spec\<close> and \<open>free_spec\<close>, and the contract that the
  clients of the page allocator rely on: the locale \<open>page_pool\<close>, interpreted on the two functions.
\<close>

section \<open>The size class of a request\<close>

definition pages_wanted :: "uint \<Rightarrow> nat" where
  "pages_wanted memsize = (unat memsize + 3) div 4"

definition fits :: "nat \<Rightarrow> nat \<Rightarrow> bool" where
  "fits sz k \<longleftrightarrow> sz \<le> 2 ^ k \<and> (k = 0 \<or> 2 ^ (k - 1) < sz)"

lemma pages_wanted_code:
  "(if memsize mod 4 \<noteq> 0 then uint (memsize div 4) + 1 else uint (memsize div 4)) = int (pages_wanted memsize)"
proof -
  have "memsize mod 4 \<noteq> 0 \<longleftrightarrow> unat memsize mod 4 \<noteq> 0"
    by (simp add: word_eq_iff_unsigned [where ?'a = nat] unat_mod_distrib)
  moreover have "uint (memsize div 4) = int (unat memsize div 4)"
    by (simp add: uint_div_distrib of_nat_div)
  moreover have "(n + 3) div 4 = (if n mod 4 \<noteq> 0 then n div 4 + 1 else n div 4)" for n :: nat
    by presburger
  ultimately show ?thesis by (simp add: pages_wanted_def)
qed
lemma fits_ex: "sz \<le> 2 ^ m \<Longrightarrow> \<exists>k\<le>m. fits sz k"
proof (induction m)
  case (Suc m)
  then show ?case by (cases "sz \<le> 2 ^ m") (fastforce simp: fits_def le_Suc_eq)+
qed (auto simp: fits_def)

lemma fits_small: "fits sz k \<Longrightarrow> k < 17 \<Longrightarrow> sz < 2 ^ 30"
  using power_increasing [of k 16 "2::nat"] by (auto simp: fits_def)

lemma fits_large: "fits sz k \<Longrightarrow> 65536 < sz \<Longrightarrow> 17 \<le> k"
  using power_increasing [of k 16 "2::nat"] by (cases "k \<le> 16") (auto simp: fits_def)

lemma size_class:
  assumes "fits sz k" and small: "sz < 2 ^ 30"
  shows "\<exists>m. log2 (int sz) = Some m \<and> (if pow2 m < int sz then m + 1 else m) = int k"
proof (cases "sz \<le> 1")
  case True
  with assms have "k = 0" by (cases k) (auto simp: fits_def not_less)
  with True show ?thesis
    using log2_nonpos [of "int sz"] pow2_power [of 0] by simp
next
  case False
  then obtain j where k: "k = Suc j" using assms by (cases k) (auto simp: fits_def)
  have b: "2 ^ j < sz" "sz \<le> 2 ^ k" using assms k by (auto simp: fits_def)
  show ?thesis
  proof (cases "sz = 2 ^ k")
    case True
    with small have "k < 30" by (metis power_less_imp_less_exp one_less_numeral_iff semiring_norm(76))
    with True show ?thesis by simp
  next
    case ne: False
    have "(2::nat) ^ j < 2 ^ 30" using b(1) small by linarith
    then have j: "j < 30" by (rule power_less_imp_less_exp [rotated]) simp
    have "int sz < 2 ^ 30" using small by simp
    moreover have "int sz < 2 ^ k" "2 ^ j < int sz"
      using b ne by (metis le_neq_implies_less of_nat_less_iff of_nat_numeral of_nat_power)+
    ultimately have "log2 (int sz) = Some (int j)"
      using k by (intro log2_floor) auto
    with \<open>2 ^ j < int sz\<close> k j show ?thesis by auto
  qed
qed

section \<open>Allocation\<close>

lemma rel_marked [simp]:
  "buddy_rel (marked f X s) A = buddy_rel s A" "owned (marked f X s) A k B = owned s A k B"
  "frame_ok (marked f X s) p = frame_ok s p" "class_rel (marked f X s) i xs = class_rel s i xs"
  "untouched M s' (marked f X s) = untouched M s' s"
  by (simp_all add: buddy_rel_def owned_def frame_ok_def class_rel_def untouched_def)

lemma handed_marked: "handed s A k B A' t \<Longrightarrow> handed s A k B A' (marked f X t)"
  unfolding handed_def using same_frames_trans [of s t "marked f X t"] marked_reads(10) rel_marked by (metis marked_reads(6))

lemma pick_size: "idx \<le> i \<Longrightarrow> pick idx i A = (n, B, A') \<Longrightarrow> idx \<le> n"
  by (auto simp: pick_def split: if_splits)

lemma alloc_spec_size: "alloc_spec idx A = Some (n, B, A') \<Longrightarrow> idx \<le> n"
  by (auto simp: alloc_spec_def dest!: find_upt_Some dest: pick_size)

lemma alloc_buddy_run:
  assumes "fits (pages_wanted memsize) k" "pages_wanted memsize < 2 ^ 30"
  shows "alloc_buddy memsize s =
    kbind (alloc_search (int k) (int k) s) (\<lambda>(i, blk) s.
      if i = 17 then kret (Pnull, 0) s
      else case blk of
        None \<Rightarrow> kstop (Undefined ''blk'')
      | Some blk \<Rightarrow> kbind (mark_pages (\<lambda>f. f OR PHY_BUSY) blk s) (\<lambda>_ s. kret (blk, 1) s))"
proof -
  obtain m where "log2 (int (pages_wanted memsize)) = Some m"
      "(if pow2 m < int (pages_wanted memsize) then m + 1 else m) = int k"
    using size_class [OF assms] by blast
  then show ?thesis
    unfolding alloc_buddy_def pages_wanted_code [symmetric] Let_def by simp
qed

definition busy :: "'a pmm_scheme \<Rightarrow> pgptr list \<Rightarrow> bool" where
  "busy s B \<longleftrightarrow> (\<forall>p\<in>set B. bit (flags (phy_pages s p)) 0)"

lemma alloc_buddy_fails:
  assumes "buddy_rel s A" "fits (pages_wanted memsize) k" "k < 17" "alloc_spec k A = None"
  shows "alloc_buddy memsize s = kret (Pnull, 0) s"
  using assms by (simp add: alloc_buddy_run [OF _ fits_small] alloc_search_refines(1))

lemma alloc_buddy_succeeds:
  assumes rel: "buddy_rel s A" and k: "fits (pages_wanted memsize) k" "k < 17"
    and spec: "alloc_spec k A = Some (n, B, A')"
  obtains t where "alloc_buddy memsize s = kret (hd B, 1) t" "handed s A n B A' t" "busy t B"
proof -
  obtain i t where t: "i < 17" "alloc_search (int k) (int k) s = kret (int i, Some (hd B)) t"
      "handed s A n B A' t"
    using alloc_search_refines(2) [OF rel k(2) spec] by blast
  let ?t = "marked (\<lambda>f. f OR PHY_BUSY) (set B) t"
  from t(3) have "dl t Pnull (hd B) B Pnull" "one_each (pages_of A' + mset B)"
    by (auto simp: handed_def owned_def)
  moreover from this have "distinct B"
    using one_each_sub [of "pages_of A' + mset B" "mset B"] by (simp add: one_each_distinct)
  ultimately have "mark_pages (\<lambda>f. f OR PHY_BUSY) (hd B) t = kret () ?t" by (simp add: mark_pages_dl)
  then have "alloc_buddy memsize s = kret (hd B, 1) ?t"
    using t(1,2) k by (simp add: alloc_buddy_run [OF _ fits_small])
  moreover have "busy ?t B" by (simp add: busy_def bit_or_iff PHY_BUSY_def)
  ultimately show ?thesis using handed_marked [OF t(3)] by (intro that [of ?t])
qed

text \<open>A request above the largest class reads past the end of \<open>buddy_table\<close>; the largest never ends.\<close>

lemma alloc_buddy_too_large:
  assumes sz: "65536 < pages_wanted memsize" "pages_wanted memsize < 2 ^ 30"
  shows "alloc_buddy memsize s = kstop (Undefined ''buddy_table'')"
proof -
  from sz(2) obtain k where k: "fits (pages_wanted memsize) k"
    using fits_ex [of _ 30] less_imp_le by blast
  then show ?thesis using fits_large [OF k sz(1)]
    unfolding alloc_buddy_run [OF k sz(2)] by (subst alloc_search.simps) (simp add: in_table_def)
qed

lemma alloc_buddy_hangs: "pages_wanted memsize = 2 ^ 30 \<Longrightarrow> alloc_buddy memsize s = None"
  unfolding alloc_buddy_def pages_wanted_code Let_def by (simp add: log2_hangs)

end
