(* ===== verification/Buddy_Free.thy ===== *)
theory Buddy_Free
  imports Buddy_Alloc
begin

text \<open>
  \<open>free_buddy\<close> refines \<open>free_spec\<close>: the freed block is joined with the first block of its class,
  whatever that block is, then with the first block of the next class, and so on until a class
  is empty. The walk never runs past the last class, because the machine has fewer than
  \<open>2 ^ 17\<close> frames.
\<close>

section \<open>The specification\<close>

text \<open>\<open>hi p k\<close> says that the block at \<open>p\<close> is put behind the freed one when class \<open>k\<close> is merged.\<close>

function free_spec :: "(pgptr \<Rightarrow> nat \<Rightarrow> bool) \<Rightarrow> nat \<Rightarrow> pgptr list \<Rightarrow> blocks \<Rightarrow> blocks" where
  "free_spec hi k B A =
     (if k < 17 \<and> A k \<noteq> [] then
        let C = take (2 ^ k) (A k)
        in free_spec hi (Suc k) (if hi (hd C) k then B @ C else C @ B) (A(k := drop (2 ^ k) (A k)))
      else A(k := B))"
  by pat_completeness auto
termination
  by (relation "measure (\<lambda>(hi, k, B, A). 17 - k)") auto

declare free_spec.simps [simp del]

definition high_bit :: "'a pmm_scheme \<Rightarrow> pgptr \<Rightarrow> nat \<Rightarrow> bool" where
  "high_bit s p k \<longleftrightarrow> bit (start_addr (phy_pages s p)) (k + 13)"

section \<open>One merge\<close>

lemma upd_lst_commute:
  "upd_next p v (upd_lst i l s) = upd_lst i l (upd_next p v s)"
  "upd_prev p v (upd_lst i l s) = upd_lst i l (upd_prev p v s)"
  by (simp_all add: upd_lst_def upd_next_def upd_prev_def upd_page_def)

lemma is_buddy_any: "1 < a \<Longrightarrow> is_buddy a b m"
proof -
  assume "1 < a"
  then have "a \<noteq> 0" "a \<noteq> 1" by auto
  moreover have "a = 1" if "a XOR 1 = 0"
    using arg_cong [OF that, of "\<lambda>x. x XOR 1"] by (simp add: xor.assoc)
  ultimately show ?thesis by (auto simp: is_buddy_def)
qed

text \<open>\<open>FindBuddy\<close> takes the first block of the class, if there is one.\<close>

lemma FindBuddy_empty:
  assumes "class_rel s i []" and "i < 17"
  shows "FindBuddy b (int i) s = kret Pnull s"
proof -
  from assms have "num s (int i) = 0" by (simp add: class_rel_def)
  with assms(2) show ?thesis
    by (simp add: FindBuddy_def in_table_def Let_def find_buddy_loop.simps)
qed

lemma FindBuddy_first:
  assumes c: "class_rel s i xs" and ne: "xs \<noteq> []" and i: "i < 17"
    and ok: "1 < start_addr (phy_pages s (hd xs))"
  shows "FindBuddy b (int i) s = (let (p, t) = take_first_blk (int i) s in kret p t)"
proof -
  define p where "p = adv (nxt s) 0 (pow2 (int i)) (lst s (int i))"
  have h: "lst s (int i) = hd xs" using c ne by (auto simp: class_rel_def dest: dl_head)
  have n: "1 \<le> num s (int i)" and "2 ^ i \<le> length xs" using class_rel_len [OF c ne] by auto
  then have "length (take (2 ^ i) xs) = 2 ^ i" by simp
  moreover obtain m where m: "dl s Pnull (lst s (int i)) (take (2 ^ i) xs) m"
      "dl s (last (Pnull # take (2 ^ i) xs)) m (drop (2 ^ i) xs) Pnull"
    using c by (metis append_take_drop_id class_rel_def dl_append)
  ultimately have "p = m" using i by (auto simp: p_def intro!: adv_dl)
  then have p: "p = Pnull \<longleftrightarrow> \<not> num s (int i) > 1"
    using dl_null_iff [OF m(2)] class_rel_single [OF c ne] by auto
  have "0 < num s (int i) * pow2 (int i)" using n i by simp
  moreover have "is_buddy (start_addr (phy_pages s (lst s (int i)))) a m" for a m
    using ok h is_buddy_any by simp
  ultimately have "find_buddy_loop b (int i) msk (pow2 (int i)) 0 (lst s (int i)) s =
      (lst s (int i), if p = Pnull then upd_num (int i) (num s (int i) - 1) (upd_lst (int i) Pnull s)
        else upd_num (int i) (num s (int i) - 1)
          (upd_lst (int i) p (upd_prev p Pnull (upd_next (prv s p) Pnull s))))" for msk
    by (subst find_buddy_loop.simps) (simp add: p_def [symmetric] Let_def)
  then show ?thesis
    using p i unfolding FindBuddy_def take_first_blk_def Let_def p_def [symmetric]
    by (simp add: in_table_def upd_lst_commute)
qed

lemma BlendBlk_joins:
  fixes k :: nat
  assumes d: "dl s Pnull (hd C) C Pnull" "dl s Pnull (hd B) B Pnull"
    and dist: "distinct (B @ C)" and ne: "B \<noteq> []" "C \<noteq> []"
  defines "J \<equiv> (if high_bit s (hd C) k then B @ C else C @ B)"
  obtains t where "BlendBlk (hd C) (hd B) (int k + 1) s = kret (hd J) t" "dl t Pnull (hd J) J Pnull"
    "\<And>x. x \<notin> set (B @ C) \<Longrightarrow> nxt t x = nxt s x \<and> prv t x = prv s x"
    "\<And>i. lst t i = lst s i \<and> num t i = num s i" "same_frames s t" "klog t = klog s"
proof -
  define X Y where XY: "X = (if high_bit s (hd C) k then B else C)"
    "Y = (if high_bit s (hd C) k then C else B)"
  have J: "J = X @ Y" "hd J = hd X" using ne by (auto simp: J_def XY)
  have X: "dl s Pnull (hd X) X Pnull" "dl s Pnull (hd Y) Y Pnull" "X \<noteq> []" "Y \<noteq> []"
      "distinct (X @ Y)" "set (X @ Y) = set (B @ C)"
    using d ne dist by (auto simp: XY)
  define t where "t = upd_prev (hd Y) (last X) (upd_next (last X) (hd Y) s)"
  have "hd C \<noteq> Pnull" "hd B \<noteq> Pnull" using d ne by (auto dest: dl_head)
  moreover have "nat (int k + 1 + 12) = k + 13" by simp
  moreover have "tail_of (nxt s) (hd X) = Some (last X)" using X by (auto intro: tail_of_dl)
  ultimately have "BlendBlk (hd C) (hd B) (int k + 1) s = kret (hd J) t"
    unfolding J(2) t_def
    by (simp add: BlendBlk_def Let_def XY high_bit_def bit_iff_and_push_bit_not_eq_0 split: if_splits)
  moreover have "dl t Pnull (hd J) J Pnull"
    unfolding J(2) unfolding J(1) by (rule dl_join [OF X(1,2,3,4,5)]) (auto simp: t_def)
  moreover have "nxt t x = nxt s x \<and> prv t x = prv s x" if "x \<notin> set (B @ C)" for x
    using that X(3,4) unfolding X(6) [symmetric] t_def by auto
  moreover have "klog t = klog s"
    by (simp add: t_def upd_prev_def upd_next_def upd_page_def)
  ultimately show ?thesis by (intro that [of t]) (auto simp: t_def)
qed

text \<open>A page of a held block is in no free list.\<close>

lemma one_each_apart: "one_each (M + mset B) \<Longrightarrow> x \<in> set B \<Longrightarrow> x \<notin># M"
proof
  assume "one_each (M + mset B)" "x \<in> set B" "x \<in># M"
  then have "count M x + count (mset B) x \<le> 1" "0 < count M x" "0 < count (mset B) x"
    by (auto simp: one_each_def)
  then show False by linarith
qed

lemma owned_apart: "owned s A k B \<Longrightarrow> x \<in> set B \<Longrightarrow> j < 17 \<Longrightarrow> x \<notin> set (A j)"
  using pages_ofI one_each_apart by (fastforce simp: owned_def)

text \<open>The state between two rounds: the allocator's lists and the block that is being freed.\<close>

definition freeing :: "'a pmm_scheme \<Rightarrow> blocks \<Rightarrow> nat \<Rightarrow> pgptr list \<Rightarrow> 'a pmm_scheme \<Rightarrow> bool" where
  "freeing s A k B t \<longleftrightarrow> buddy_rel t A \<and> owned t A k B \<and> same_frames s t \<and> klog t = klog s"

lemma merge_step:
  assumes st: "freeing s0 A k B s" and k: "k < 17" and ne: "A k \<noteq> []"
  defines "C \<equiv> take (2 ^ k) (A k)" and "A' \<equiv> A(k := drop (2 ^ k) (A k))"
  defines "J \<equiv> (if high_bit s0 (hd C) k then B @ C else C @ B)"
  obtains u t where "FindBuddy (hd B) (int k) s = kret (hd C) u" "hd C \<noteq> Pnull"
    "BlendBlk (hd C) (hd B) (int k + 1) u = kret (hd J) t" "freeing s0 A' (Suc k) J t"
    "pages_of A + mset B = pages_of A' + mset J" "untouched (pages_of A + mset B) s t"
proof -
  have rel: "buddy_rel s A" and own: "owned s A k B" and fr: "same_frames s0 s" "klog s = klog s0"
    using st by (auto simp: freeing_def)
  obtain u where u: "take_first_blk (int k) s = (hd C, u)" "handed s A k C A' u"
      "\<And>x. x \<notin> set (A k) \<Longrightarrow> nxt u x = nxt s x \<and> prv u x = prv s x"
    using first_block_handed [OF rel k ne] unfolding C_def A'_def by metis
  have u': "buddy_rel u A'" "owned u A' k C" "pages_of A = pages_of A' + mset C" "same_frames s u"
      "klog u = klog s" "untouched (pages_of A) s u"
    using u(2) unfolding handed_def by blast+
  have C: "dl u Pnull (hd C) C Pnull" "length C = 2 ^ k" "C \<noteq> []" "hd C = hd (A k)"
    using u'(2) ne by (auto simp: owned_def C_def)
  have B: "dl s Pnull (hd B) B Pnull" "length B = 2 ^ k" "B \<noteq> []" "one_each (pages_of A + mset B)"
    using own by (auto simp: owned_def)
  have "one_each (pages_of A' + mset (B @ C))"
    using B(4) u'(3) by (simp add: ac_simps)
  then have one: "one_each (pages_of A' + mset J)" by (simp add: J_def ac_simps)
  have dist: "distinct (B @ C)"
    using one_each_sub [OF one, of "mset (B @ C)"] by (simp add: J_def one_each_distinct [symmetric] ac_simps)
  note notA = owned_apart [OF own]
  have "dl u Pnull (hd B) B Pnull"
    using B(1) by (rule dl_frame) (use u(3) notA k in auto)
  then obtain t where t: "BlendBlk (hd C) (hd B) (int k + 1) u = kret (hd J) t" "dl t Pnull (hd J) J Pnull"
    "\<And>x. x \<notin> set (B @ C) \<Longrightarrow> nxt t x = nxt u x \<and> prv t x = prv u x"
    "\<And>i. lst t i = lst u i \<and> num t i = num u i" "same_frames u t" "klog t = klog u"
    using BlendBlk_joins [OF C(1) _ dist B(3) C(3), where k = k] fr(1) u'(4)
    unfolding J_def high_bit_def same_frames_def by metis
  have "class_rel t j (A' j)" if "j < 17" for j
  proof (rule class_rel_frame [of u])
    show "class_rel u j (A' j)" using u'(1) that by (simp add: buddy_rel_def)
    have "set (A' j) \<subseteq> set (A j)" by (auto simp: A'_def dest: in_set_dropD)
    then have "x \<notin> set (B @ C)" if "x \<in> set (A' j)" for x
      using notA \<open>j < 17\<close> that owned_apart [OF u'(2) _ \<open>j < 17\<close>] by auto
    then show "nxt t x = nxt u x \<and> prv t x = prv u x" if "x \<in> set (A' j)" for x
      using t(3) that by blast
  qed (simp_all add: t(4))
  moreover have frt: "same_frames s t" using u'(4) t(5) by (rule same_frames_trans)
  moreover have "frame_ok t p" if "p \<in># pages_of A' + mset J" for p
    using that rel own u'(3) frt
    by (auto simp: J_def buddy_rel_def owned_def frame_ok_same split: if_splits)
  moreover have "one_each (pages_of A')" using one by (rule one_each_sub) simp
  moreover have "length J = 2 ^ Suc k" using B(2) C(2) by (simp add: J_def)
  moreover have "phy_page_num t < 131072" using rel frt by (simp add: buddy_rel_def same_frames_def)
  ultimately have "freeing s0 A' (Suc k) J t"
    using t(2,6) one same_frames_trans [OF fr(1) frt] fr(2) u'(5)
    by (simp add: freeing_def buddy_rel_def owned_def)
  moreover have "FindBuddy (hd B) (int k) s = kret (hd C) u"
    using FindBuddy_first [OF buddy_relD(1) [OF rel k] ne k] u(1) buddy_relD(4) [OF rel k] ne
    by (simp add: frame_ok_def)
  moreover have "pages_of A + mset B = pages_of A' + mset J"
    using u'(3) by (simp add: J_def ac_simps)
  moreover have "untouched (pages_of A + mset B) s t"
    using u'(6) t(3) unfolding untouched_def u'(3) by (simp add: ac_simps)
  ultimately show ?thesis using t(1) dl_head [OF C(1,3)] by (intro that [of u t]) auto
qed

text \<open>All frames are below \<open>phy_page_num\<close>, so there are fewer than \<open>2 ^ 17\<close> of them.\<close>

lemma pool_bound:
  assumes "one_each M" "\<And>p. p \<in># M \<Longrightarrow> frame_ok s p" "phy_page_num s < 131072"
  shows "size M < 131072"
proof -
  have "set_mset M \<subseteq> PG ` {..<nat (phy_page_num s)}"
    using assms(2) by (force simp: frame_ok_def)
  then have "card (set_mset M) \<le> card (PG ` {..<nat (phy_page_num s)})" by (intro card_mono) auto
  also have "\<dots> \<le> nat (phy_page_num s)" using card_image_le [of "{..<nat (phy_page_num s)}" PG] by simp
  also have "\<dots> < 131072" using assms(3) by simp
  finally have "card (set_mset M) < 131072" .
  moreover obtain xs where "M = mset xs" using ex_mset by metis
  with assms(1) have "size M = card (set_mset M)"
    by (simp add: one_each_distinct distinct_card)
  ultimately show ?thesis by simp
qed

lemma last_class_free:
  assumes "freeing s0 A 16 B s"
  shows "A 16 = []"
proof (rule ccontr)
  assume ne: "A 16 \<noteq> []"
  have rel: "buddy_rel s A" and own: "owned s A 16 B" using assms by (auto simp: freeing_def)
  have "size (pages_of A + mset B) < 131072"
    using rel own by (intro pool_bound [of _ s]) (auto simp: owned_def buddy_rel_def)
  moreover have "2 ^ 16 \<le> length (A 16)" using class_rel_len(1) [OF buddy_relD(1) [OF rel] ne] by simp
  moreover have "length (A 16) \<le> size (pages_of A)"
    using size_mset_mono [OF class_sub_pages [of 16 A]] by simp
  ultimately show False using own by (simp add: owned_def)
qed

lemma blend_loop_refines:
  assumes "freeing s0 A k B s" and "k < 17"
  shows "\<exists>m B' A' t. m < 17 \<and> A' m = [] \<and> freeing s0 A' m B' t \<and>
    kbind (FindBuddy (hd B) (int k) s) (\<lambda>b s. blend_loop b (hd B) (int k) s) = kret (hd B', int m) t \<and>
    free_spec (high_bit s0) k B A = A'(m := B') \<and>
    pages_of A + mset B = pages_of A' + mset B' \<and> untouched (pages_of A + mset B) s t"
  using assms
proof (induction "16 - k" arbitrary: A k B s)
  case 0
  then have "k = 16" by simp
  with 0 have e: "A k = []" using last_class_free by auto
  have "FindBuddy (hd B) (int k) s = kret Pnull s"
    using 0 e by (intro FindBuddy_empty) (auto simp: freeing_def buddy_rel_def)
  then show ?case
    using 0 e by (intro exI [of _ k] exI [of _ B] exI [of _ A] exI [of _ s])
      (simp add: blend_loop.simps free_spec.simps untouched_def)
next
  case (Suc d)
  show ?case
  proof (cases "A k = []")
    case True
    have "FindBuddy (hd B) (int k) s = kret Pnull s"
      using Suc.prems True by (intro FindBuddy_empty) (auto simp: freeing_def buddy_rel_def)
    then show ?thesis
      using Suc.prems True by (intro exI [of _ k] exI [of _ B] exI [of _ A] exI [of _ s])
        (simp add: blend_loop.simps free_spec.simps untouched_def)
  next
    case False
    let ?C = "take (2 ^ k) (A k)" and ?A = "A(k := drop (2 ^ k) (A k))"
    define J where "J = (if high_bit s0 (hd ?C) k then B @ ?C else ?C @ B)"
    obtain u t where t: "FindBuddy (hd B) (int k) s = kret (hd ?C) u" "hd ?C \<noteq> Pnull"
      "BlendBlk (hd ?C) (hd B) (int k + 1) u = kret (hd J) t" "freeing s0 ?A (Suc k) J t"
      "pages_of A + mset B = pages_of ?A + mset J" "untouched (pages_of A + mset B) s t"
      unfolding J_def by (rule merge_step [OF Suc.prems False])
    have "d = 16 - Suc k" "Suc k < 17" using Suc.hyps(2) by auto
    from Suc.hyps(1) [OF this(1) t(4) this(2)] obtain m B' A' w where
      w: "m < 17" "A' m = []" "freeing s0 A' m B' w"
        "kbind (FindBuddy (hd J) (int (Suc k)) t) (\<lambda>b s. blend_loop b (hd J) (int (Suc k)) s) = kret (hd B', int m) w"
        "free_spec (high_bit s0) (Suc k) J ?A = A'(m := B')"
        "pages_of ?A + mset J = pages_of A' + mset B'" "untouched (pages_of ?A + mset J) t w"
      by blast
    have "kbind (FindBuddy (hd B) (int k) s) (\<lambda>b s. blend_loop b (hd B) (int k) s) = kret (hd B', int m) w"
      using w(4) unfolding t(1) of_nat_Suc add.commute [of 1]
      by (simp only: kbind_kret blend_loop.simps [of "hd ?C"] t(2,3) if_True not_False_eq_True)
    moreover have "free_spec (high_bit s0) k B A = A'(m := B')"
      using w(5) Suc.prems(2) False by (subst free_spec.simps) (simp add: Let_def J_def)
    moreover have "untouched (pages_of A + mset B) s w"
      using t(6) w(7) unfolding t(5) by (simp add: untouched_def)
    ultimately show ?thesis using w(1,2,3,6) t(5) by metis
  qed
qed

lemma attach:
  assumes st: "freeing s0 A k B s" and k: "k < 17" and e: "A k = []"
  shows "buddy_rel (upd_num (int k) (num s (int k) + 1) (upd_lst (int k) (hd B) s)) (A(k := B))"
    and "pages_of (A(k := B)) = pages_of A + mset B"
proof -
  have rel: "buddy_rel s A" and own: "owned s A k B" using st by (auto simp: freeing_def)
  let ?t = "upd_num (int k) (num s (int k) + 1) (upd_lst (int k) (hd B) s)"
  show pg: "pages_of (A(k := B)) = pages_of A + mset B" using pages_of_upd [OF k, of A B] e by simp
  have "class_rel ?t j ((A(k := B)) j)" if "j < 17" for j
  proof (cases "j = k")
    case True
    have "num s (int k) = 0" using buddy_relD(1) [OF rel k] e by (simp add: class_rel_def)
    moreover have "dl ?t Pnull (hd B) B Pnull"
      using own by (auto simp: owned_def intro: dl_frame [of s])
    ultimately show ?thesis using own True by (simp add: class_rel_def owned_def)
  next
    case False
    with buddy_relD(1) [OF rel that] show ?thesis by (auto intro: class_rel_frame)
  qed
  moreover have fr: "same_frames s ?t" by simp
  moreover have "phy_page_num ?t = phy_page_num s" using fr by (simp add: same_frames_def)
  ultimately show "buddy_rel ?t (A(k := B))"
    using rel own unfolding buddy_rel_def pg owned_def frame_ok_same [OF fr] by auto
qed

section \<open>The operation\<close>

definition all_free :: "'a pmm_scheme \<Rightarrow> pgptr list \<Rightarrow> bool" where
  "all_free s B \<longleftrightarrow> (\<forall>p\<in>set B. ref_num (phy_pages s p) = 0)"

lemma freeing_marked: "freeing s A k B s \<Longrightarrow> freeing s A k B (marked f X s)"
  by (simp add: freeing_def)

lemma free_buddy_refuses:
  assumes "owned s A k B" and "\<not> all_free s B"
  shows "free_buddy (hd B) s = kret () (s\<lparr>klog := klog s @ [line ''free buddy failed'']\<rparr>)"
proof -
  from assms have "dl s Pnull (hd B) B Pnull" "\<exists>x\<in>set B. ref_num (phy_pages s x) > 0"
    by (auto simp: owned_def all_free_def word_gt_0)
  then have "check_free_pages s (hd B) = Some 0" by (simp add: check_free_pages_dl)
  then show ?thesis by (simp add: free_buddy_def)
qed

lemma free_buddy_run:
  assumes own: "owned s A k B" and k: "k < 17" and free: "all_free s B"
  shows "free_buddy (hd B) s =
    (let u = marked (\<lambda>_. PHY_FREE) (set B) s in
     if lst u (int k) = Pnull then kret () (upd_num (int k) (num u (int k) + 1) (upd_lst (int k) (hd B) u))
     else
       kbind (kbind (FindBuddy (hd B) (int k) u) (\<lambda>b s. blend_loop b (hd B) (int k) s)) (\<lambda>(blk, tmp) s.
       kbind (in_table tmp s) (\<lambda>_ s.
       kbind
         (if lst s tmp = Pnull then kret () (upd_lst tmp blk s)
          else kbind (klift (tail_of (nxt s) (lst s tmp)) s) (\<lambda>p s.
            let s = upd_next p blk s in kret () (upd_prev blk p s)))
         (\<lambda>_ s. kret () (upd_num tmp (num s tmp + 1) s)))))"
proof -
  from own have d: "dl s Pnull (hd B) B Pnull" "length B = 2 ^ k" and "one_each (pages_of A + mset B)"
    by (auto simp: owned_def)
  then have dist: "distinct B"
    using one_each_sub [of "pages_of A + mset B" "mset B"] by (simp add: one_each_distinct)
  have c: "check_free_pages s (hd B) = Some 1"
    using d free by (simp add: check_free_pages_dl all_free_def)
  have m: "mark_pages (\<lambda>_. PHY_FREE) (hd B) s = kret () (marked (\<lambda>_. PHY_FREE) (set B) s)"
    using d(1) dist by (rule mark_pages_dl)
  have "count_pages (hd B) (marked (\<lambda>_. PHY_FREE) (set B) s) = Some (2 ^ k)"
    using d by (auto dest: count_pages_dl [of "marked (\<lambda>_. PHY_FREE) (set B) s", simplified])
  then show ?thesis
    using k by (simp add: free_buddy_def c m in_table_def Let_def kbind_assoc)
qed

lemma free_buddy_refines:
  assumes rel: "buddy_rel s A" and own: "owned s A k B" and k: "k < 17" and free: "all_free s B"
  obtains t where "free_buddy (hd B) s = kret () t" "buddy_rel t (free_spec (high_bit s) k B A)"
    "pages_of (free_spec (high_bit s) k B A) = pages_of A + mset B"
    "same_frames s t" "klog t = klog s" "untouched (pages_of A + mset B) s t"
proof (cases "A k = []")
  case True
  let ?u = "marked (\<lambda>_. PHY_FREE) (set B) s"
  let ?t = "upd_num (int k) (num ?u (int k) + 1) (upd_lst (int k) (hd B) ?u)"
  have u: "freeing s A k B ?u" using rel own by (simp add: freeing_def)
  have "lst ?u (int k) = Pnull" using class_rel_empty [OF buddy_relD(1) [OF rel k]] True by simp
  then have "free_buddy (hd B) s = kret () ?t" by (simp add: free_buddy_run [OF own k free])
  moreover have "free_spec (high_bit s) k B A = A(k := B)" using True by (simp add: free_spec.simps)
  moreover have "klog ?t = klog s" "untouched (pages_of A + mset B) s ?t" "same_frames s ?t"
    by (simp_all add: upd_num_def upd_lst_def untouched_def marked_def nxt_def prv_def same_frames_def)
  ultimately show ?thesis using attach [OF u k True] by (intro that [of ?t]) auto
next
  case False
  let ?u = "marked (\<lambda>_. PHY_FREE) (set B) s"
  have u: "freeing s A k B ?u" using rel own by (simp add: freeing_def)
  obtain m B' A' w where w: "m < 17" "A' m = []" "freeing s A' m B' w"
      "kbind (FindBuddy (hd B) (int k) ?u) (\<lambda>b s. blend_loop b (hd B) (int k) s) = kret (hd B', int m) w"
      "free_spec (high_bit s) k B A = A'(m := B')"
      "pages_of A + mset B = pages_of A' + mset B'" "untouched (pages_of A + mset B) ?u w"
    using blend_loop_refines [OF u k] by blast
  let ?t = "upd_num (int m) (num w (int m) + 1) (upd_lst (int m) (hd B') w)"
  have "lst ?u (int k) \<noteq> Pnull" using class_rel_empty [OF buddy_relD(1) [OF rel k]] False by simp
  moreover have "lst w (int m) = Pnull"
    using w(1,2,3) by (auto simp: freeing_def buddy_rel_def class_rel_def)
  ultimately have "free_buddy (hd B) s = kret () ?t"
    using w(1) by (simp add: free_buddy_run [OF own k free] Let_def w(4) in_table_def)
  moreover have "same_frames s ?t" "klog ?t = klog s"
    using w(3) by (simp add: freeing_def, simp add: freeing_def upd_num_def upd_lst_def)
  moreover have "untouched (pages_of A + mset B) s ?t"
    using w(7) by (simp add: untouched_def)
  ultimately show ?thesis using attach [OF w(3,1,2)] w(5,6) by (intro that [of ?t]) auto
qed

end
