(* ===== verification/Page_Pool.thy ===== *)
theory Page_Pool
  imports Buddy_Free
begin

text \<open>
  What the clients of the page allocator rely on. The locale \<open>page_pool\<close> states it of any pair
  of an allocation and a free function over a pool of pages; its lemma runs an arbitrary client.
  The interpretation shows that \<open>alloc_buddy\<close> and \<open>free_buddy\<close> keep the contract.
\<close>

section \<open>Clients\<close>

datatype page_op = Alloc uint | Free nat

text \<open>
  A client keeps the pointers it was given, newest first. A free names one of them by its
  position; a position it does not have is no call.
\<close>

fun client ::
    "(uint \<Rightarrow> 's \<Rightarrow> (pgptr \<times> int, 's) run) \<Rightarrow> (pgptr \<Rightarrow> 's \<Rightarrow> (unit, 's) run) \<Rightarrow>
     page_op list \<Rightarrow> pgptr list \<Rightarrow> 's \<Rightarrow> (pgptr list, 's) run" where
  "client alloc free [] ps s = kret ps s"
| "client alloc free (Alloc sz # ops) ps s =
     kbind (alloc sz s) (\<lambda>(p, flag) s. client alloc free ops (if flag = 1 then p # ps else ps) s)"
| "client alloc free (Free i # ops) ps s =
     (if i < length ps then
        kbind (free (ps ! i) s) (\<lambda>_ s. client alloc free ops (take i ps @ drop (Suc i) ps) s)
      else client alloc free ops ps s)"

definition fair :: "page_op \<Rightarrow> bool" where
  "fair ev = (case ev of Alloc sz \<Rightarrow> pages_wanted sz \<le> 65536 | Free i \<Rightarrow> True)"

section \<open>The contract\<close>

locale page_pool =
  fixes pool :: "'s \<Rightarrow> pgptr multiset \<Rightarrow> bool"
    and held :: "'s \<Rightarrow> pgptr list \<Rightarrow> bool"
    and alloc :: "uint \<Rightarrow> 's \<Rightarrow> (pgptr \<times> int, 's) run"
    and free :: "pgptr \<Rightarrow> 's \<Rightarrow> (unit, 's) run"
  assumes alloc_law: "pool s M \<Longrightarrow> pages_wanted sz \<le> 65536 \<Longrightarrow>
      alloc sz s = kret (Pnull, 0) s \<or>
      (\<exists>B M' t. alloc sz s = kret (hd B, 1) t \<and> M = M' + mset B \<and> pages_wanted sz \<le> length B \<and>
         pool t M' \<and> held t B \<and> (\<forall>C. held s C \<longrightarrow> set C \<inter> set_mset M = {} \<longrightarrow> held t C))"
    and free_law: "pool s M \<Longrightarrow> held s B \<Longrightarrow> one_each (M + mset B) \<Longrightarrow>
      \<exists>t. free (hd B) s = kret () t \<and> pool t (M + mset B) \<and>
        (\<forall>C. held s C \<longrightarrow> set C \<inter> set_mset (M + mset B) = {} \<longrightarrow> held t C)"
begin

text \<open>The books: the free pages and the held blocks make up \<open>T\<close>, and no page is there twice.\<close>

definition books :: "pgptr multiset \<Rightarrow> 's \<Rightarrow> pgptr multiset \<Rightarrow> pgptr list list \<Rightarrow> bool" where
  "books T s M Bs \<longleftrightarrow> pool s M \<and> (\<forall>B\<in>set Bs. held s B) \<and> M + mset (concat Bs) = T \<and> one_each T"

lemma books_apart: "books T s M Bs \<Longrightarrow> C \<in> set Bs \<Longrightarrow> set C \<inter> set_mset M = {}"
  using one_each_apart [of M "concat Bs"] by (auto simp: books_def disjoint_iff)

lemma alloc_books:
  assumes bk: "books T s M Bs" and sz: "pages_wanted sz \<le> 65536"
  shows "alloc sz s = kret (Pnull, 0) s \<or>
    (\<exists>B M' t. alloc sz s = kret (hd B, 1) t \<and> books T t M' (B # Bs) \<and> pages_wanted sz \<le> length B)"
proof -
  consider "alloc sz s = kret (Pnull, 0) s"
    | B M' t where "alloc sz s = kret (hd B, 1) t" "M = M' + mset B" "pages_wanted sz \<le> length B"
      "pool t M'" "held t B" "\<And>C. held s C \<Longrightarrow> set C \<inter> set_mset M = {} \<Longrightarrow> held t C"
    using alloc_law [OF _ sz, of s M] bk unfolding books_def by blast
  then show ?thesis
  proof cases
    case (2 B M' t)
    have "books T t M' (B # Bs)"
      using bk 2(2,4,5) 2(6) [OF _ books_apart [OF bk]] by (auto simp: books_def)
    with 2 show ?thesis by blast
  qed simp
qed

lemma free_books:
  assumes bk: "books T s M Bs" and i: "i < length Bs"
  shows "\<exists>t M'. free (hd (Bs ! i)) s = kret () t \<and> books T t M' (take i Bs @ drop (Suc i) Bs)"
proof -
  define B Cs where "B = Bs ! i" and "Cs = take i Bs @ drop (Suc i) Bs"
  have Bs: "Bs = take i Bs @ B # drop (Suc i) Bs" using i by (simp add: B_def id_take_nth_drop)
  have tot: "M + mset B + mset (concat Cs) = T" "one_each T"
    using bk arg_cong [OF Bs, of "\<lambda>x. mset (concat x)"] by (auto simp: books_def Cs_def ac_simps)
  then have "one_each (M + mset B)" by (auto intro: one_each_sub)
  moreover have "pool s M" "held s B" and Cs: "\<And>C. C \<in> set Cs \<Longrightarrow> held s C"
    using bk i by (auto simp: books_def B_def Cs_def dest: in_set_takeD in_set_dropD)
  ultimately obtain t where t: "free (hd B) s = kret () t" "pool t (M + mset B)"
      "\<And>C. held s C \<Longrightarrow> set C \<inter> set_mset (M + mset B) = {} \<Longrightarrow> held t C"
    using free_law by blast
  have "set C \<inter> set_mset (M + mset B) = {}" if "C \<in> set Cs" for C
    using one_each_apart [of "M + mset B" "concat Cs"] tot that by (fastforce simp: disjoint_iff)
  then have "books T t (M + mset B) Cs"
    using tot t(2,3) Cs by (auto simp: books_def)
  with t(1) show ?thesis by (auto simp: B_def Cs_def)
qed

lemma client_books:
  assumes "books T s M Bs" and "list_all fair ops"
  shows "\<exists>t M' Bs'. client alloc free ops (map hd Bs) s = kret (map hd Bs') t \<and> books T t M' Bs'"
  using assms
proof (induction ops arbitrary: s M Bs)
  case (Cons ev ops)
  show ?case
  proof (cases ev)
    case (Alloc sz)
    with Cons.prems have sz: "pages_wanted sz \<le> 65536" by (simp add: fair_def)
    from alloc_books [OF Cons.prems(1) sz] show ?thesis
    proof (elim disjE exE conjE)
      assume "alloc sz s = kret (Pnull, 0) s"
      with Cons Alloc show ?thesis by simp
    next
      fix B M' t
      assume "alloc sz s = kret (hd B, 1) t" "books T t M' (B # Bs)"
      with Cons.IH [of t M' "B # Bs"] Cons.prems Alloc show ?thesis by simp
    qed
  next
    case (Free i)
    show ?thesis
    proof (cases "i < length Bs")
      case True
      from free_books [OF Cons.prems(1) this] obtain t M' where
        "free (hd (Bs ! i)) s = kret () t" "books T t M' (take i Bs @ drop (Suc i) Bs)" by blast
      with Cons.IH [of t M' "take i Bs @ drop (Suc i) Bs"] Cons.prems True Free show ?thesis
        by (simp add: take_map drop_map)
    next
      case False
      with Cons Free show ?thesis by simp
    qed
  qed
qed auto

end

section \<open>The buddy allocator keeps the contract\<close>

definition buddy_pool :: "'a pmm_scheme \<Rightarrow> pgptr multiset \<Rightarrow> bool" where
  "buddy_pool s M \<longleftrightarrow>
     (\<exists>A. buddy_rel s A \<and> pages_of A = M) \<and> (\<forall>p. p \<in># M \<longrightarrow> ref_num (phy_pages s p) = 0)"

definition buddy_held :: "'a pmm_scheme \<Rightarrow> pgptr list \<Rightarrow> bool" where
  "buddy_held s B \<longleftrightarrow> (\<exists>k<17. length B = 2 ^ k) \<and> dl s Pnull (hd B) B Pnull \<and>
     (\<forall>p\<in>set B. frame_ok s p \<and> ref_num (phy_pages s p) = 0)"

lemma alloc_spec_class: "alloc_spec idx A = Some (n, B, A') \<Longrightarrow> n < 17"
  by (auto simp: alloc_spec_def pick_def split: if_splits dest!: find_upt_Some)

lemma held_frame:
  assumes "buddy_held s C" "same_frames s t" "untouched M s t" "set C \<inter> set_mset M = {}"
  shows "buddy_held t C"
proof -
  have "Pnull \<notin> set C" using assms(1) by (auto simp: buddy_held_def dest: dl_no_null)
  then have "dl t Pnull (hd C) C Pnull"
    using assms by (auto simp: buddy_held_def untouched_def intro: dl_frame [of s])
  moreover have "ref_num (phy_pages t p) = ref_num (phy_pages s p)" for p
    using assms(2) by (simp add: same_frames_def)
  ultimately show ?thesis
    using assms(1) frame_ok_same [OF assms(2)] by (simp add: buddy_held_def)
qed

lemma free_block:
  assumes pool: "buddy_pool s M" and held: "buddy_held s B" and one: "one_each (M + mset B)"
  shows "\<exists>t. free_buddy (hd B) s = kret () t \<and> buddy_pool t (M + mset B) \<and> same_frames s t \<and> klog t = klog s \<and>
    untouched (M + mset B) s t"
proof -
  obtain A where A: "buddy_rel s A" "pages_of A = M" using pool by (auto simp: buddy_pool_def)
  from held obtain k where k: "k < 17" "length B = 2 ^ k" by (auto simp: buddy_held_def)
  then have own: "owned s A k B" "all_free s B"
    using held one A by (auto simp: buddy_held_def owned_def all_free_def)
  obtain t where t: "free_buddy (hd B) s = kret () t" "buddy_rel t (free_spec (high_bit s) k B A)"
      "pages_of (free_spec (high_bit s) k B A) = M + mset B" "same_frames s t" "klog t = klog s"
      "untouched (M + mset B) s t"
    using free_buddy_refines [OF A(1) own(1) k(1) own(2)] A(2) by metis
  have "buddy_pool t (M + mset B)"
    using pool held t(2,3,4) by (auto simp: buddy_pool_def buddy_held_def same_frames_def)
  with t(1,4-) show ?thesis by blast
qed

interpretation bp: page_pool buddy_pool buddy_held alloc_buddy free_buddy
proof
  fix s :: "'a pmm_scheme" and M sz
  assume pool: "buddy_pool s M" and sz: "pages_wanted sz \<le> 65536"
  then obtain A where A: "buddy_rel s A" "pages_of A = M" by (auto simp: buddy_pool_def)
  from sz have "pages_wanted sz \<le> 2 ^ 16" by simp
  then obtain k where "k \<le> 16" "fits (pages_wanted sz) k" using fits_ex by blast
  then have k: "k < 17" "fits (pages_wanted sz) k" by simp_all
  show "alloc_buddy sz s = kret (Pnull, 0) s \<or>
      (\<exists>B M' t. alloc_buddy sz s = kret (hd B, 1) t \<and> M = M' + mset B \<and> pages_wanted sz \<le> length B \<and>
         buddy_pool t M' \<and> buddy_held t B \<and>
         (\<forall>C. buddy_held s C \<longrightarrow> set C \<inter> set_mset M = {} \<longrightarrow> buddy_held t C))"
  proof (cases "alloc_spec k A")
    case None
    with A k show ?thesis by (simp add: alloc_buddy_fails)
  next
    case (Some r)
    then obtain n B A' where spec: "alloc_spec k A = Some (n, B, A')" by (cases r) auto
    obtain t where t: "alloc_buddy sz s = kret (hd B, 1) t" "handed s A n B A' t"
      by (rule alloc_buddy_succeeds [OF A(1) k(2,1) spec])
    then have h: "buddy_rel t A'" "owned t A' n B" "M = pages_of A' + mset B" "same_frames s t"
        "untouched M s t" using A(2) unfolding handed_def by blast+
    have "(2::nat) ^ k \<le> 2 ^ n" using alloc_spec_size [OF spec] by (intro power_increasing) auto
    with k(2) have "pages_wanted sz \<le> 2 ^ n" unfolding fits_def by linarith
    then have "pages_wanted sz \<le> length B" using h(2) by (simp add: owned_def)
    moreover have ref: "ref_num (phy_pages t p) = 0" if "p \<in># M" for p
      using pool that h(4) by (simp add: buddy_pool_def same_frames_def)
    then have "buddy_held t B" "buddy_pool t (pages_of A')"
      using h alloc_spec_class [OF spec] by (auto simp: buddy_held_def owned_def buddy_pool_def)
    ultimately show ?thesis using t(1) h(3,4,5) held_frame by blast
  qed
next
  fix s :: "'a pmm_scheme" and M B
  assume pool: "buddy_pool s M" and held: "buddy_held s B" and one: "one_each (M + mset B)"
  then obtain t where t: "free_buddy (hd B) s = kret () t" "buddy_pool t (M + mset B)" "same_frames s t"
      "untouched (M + mset B) s t" using free_block by blast
  then show "\<exists>t. free_buddy (hd B) s = kret () t \<and> buddy_pool t (M + mset B) \<and>
      (\<forall>C. buddy_held s C \<longrightarrow> set C \<inter> set_mset (M + mset B) = {} \<longrightarrow> buddy_held t C)"
    using t held_frame by blast
qed

end
