(* ===== verification/Paging.thy ===== *)
theory Paging
  imports Page_Pool
begin

text \<open>
  src/vmm/vmm.c (page tables), the paging macros of libs/mmu.h and the first tables of
  src/init/kern_init.c. The state extends the page allocator's by the 32-bit words of memory at
  their addresses; the kernel reaches the frame at \<open>a\<close> under \<open>a + PAGE_OFFSET\<close>.
\<close>

section \<open>Words and addresses\<close>

definition PAGE_OFFSET :: uint where "PAGE_OFFSET = 0xC0000000"
definition PAGE_MASK :: uint where "PAGE_MASK = 0xFFFFF000"
definition PTE_P :: uint where "PTE_P = 0x001"
definition PTE_W :: uint where "PTE_W = 0x002"
definition PTE_U :: uint where "PTE_U = 0x004"
definition PTE_COUNT :: nat where "PTE_COUNT = 128"
definition NPTENTRIES :: nat where "NPTENTRIES = 1024"

definition PGD_IDX :: "uint \<Rightarrow> uint" where "PGD_IDX x = drop_bit 22 x AND 0x3FF"
definition PTE_IDX :: "uint \<Rightarrow> uint" where "PTE_IDX x = drop_bit 12 x AND 0x3FF"
definition PTE_ADDR :: "uint \<Rightarrow> uint" where "PTE_ADDR pte = pte AND NOT 0xFFF"

type_synonym words = "addr \<Rightarrow> uint"

record vmm = pmm +
  words :: words
  pgd_kern :: addr
  cr3 :: uint
  fault_handler :: bool

definition rd32 :: "'a vmm_scheme \<Rightarrow> addr \<Rightarrow> uint" where
  "rd32 s a = words s a"

definition wr32 :: "addr \<Rightarrow> uint \<Rightarrow> 'a vmm_scheme \<Rightarrow> 'a vmm_scheme" where
  "wr32 a v s = s\<lparr>words := (words s)(a := v)\<rparr>"

text \<open>\<open>memset(p, 0, PGSIZE)\<close> of a page of words.\<close>

definition zero_page :: "addr \<Rightarrow> 'a vmm_scheme \<Rightarrow> 'a vmm_scheme" where
  "zero_page a s = s\<lparr>words := fold (\<lambda>i m. m(a + 4 * of_nat i := 0)) [0..<1024] (words s)\<rparr>"

section \<open>The kernel's tables\<close>

text \<open>The boot tables of \<open>kern_entry\<close>, at the fixed physical addresses, before paging is on.\<close>

definition kern_entry_tables :: "words \<Rightarrow> words" where
  "kern_entry_tables m =
     (let pgd_tmp = 0x1000; pte_0 = 0x2000; pte_1 = 0x3000;
          m = m(pgd_tmp := pte_0 OR PTE_P OR PTE_W OR PTE_U);
          m = m(pgd_tmp + 4 * 1 := pte_1 OR PTE_P OR PTE_W OR PTE_U);
          m = m(pgd_tmp + 4 * 0x300 := pte_0 OR PTE_P OR PTE_W OR PTE_U);
          m = m(pgd_tmp + 4 * 0x301 := pte_1 OR PTE_P OR PTE_W OR PTE_U);
          m = fold (\<lambda>i m. m(pte_0 + 4 * of_nat i := push_bit 12 (of_nat i) OR PTE_P OR PTE_W OR PTE_U)) [0..<1024] m
      in fold (\<lambda>i m. m(pte_1 + 4 * of_nat i := push_bit 12 (of_nat (i + 1024)) OR PTE_P OR PTE_W OR PTE_U)) [0..<1024] m)"

definition LoadCr3 :: "'a vmm_scheme \<Rightarrow> uint" where
  "LoadCr3 s = PTE_ADDR (cr3 s)"

definition fill_ptes :: "addr \<Rightarrow> words \<Rightarrow> words" where
  "fill_ptes pte m = fold (\<lambda>i m. m(pte + 4 * of_nat i := push_bit 12 (of_nat i) OR PTE_P OR PTE_W OR PTE_U))
     [1..<PTE_COUNT * NPTENTRIES] m"

definition fill_pgd :: "addr \<Rightarrow> addr \<Rightarrow> words \<Rightarrow> words" where
  "fill_pgd pgd pte m = fold (\<lambda>j m. m(pgd + 4 * (PGD_IDX PAGE_OFFSET + of_nat j) :=
       (pte + 4096 * of_nat j - PAGE_OFFSET) OR PTE_P OR PTE_W OR PTE_U)) [0..<PTE_COUNT] m"

text \<open>\<open>pte_kern\<close> is the address of the static array of tables.\<close>

definition init_vmm :: "addr \<Rightarrow> 'a vmm_scheme \<Rightarrow> 'a vmm_scheme" where
  "init_vmm pte_kern s =
     (let s = s\<lparr>pgd_kern := LoadCr3 s + PAGE_OFFSET\<rparr>;
          s = s\<lparr>words := fill_ptes pte_kern (words s)\<rparr>;
          s = s\<lparr>words := fill_pgd (pgd_kern s) pte_kern (words s)\<rparr>
      in s\<lparr>fault_handler := True\<rparr>)"

section \<open>Mapping\<close>

definition map_page ::
    "('a vmm_scheme \<Rightarrow> (int, 'a vmm_scheme) run) \<Rightarrow> addr \<Rightarrow> uint \<Rightarrow> uint \<Rightarrow> uint \<Rightarrow> 'a vmm_scheme \<Rightarrow>
     (pgptr, 'a vmm_scheme) run" where
  "map_page swap_out pgd fl p_addr v_addr s =
     (let pgd_idx = PGD_IDX v_addr;
          pte_idx = PTE_IDX v_addr;
          pte = rd32 s (pgd + 4 * pgd_idx) AND PAGE_MASK
      in kbind
       (if pte = 0 then
          kbind (alloc_pages swap_out 1 s) (\<lambda>pg s.
            let s = upd_page pg (\<lambda>g. g\<lparr>ref_num := ref_num g + 1\<rparr>) s;
                s = upd_page pg (\<lambda>g. g\<lparr>va := start_addr g + PAGE_OFFSET\<rparr>) s;
                pte = start_addr (phy_pages s pg);
                s = wr32 (pgd + 4 * pgd_idx) (pte OR PTE_P OR PTE_W) s;
                pte = pte + PAGE_OFFSET
            in kret pte (zero_page pte s))
        else kret (pte + PAGE_OFFSET) s)
       (\<lambda>pte s.
         let s = wr32 (pte + 4 * pte_idx) ((p_addr AND PAGE_MASK) OR fl) s;
             pg_id = FindPageIndex p_addr s
         in kbind (kguard (0 \<le> pg_id) ''phy_pages'' s) (\<lambda>_ s.
              let s = upd_page (PG (nat pg_id)) (\<lambda>g. g\<lparr>ref_num := ref_num g + 1\<rparr>) s
              in kret (PG (nat pg_id)) (upd_page (PG (nat pg_id)) (\<lambda>g. g\<lparr>va := v_addr\<rparr>) s))))"

text \<open>The message of \<open>unmap\<close> is four Chinese characters, "no mapping", in UTF-8.\<close>

definition no_mapping :: string where
  "no_mapping = line [CHR 0xE6, CHR 0xB2, CHR 0xA1, CHR 0xE6, CHR 0x9C, CHR 0x89,
     CHR 0xE6, CHR 0x98, CHR 0xA0, CHR 0xE5, CHR 0xB0, CHR 0x84]"

definition unmap :: "addr \<Rightarrow> uint \<Rightarrow> 'a vmm_scheme \<Rightarrow> (unit, 'a vmm_scheme) run" where
  "unmap pgd v_addr s =
     (let pgd_idx = PGD_IDX v_addr;
          pte_idx = PTE_IDX v_addr;
          pte = rd32 s (pgd + 4 * pgd_idx) AND PAGE_MASK
      in if pte = 0 then kret () (s\<lparr>klog := klog s @ [no_mapping]\<rparr>)
         else
           let pte = pte + PAGE_OFFSET;
               pg_id = FindPageIndex (rd32 s (pte + 4 * pte_idx) AND PAGE_MASK) s;
               s = wr32 (pte + 4 * pte_idx) 0 s
           in kbind (kguard (0 \<le> pg_id) ''phy_pages'' s) (\<lambda>_ s.
                let p = PG (nat pg_id);
                    s = (if ref_num (phy_pages s p) > 0 then upd_page p (\<lambda>g. g\<lparr>ref_num := ref_num g - 1\<rparr>) s else s)
                in kret () (upd_page p (\<lambda>g. g\<lparr>va := 0\<rparr>) s)))"

text \<open>
  \<open>getmapping\<close> returns the flag and, when it stores through \<open>p_addr\<close>, the stored value; the
  argument \<open>want\<close> says whether the pointer is not null.
\<close>

definition getmapping :: "addr \<Rightarrow> uint \<Rightarrow> bool \<Rightarrow> 'a vmm_scheme \<Rightarrow> uint \<times> uint option" where
  "getmapping pgd v_addr want s =
     (let pgd_idx = PGD_IDX v_addr;
          pte_idx = PTE_IDX v_addr;
          pte = rd32 s (pgd + 4 * pgd_idx) AND PAGE_MASK
      in if pte = 0 then (0, None)
         else
           let pte = pte + PAGE_OFFSET in
           if rd32 s (pte + 4 * pte_idx) \<noteq> 0 \<and> want then (1, Some (rd32 s (pte + 4 * pte_idx) AND PAGE_MASK))
           else (0, None))"

definition getpte :: "addr \<Rightarrow> uint \<Rightarrow> 'a vmm_scheme \<Rightarrow> addr \<times> int" where
  "getpte pgd v_addr s =
     (let pgd_idx = PGD_IDX v_addr;
          pte_idx = PTE_IDX v_addr;
          pte = (rd32 s (pgd + 4 * pgd_idx) AND PAGE_MASK) + PAGE_OFFSET
      in if pte = 0 then (0, 0) else (pte + 4 * pte_idx, 1))"

end
