(* ===== verification/Mm_Types.thy ===== *)
theory Mm_Types
  imports Buddy
begin

text \<open>
  The structs of libs/vmm.h: a region of virtual addresses and the memory map it belongs to. Both
  are records at their addresses. As for the page structs, null is an address like another: page 0
  is mapped by the boot tables.
\<close>

record vma_region =
  vm_next :: addr
  vm_prev :: addr
  vm_start :: uint
  vm_end :: uint
  vm_flags :: uint
  vm_mm :: addr

record mm_struct =
  vma_list :: addr
  mmap_cache :: addr
  mm_pgd :: addr
  vma_cnt :: int
  pglist :: pgptr

text \<open>\<open>sizeof(vma_region_t)\<close> and \<open>sizeof(mm_struct_t)\<close>: six and five words.\<close>

definition vma_region_t_size :: uint where "vma_region_t_size = 24"
definition mm_struct_t_size :: uint where "mm_struct_t_size = 20"

end
