(* ===== verification/Slab.thy ===== *)
theory Slab
  imports Paging Mm_Types Kern_List
begin

text \<open>
  src/pmm/slab.c and src/pmm/slab_tool.c: object caches over pages, and \<open>kmalloc\<close>. The structs
  \<open>slab_t\<close> and \<open>kmem_cache_t\<close> are records at their addresses, the free lists 16-bit words at theirs.
  A field of \<open>kmem_cache_node_t\<close> is a field of the cache. An access through a null pointer is
  undefined. The last fields of the state belong to the users of the heap, the memory maps and the
  swap manager; nothing here changes them.
\<close>

section \<open>Data\<close>

definition HEAP_START :: uint where "HEAP_START = 0xE0000000"

text \<open>\<open>sizeof(slab_t)\<close> and \<open>sizeof(kmem_cache_t)\<close>: ten and eleven words.\<close>

definition slab_t_size :: uint where "slab_t_size = 40"
definition kmem_cache_t_size :: uint where "kmem_cache_t_size = 44"

record slab =
  pg_list :: pgptr
  sl_ref_num :: uint
  sl_flags :: uint
  slab_size :: uint
  sl_next :: addr
  sl_prev :: addr
  obj :: uint
  free_list :: uint
  active :: int
  obj_num :: uint

record kmem_cache =
  csize :: uint
  obj_per_slab :: uint
  cname :: string
  ref_cnt :: uint
  c_prev :: addr
  c_next :: addr
  order :: uint
  free_slabs :: addr
  partial_slabs :: addr
  full_slabs :: addr

record kheap = vmm +
  slabs :: "addr \<Rightarrow> slab"
  caches :: "addr \<Rightarrow> kmem_cache"
  free_ids :: "addr \<Rightarrow> ushort"
  heap_top :: uint
  kmem_caches :: addr
  vmas :: "addr \<Rightarrow> vma_region"
  mms :: "addr \<Rightarrow> mm_struct"
  check_mm_struct :: addr
  swap_init_ok :: int
  clock_point :: pgptr
  intr_on :: bool

type_synonym 'a heap_run = "('a, kheap) run"

definition upd_slab :: "addr \<Rightarrow> (slab \<Rightarrow> slab) \<Rightarrow> kheap \<Rightarrow> kheap" where
  "upd_slab a f s = s\<lparr>slabs := (slabs s)(a := f (slabs s a))\<rparr>"

definition upd_cache :: "addr \<Rightarrow> (kmem_cache \<Rightarrow> kmem_cache) \<Rightarrow> kheap \<Rightarrow> kheap" where
  "upd_cache a f s = s\<lparr>caches := (caches s)(a := f (caches s a))\<rparr>"

definition deref :: "addr \<Rightarrow> kheap \<Rightarrow> unit heap_run" where
  "deref a s = kguard (a \<noteq> NULL) ''NULL'' s"

definition in_free_list :: "addr \<Rightarrow> kheap \<Rightarrow> unit heap_run" where
  "in_free_list slab s =
     kguard (0 \<le> active (slabs s slab) \<and> nat (active (slabs s slab)) < unat (obj_num (slabs s slab))) ''free_list'' s"

definition kmem_cache_info :: "string list" where
  "kmem_cache_info = [''cache_32B'', ''cache_64B'', ''cache_128B'', ''cache_192B'', ''cache_256B'', ''cache_512B'',
     ''cache_1KB'', ''cache_2KB'', ''cache_4KB'', ''cache_8KB'', ''cache_16KB'', ''cache_32KB'', ''cache_64KB'',
     ''cache_128KB'']"

section \<open>Caches and slabs\<close>

text \<open>\<open>sizeof(*obj)\<close> of a void pointer is 1: the constructor clears the low byte of the first field.\<close>

definition kmem_cache_ctor :: "addr \<Rightarrow> kheap \<Rightarrow> kheap" where
  "kmem_cache_ctor a s = upd_cache a (\<lambda>c. c\<lparr>csize := csize c AND NOT 0xFF\<rparr>) s"

definition create_boot_cache :: "addr \<Rightarrow> string \<Rightarrow> uint \<Rightarrow> uint \<Rightarrow> kheap \<Rightarrow> unit heap_run" where
  "create_boot_cache cache nm sz pg_num s =
     kbind (klift (log2 (sint pg_num)) s) (\<lambda>ord s.
       kret () (upd_cache cache (\<lambda>c. c\<lparr>free_slabs := NULL, partial_slabs := NULL, full_slabs := NULL,
         order := word_of_int ord, ref_cnt := 0, c_prev := NULL, c_next := NULL, cname := nm,
         obj_per_slab := (PGSIZE * pg_num - slab_t_size) div (2 + sz), csize := sz\<rparr>) s))"

text \<open>
  The mapping loop of \<open>apply_slab\<close>. \<open>map\<close> stores the page it mapped into its last argument, so
  \<open>pg\<close> moves.
\<close>

fun apply_loop ::
    "(kheap \<Rightarrow> int heap_run) \<Rightarrow> nat \<Rightarrow> uint \<Rightarrow> pgptr \<Rightarrow> kheap \<Rightarrow> pgptr heap_run" where
  "apply_loop swap 0 i pg s = kret pg s"
| "apply_loop swap (Suc n) i pg s =
     kbind (map_page swap (pgd_kern s) (PTE_P OR PTE_W) (start_addr (phy_pages s pg) + i * PGSIZE) (heap_top s) s)
       (\<lambda>pg s. apply_loop swap n (i + 1) pg (s\<lparr>heap_top := heap_top s + PGSIZE\<rparr>))"

definition apply_slab :: "(kheap \<Rightarrow> int heap_run) \<Rightarrow> uint \<Rightarrow> uint \<Rightarrow> kheap \<Rightarrow> addr heap_run" where
  "apply_slab swap pg_number obj_per s =
     kbind (alloc_pages swap (sint pg_number) s) (\<lambda>pg s.
       let origin_heap_top = heap_top s in
       kbind (apply_loop swap (unat pg_number) 0 pg s) (\<lambda>pg s.
         let s = upd_slab origin_heap_top (\<lambda>_. \<lparr>pg_list = pg, sl_ref_num = 0, sl_flags = PTE_P OR PTE_W,
                   slab_size = pg_number, sl_next = NULL, sl_prev = NULL,
                   obj = origin_heap_top + slab_t_size + 2 * obj_per, free_list = origin_heap_top + slab_t_size,
                   active = 0, obj_num = obj_per\<rparr>) s;
             p = free_list (slabs s origin_heap_top)
         in kret origin_heap_top
              (s\<lparr>free_ids := fold (\<lambda>i m. m(p + 2 * of_nat i := of_nat i)) [0..<unat obj_per] (free_ids s)\<rparr>)))"

text \<open>Free lists are arrays of 16-bit object numbers; an index outside the array is undefined.\<close>

definition GetObj :: "addr \<Rightarrow> uint \<Rightarrow> kheap \<Rightarrow> addr heap_run" where
  "GetObj slab obj_size s =
     (if word_of_int (active (slabs s slab)) = obj_num (slabs s slab) then kret NULL s
      else
        kbind (in_free_list slab s) (\<lambda>_ s.
          let obj_id = free_ids s (free_list (slabs s slab) + 2 * word_of_int (active (slabs s slab)));
              ret = obj (slabs s slab) + obj_size * ucast obj_id;
              s = upd_slab slab (\<lambda>l. l\<lparr>active := active l + 1\<rparr>) s
          in kret ret (upd_slab slab (\<lambda>l. l\<lparr>sl_ref_num := sl_ref_num l + 1\<rparr>) s)))"

definition FreeObj :: "addr \<Rightarrow> addr \<Rightarrow> uint \<Rightarrow> kheap \<Rightarrow> int heap_run" where
  "FreeObj obj_addr slab obj_size s =
     (let obj_id = sint ((obj_addr - obj (slabs s slab)) div obj_size) in
      if obj_id < 0 \<or> word_of_int obj_id \<ge> obj_num (slabs s slab) then kret 0 s
      else
        let s = upd_slab slab (\<lambda>l. l\<lparr>active := active l - 1\<rparr>) s;
            s = upd_slab slab (\<lambda>l. l\<lparr>sl_ref_num := sl_ref_num l - 1\<rparr>) s
        in kbind (in_free_list slab s) (\<lambda>_ s.
             let p = free_list (slabs s slab) + 2 * word_of_int (active (slabs s slab))
             in kret 1 (s\<lparr>free_ids := (free_ids s)(p := word_of_int obj_id)\<rparr>)))"

section \<open>Allocation\<close>

text \<open>The end of a list of slabs, from a node that is not null.\<close>

partial_function (option) slab_tail :: "(addr \<Rightarrow> slab) \<Rightarrow> addr \<Rightarrow> addr option" where
  [code]: "slab_tail h p = (if sl_next (h p) \<noteq> NULL then slab_tail h (sl_next (h p)) else Some p)"

text \<open>The first free slab becomes the partial one; with no free slab, a new one is made first.\<close>

definition refill :: "(kheap \<Rightarrow> int heap_run) \<Rightarrow> addr \<Rightarrow> kheap \<Rightarrow> unit heap_run" where
  "refill swap cache s =
     kbind
       (if free_slabs (caches s cache) = NULL then
          kbind (apply_slab swap (word_of_int (pow2 (sint (order (caches s cache))))) (obj_per_slab (caches s cache)) s)
            (\<lambda>a s. kret () (upd_cache cache (\<lambda>c. c\<lparr>free_slabs := a\<rparr>) s))
        else kret () s)
       (\<lambda>_ s.
         let fr = free_slabs (caches s cache); nx = sl_next (slabs s fr);
             s = (if nx \<noteq> NULL then
                    let s = upd_slab nx (\<lambda>l. l\<lparr>sl_prev := NULL\<rparr>) s
                    in upd_cache cache (\<lambda>c. c\<lparr>partial_slabs := fr, free_slabs := nx\<rparr>) s
                  else upd_cache cache (\<lambda>c. c\<lparr>partial_slabs := fr, free_slabs := NULL\<rparr>) s)
         in kret () (upd_slab (partial_slabs (caches s cache)) (\<lambda>l. l\<lparr>sl_ref_num := sl_ref_num l + 1\<rparr>) s))"

text \<open>A full slab goes to the end of \<open>full_slabs\<close>; the loop reads through an empty list.\<close>

definition append_full :: "addr \<Rightarrow> kheap \<Rightarrow> unit heap_run" where
  "append_full cache s =
     (let p = full_slabs (caches s cache) in
      kbind (deref p s) (\<lambda>_ s.
      kbind (klift (slab_tail (slabs s) p) s) (\<lambda>p s.
        let part = partial_slabs (caches s cache);
            s = upd_slab p (\<lambda>l. l\<lparr>sl_next := part\<rparr>) s
        in kret () (upd_slab part (\<lambda>l. l\<lparr>sl_prev := p\<rparr>) s))))"

definition init_kmem_cache_alloc :: "(kheap \<Rightarrow> int heap_run) \<Rightarrow> addr \<Rightarrow> kheap \<Rightarrow> addr heap_run" where
  "init_kmem_cache_alloc swap cache s =
     (let s = upd_cache cache (\<lambda>c. c\<lparr>ref_cnt := ref_cnt c + 1\<rparr>) s in
      kbind (if partial_slabs (caches s cache) = NULL then refill swap cache s else kret () s) (\<lambda>_ s.
      kbind (GetObj (partial_slabs (caches s cache)) (csize (caches s cache)) s) (\<lambda>ret s.
        if ret = NULL then
          kbind
            (if sl_next (slabs s (partial_slabs (caches s cache))) = NULL then
               kbind (append_full cache s) (\<lambda>_ s.
                 refill swap cache (upd_cache cache (\<lambda>c. c\<lparr>partial_slabs := NULL\<rparr>) s))
             else
               kbind (append_full cache s) (\<lambda>_ s.
                 let nx = sl_next (slabs s (partial_slabs (caches s cache)));
                     s = upd_cache cache (\<lambda>c. c\<lparr>partial_slabs := nx\<rparr>) s
                 in kret () (upd_slab nx (\<lambda>l. l\<lparr>sl_prev := NULL\<rparr>) s)))
            (\<lambda>_ s. GetObj (partial_slabs (caches s cache)) (csize (caches s cache)) s)
        else kret ret s)))"

definition IsDigit :: "char \<Rightarrow> bool" where
  "IsDigit x \<longleftrightarrow> (of_char x :: int) \<ge> of_char CHR ''0'' \<and> (of_char x :: int) \<le> of_char CHR ''9''"

definition CalculateBytes :: "string \<Rightarrow> int" where
  "CalculateBytes info = fold (\<lambda>c v.
     if IsDigit c then v * 10 + (of_char c - of_char CHR ''0'')
     else if c = CHR ''K'' then v * 1024 else v) (drop 6 info) 0"

definition CalculatePages :: "string \<Rightarrow> int" where
  "CalculatePages info =
     (let v = CalculateBytes info in if v < 4096 then 1 else v div 4096 * 2)"

fun create_caches :: "(kheap \<Rightarrow> int heap_run) \<Rightarrow> string list \<Rightarrow> addr \<Rightarrow> addr \<Rightarrow> kheap \<Rightarrow> unit heap_run" where
  "create_caches swap [] cache_cache cachep s = kret () s"
| "create_caches swap (nm # nms) cache_cache cachep s =
     kbind (init_kmem_cache_alloc swap cache_cache s) (\<lambda>cache s.
     kbind (create_boot_cache cache nm (word_of_int (CalculateBytes nm)) (word_of_int (CalculatePages nm))
              (kmem_cache_ctor cache s)) (\<lambda>_ s.
       let s = upd_cache cachep (\<lambda>c. c\<lparr>c_next := cache\<rparr>) s;
           s = upd_cache cache (\<lambda>c. c\<lparr>c_prev := cachep\<rparr>) s
       in create_caches swap nms cache_cache cache s))"

definition init_create_kmalloc_cache :: "(kheap \<Rightarrow> int heap_run) \<Rightarrow> kheap \<Rightarrow> unit heap_run" where
  "init_create_kmalloc_cache swap s = create_caches swap kmem_cache_info (kmem_caches s) (kmem_caches s) s"

partial_function (option) kmalloc_cache :: "(addr \<Rightarrow> kmem_cache) \<Rightarrow> uint \<Rightarrow> addr \<Rightarrow> addr option" where
  [code]: "kmalloc_cache h sz cachep =
     (if cachep \<noteq> NULL then
        if word_of_int (CalculateBytes (cname (h cachep))) > sz then Some cachep
        else kmalloc_cache h sz (c_next (h cachep))
      else Some cachep)"

definition kmalloc :: "(kheap \<Rightarrow> int heap_run) \<Rightarrow> uint \<Rightarrow> kheap \<Rightarrow> addr heap_run" where
  "kmalloc swap sz s =
     kbind (klift (kmalloc_cache (caches s) sz (c_next (caches s (kmem_caches s)))) s) (\<lambda>cachep s.
       if cachep = NULL then kstop (Panic (line ''error while in kmalloc''))
       else init_kmem_cache_alloc swap cachep s)"

section \<open>Release\<close>

definition off_middle :: "addr \<Rightarrow> kheap \<Rightarrow> kheap" where
  "off_middle slabp s =
     (if sl_next (slabs s slabp) = NULL then upd_slab (sl_prev (slabs s slabp)) (\<lambda>l. l\<lparr>sl_next := NULL\<rparr>) s
      else
        let s = upd_slab (sl_prev (slabs s slabp)) (\<lambda>l. l\<lparr>sl_next := sl_next (slabs s slabp)\<rparr>) s;
            s = upd_slab (sl_next (slabs s slabp)) (\<lambda>l. l\<lparr>sl_prev := sl_prev (slabs s slabp)\<rparr>) s;
            s = upd_slab slabp (\<lambda>l. l\<lparr>sl_next := NULL\<rparr>) s
        in upd_slab slabp (\<lambda>l. l\<lparr>sl_prev := NULL\<rparr>) s)"

definition move_slab_off_full :: "addr \<Rightarrow> addr \<Rightarrow> kheap \<Rightarrow> kheap" where
  "move_slab_off_full slabp cache s =
     (if sl_prev (slabs s slabp) = NULL then upd_cache cache (\<lambda>c. c\<lparr>full_slabs := sl_next (slabs s slabp)\<rparr>) s
      else off_middle slabp s)"

definition move_slab_off_partial :: "addr \<Rightarrow> addr \<Rightarrow> kheap \<Rightarrow> kheap" where
  "move_slab_off_partial slabp cache s =
     (if sl_prev (slabs s slabp) = NULL then upd_cache cache (\<lambda>c. c\<lparr>partial_slabs := sl_next (slabs s slabp)\<rparr>) s
      else off_middle slabp s)"

fun unmap_loop :: "nat \<Rightarrow> uint \<Rightarrow> kheap \<Rightarrow> unit heap_run" where
  "unmap_loop 0 map_addr s = kret () s"
| "unmap_loop (Suc n) map_addr s =
     kbind (unmap (pgd_kern s) map_addr s) (\<lambda>_ s. unmap_loop n (map_addr + PGSIZE) s)"

definition check_free_buddy :: "addr \<Rightarrow> kheap \<Rightarrow> int heap_run" where
  "check_free_buddy slab s =
     (if heap_top s > free_list (slabs s slab) + PGSIZE * slab_size (slabs s slab) - slab_t_size then kret 0 s
      else
        kbind (free_buddy (pg_list (slabs s slab)) s) (\<lambda>_ s.
          let pg_num = slab_size (slabs s slab); map_addr = heap_top s - PGSIZE * pg_num
          in kbind (unmap_loop (nat (sint pg_num)) map_addr s) (\<lambda>_ s.
               kret 1 (s\<lparr>heap_top := heap_top s - PGSIZE * pg_num\<rparr>))))"

definition move_slab_to_free :: "addr \<Rightarrow> addr \<Rightarrow> kheap \<Rightarrow> unit heap_run" where
  "move_slab_to_free slabp cache s =
     kbind (check_free_buddy slabp s) (\<lambda>freed s.
       if freed \<noteq> 0 then kret () s
       else if free_slabs (caches s cache) = NULL then kret () (upd_cache cache (\<lambda>c. c\<lparr>free_slabs := slabp\<rparr>) s)
       else
         kbind (klift (slab_tail (slabs s) (free_slabs (caches s cache))) s) (\<lambda>slabp2 s.
           let s = upd_slab slabp2 (\<lambda>l. l\<lparr>sl_next := slabp\<rparr>) s
           in kret () (upd_slab slabp (\<lambda>l. l\<lparr>sl_prev := slabp2\<rparr>) s)))"

definition move_slab_to_partial :: "addr \<Rightarrow> addr \<Rightarrow> kheap \<Rightarrow> unit heap_run" where
  "move_slab_to_partial slabp cache s =
     (if partial_slabs (caches s cache) = NULL then kret () (upd_cache cache (\<lambda>c. c\<lparr>partial_slabs := slabp\<rparr>) s)
      else
        kbind (klift (slab_tail (slabs s) (partial_slabs (caches s cache))) s) (\<lambda>slabp2 s.
          let s = upd_slab slabp2 (\<lambda>l. l\<lparr>sl_next := slabp\<rparr>) s
          in kret () (upd_slab slabp (\<lambda>l. l\<lparr>sl_prev := slabp2\<rparr>) s)))"

text \<open>A walk over a list of slabs returns the slab that took the object back, or null.\<close>

partial_function (option) free_walk :: "addr \<Rightarrow> uint \<Rightarrow> addr \<Rightarrow> kheap \<Rightarrow> addr heap_run" where
  [code]: "free_walk obj_addr obj_size slabp s =
     (if slabp \<noteq> NULL then
        kbind (FreeObj obj_addr slabp obj_size s) (\<lambda>r s.
          if r \<noteq> 0 then kret slabp s else free_walk obj_addr obj_size (sl_next (slabs s slabp)) s)
      else kret NULL s)"

definition free_obj_kmem_cache :: "addr \<Rightarrow> addr \<Rightarrow> kheap \<Rightarrow> int heap_run" where
  "free_obj_kmem_cache obj_addr cache s =
     (let s = upd_cache cache (\<lambda>c. c\<lparr>ref_cnt := ref_cnt c - 1\<rparr>) s;
          obj_size = csize (caches s cache)
      in kbind (free_walk obj_addr obj_size (full_slabs (caches s cache)) s) (\<lambda>slabp s.
        if slabp \<noteq> NULL then
          let s = move_slab_off_full slabp cache s
          in kbind
               (if active (slabs s slabp) = 0 then move_slab_to_free slabp cache s
                else move_slab_to_partial slabp cache s) (\<lambda>_ s. kret 1 s)
        else
          kbind (free_walk obj_addr obj_size (partial_slabs (caches s cache)) s) (\<lambda>slabp s.
            if slabp \<noteq> NULL then
              let s = move_slab_off_partial slabp cache s
              in kbind (if active (slabs s slabp) = 0 then move_slab_to_free slabp cache s else kret () s)
                   (\<lambda>_ s. kret 1 s)
            else kret 0 s)))"

partial_function (option) kfree_loop :: "addr \<Rightarrow> addr \<Rightarrow> kheap \<Rightarrow> unit heap_run" where
  [code]: "kfree_loop obj_addr cachep s =
     (if cachep \<noteq> NULL then
        kbind (free_obj_kmem_cache obj_addr cachep s) (\<lambda>r s.
          if r \<noteq> 0 then kret () s else kfree_loop obj_addr (c_next (caches s cachep)) s)
      else kstop (Panic (line ''error,obj not in slab management'')))"

definition kfree :: "addr \<Rightarrow> kheap \<Rightarrow> unit heap_run" where
  "kfree ptr s = kfree_loop ptr (kmem_caches s) s"

section \<open>Start-up and tools\<close>

definition init_slab :: "(kheap \<Rightarrow> int heap_run) \<Rightarrow> addr \<Rightarrow> kheap \<Rightarrow> unit heap_run" where
  "init_slab swap kmem_cache_boot s =
     kbind (create_boot_cache kmem_cache_boot ''kmem_cache'' kmem_cache_t_size 1 s) (\<lambda>_ s.
     kbind (init_kmem_cache_alloc swap kmem_cache_boot s) (\<lambda>cache_cache s.
     kbind (create_boot_cache cache_cache ''cache_cache'' kmem_cache_t_size 1 (kmem_cache_ctor cache_cache s)) (\<lambda>_ s.
       init_create_kmalloc_cache swap (s\<lparr>kmem_caches := cache_cache\<rparr>))))"

partial_function (option) find_cache :: "(addr \<Rightarrow> kmem_cache) \<Rightarrow> string \<Rightarrow> addr \<Rightarrow> addr option" where
  [code]: "find_cache h info cachep =
     (if cachep \<noteq> NULL then if cname (h cachep) = info then Some cachep else find_cache h info (c_next (h cachep))
      else Some NULL)"

definition FindCache :: "string \<Rightarrow> kheap \<Rightarrow> addr option" where
  "FindCache info s = find_cache (caches s) info (kmem_caches s)"

definition FindByName :: "string \<Rightarrow> kheap \<Rightarrow> addr option" where
  "FindByName nm s = (if kmem_caches s = NULL then Some NULL else find_cache (caches s) nm (kmem_caches s))"

partial_function (option) slab_count :: "(addr \<Rightarrow> slab) \<Rightarrow> addr \<Rightarrow> int \<Rightarrow> int option" where
  [code]: "slab_count h p cnt = (if p \<noteq> NULL then slab_count h (sl_next (h p)) (cnt + 1) else Some cnt)"

definition GetSlabCnt :: "addr \<Rightarrow> kheap \<Rightarrow> int option" where
  "GetSlabCnt l s = (if l = NULL then Some 0 else slab_count (slabs s) l 0)"

definition GetPartialCnt :: "addr \<Rightarrow> kheap \<Rightarrow> int option" where
  "GetPartialCnt cache s = GetSlabCnt (partial_slabs (caches s cache)) s"

definition GetFreeCnt :: "addr \<Rightarrow> kheap \<Rightarrow> int option" where
  "GetFreeCnt cache s = GetSlabCnt (free_slabs (caches s cache)) s"

definition GetFullCnt :: "addr \<Rightarrow> kheap \<Rightarrow> int option" where
  "GetFullCnt cache s = GetSlabCnt (full_slabs (caches s cache)) s"

end
