(* ===== verification/Slab_Objects.thy ===== *)
theory Slab_Objects
  imports Slab "HOL-Library.Multiset"
begin

text \<open>
  The objects of one slab. The locale \<open>object_pool\<close> is what a cache relies on: a pool of a fixed
  number of objects, taken and given back one at a time. The interpretation shows that \<open>GetObj\<close> and
  \<open>FreeObj\<close> implement it on the free list of a slab.
\<close>

section \<open>Object pools\<close>

datatype obj_op = Get | Put nat

text \<open>A client keeps the addresses it was given, newest first; a \<open>Put\<close> names one by its position.\<close>

fun obj_client ::
    "('s \<Rightarrow> (addr, 's) run) \<Rightarrow> (addr \<Rightarrow> 's \<Rightarrow> (int, 's) run) \<Rightarrow> obj_op list \<Rightarrow> addr list \<Rightarrow> 's \<Rightarrow> (addr list, 's) run" where
  "obj_client get put [] ps s = kret ps s"
| "obj_client get put (Get # ops) ps s =
     kbind (get s) (\<lambda>p s. obj_client get put ops (if p = NULL then ps else p # ps) s)"
| "obj_client get put (Put i # ops) ps s =
     (if i < length ps then kbind (put (ps ! i) s) (\<lambda>_ s. obj_client get put ops (remove1 (ps ! i) ps) s)
      else obj_client get put ops ps s)"

locale object_pool =
  fixes pool :: "'s \<Rightarrow> addr list \<Rightarrow> bool"
    and cap :: nat
    and get :: "'s \<Rightarrow> (addr, 's) run"
    and put :: "addr \<Rightarrow> 's \<Rightarrow> (int, 's) run"
  assumes held: "pool s H \<Longrightarrow> distinct H \<and> length H \<le> cap \<and> NULL \<notin> set H"
    and get_full: "pool s H \<Longrightarrow> length H = cap \<Longrightarrow> get s = kret NULL s"
    and get_law: "pool s H \<Longrightarrow> length H < cap \<Longrightarrow> \<exists>p t. get s = kret p t \<and> pool t (p # H)"
    and put_law: "pool s H \<Longrightarrow> p \<in> set H \<Longrightarrow>
      \<exists>t. put p s = kret 1 t \<and> pool t (remove1 p H) \<and> (\<exists>u. get t = kret p u)"
begin

lemma get_cases:
  assumes "pool s H"
  shows "(length H = cap \<and> get s = kret NULL s) \<or>
    (length H < cap \<and> (\<exists>p t. get s = kret p t \<and> p \<noteq> NULL \<and> p \<notin> set H \<and> pool t (p # H)))"
  using held [OF assms] get_full [OF assms] get_law [OF assms] held by (metis le_neq_implies_less
    distinct.simps(2) list.set_intros(1))

lemma client_pool:
  assumes "pool s H"
  shows "\<exists>H' t. obj_client get put ops H s = kret H' t \<and> pool t H'"
  using assms
proof (induction ops arbitrary: H s)
  case (Cons ev ops)
  show ?case
  proof (cases ev)
    case Get
    with get_cases [OF Cons.prems] Cons.IH Cons.prems show ?thesis by fastforce
  next
    case (Put i)
    with put_law [OF Cons.prems, of "H ! i"] Cons.IH Cons.prems show ?thesis by fastforce
  qed
qed simp

text \<open>A client that only takes gets all objects that are left and then null pointers.\<close>

lemma drain:
  assumes "pool s H"
  shows "\<exists>H' t. obj_client get put (replicate n Get) H s = kret (H' @ H) t \<and> pool t (H' @ H) \<and>
    length H' = min n (cap - length H)"
  using assms
proof (induction n arbitrary: H s)
  case (Suc n)
  from get_cases [OF Suc.prems] show ?case
  proof (elim disjE conjE exE)
    assume "length H = cap" "get s = kret NULL s"
    with Suc.IH [OF Suc.prems] show ?thesis by simp
  next
    fix p t
    assume less: "length H < cap" and p: "get s = kret p t" "p \<noteq> NULL" "pool t (p # H)"
    from Suc.IH [OF p(3)] obtain H' u where "obj_client get put (replicate n Get) (p # H) t = kret (H' @ p # H) u"
      "pool u (H' @ p # H)" "length H' = min n (cap - Suc (length H))" by auto
    with less p show ?thesis by (intro exI [of _ "H' @ [p]"] exI [of _ u]) simp
  qed
qed simp

end

section \<open>The free list of a slab\<close>

definition ids_from :: "kheap \<Rightarrow> addr \<Rightarrow> nat \<Rightarrow> nat list" where
  "ids_from s a k = map (\<lambda>i. unat (free_ids s (free_list (slabs s a) + 2 * of_nat i))) [k..<unat (obj_num (slabs s a))]"

definition next_id :: "kheap \<Rightarrow> addr \<Rightarrow> nat \<Rightarrow> nat" where
  "next_id s a k = unat (free_ids s (free_list (slabs s a) + 2 * of_nat k))"

definition obj_at :: "kheap \<Rightarrow> addr \<Rightarrow> uint \<Rightarrow> nat \<Rightarrow> addr" where
  "obj_at s a z i = obj (slabs s a) + z * of_nat i"

text \<open>The header of a slab of \<open>n\<close> objects of \<open>z\<close> bytes: its two areas do not wrap around.\<close>

definition slab_wf :: "addr \<Rightarrow> uint \<Rightarrow> nat \<Rightarrow> slab \<Rightarrow> bool" where
  "slab_wf a z n l \<longleftrightarrow> unat (obj_num l) = n \<and> n \<le> 32768 \<and> 2 \<le> unat z \<and> 0 < unat (obj l) \<and>
     unat (obj l) + unat z * n \<le> 2 ^ 32 \<and> unat (free_list l) + 2 * n \<le> 2 ^ 32"

definition slab_pool :: "addr \<Rightarrow> uint \<Rightarrow> nat \<Rightarrow> kheap \<Rightarrow> addr list \<Rightarrow> bool" where
  "slab_pool a z n s H \<longleftrightarrow> slab_wf a z n (slabs s a) \<and> active (slabs s a) = int (length H) \<and> length H \<le> n \<and>
     (\<exists>ids. H = map (obj_at s a z) ids \<and> mset ids + mset (ids_from s a (length H)) = mset [0..<n])"

lemma slabs_upd [simp]:
  "slabs (upd_slab a f s) b = (if b = a then f (slabs s a) else slabs s b)"
  "free_ids (upd_slab a f s) = free_ids s" "caches (upd_slab a f s) = caches s"
  "heap_top (upd_slab a f s) = heap_top s" "kmem_caches (upd_slab a f s) = kmem_caches s"
  by (simp_all add: upd_slab_def)

lemma caches_upd [simp]:
  "caches (upd_cache a f s) b = (if b = a then f (caches s a) else caches s b)"
  "free_ids (upd_cache a f s) = free_ids s" "slabs (upd_cache a f s) = slabs s"
  "heap_top (upd_cache a f s) = heap_top s" "kmem_caches (upd_cache a f s) = kmem_caches s"
  by (simp_all add: upd_cache_def)

lemma obj_at_nat:
  assumes "slab_wf a z n (slabs s a)" "i < n"
  shows "unat (obj_at s a z i) = unat (obj (slabs s a)) + unat z * i"
proof -
  have "unat z * i + unat z \<le> unat z * n" using assms(2) mult_le_mono2 [of "Suc i" n "unat z"] by simp
  with assms(1) have b: "unat (obj (slabs s a)) + unat z * i < 2 ^ 32" by (simp add: slab_wf_def)
  have "obj_at s a z i = of_nat (unat (obj (slabs s a)) + unat z * i)" by (simp add: obj_at_def)
  also have "unat \<dots> = unat (obj (slabs s a)) + unat z * i" using b by (simp only: unat_of_nat) simp
  finally show ?thesis .
qed

lemma obj_at_inj:
  assumes "slab_wf a z n (slabs s a)" "i < n" "j < n"
  shows "obj_at s a z i = obj_at s a z j \<longleftrightarrow> i = j"
proof -
  have "0 < unat z" using assms(1) by (simp add: slab_wf_def)
  moreover have "obj_at s a z i = obj_at s a z j \<Longrightarrow> unat z * i = unat z * j"
    using obj_at_nat [OF assms(1,2)] obj_at_nat [OF assms(1,3)] by (metis add_left_cancel)
  ultimately show ?thesis by auto
qed

lemma slot_nat16:
  assumes "slab_wf a z n (slabs s a)" "i < n"
  shows "unat (free_list (slabs s a) + 2 * of_nat i) = unat (free_list (slabs s a)) + 2 * i"
proof -
  have b: "unat (free_list (slabs s a)) + 2 * i < 2 ^ 32" using assms by (simp add: slab_wf_def)
  have "free_list (slabs s a) + 2 * of_nat i = of_nat (unat (free_list (slabs s a)) + 2 * i)" by simp
  also have "unat \<dots> = unat (free_list (slabs s a)) + 2 * i" using b by (simp only: unat_of_nat) simp
  finally show ?thesis .
qed

lemma ids_from_Cons:
  "k < unat (obj_num (slabs s a)) \<Longrightarrow>
   ids_from s a k = unat (free_ids s (free_list (slabs s a) + 2 * of_nat k)) # ids_from s a (Suc k)"
  by (simp add: ids_from_def upt_conv_Cons)

lemma pool_ids:
  assumes "slab_pool a z n s H"
  obtains ids where "H = map (obj_at s a z) ids" "mset ids + mset (ids_from s a (length H)) = mset [0..<n]"
    "\<And>i. i \<in> set ids \<Longrightarrow> i < n" "distinct ids" "distinct H"
proof -
  from assms obtain ids where ids: "H = map (obj_at s a z) ids" "mset ids + mset (ids_from s a (length H)) = mset [0..<n]"
    and wf: "slab_wf a z n (slabs s a)" by (auto simp: slab_pool_def)
  have less: "i < n" if "i \<in> set ids" for i
    using that arg_cong [OF ids(2), of set_mset] by auto
  have "distinct (ids @ ids_from s a (length H))"
    using ids(2) mset_eq_imp_distinct_iff [of "ids @ ids_from s a (length H)" "[0..<n]"] by simp
  then have d: "distinct ids" by simp
  have "inj_on (obj_at s a z) (set ids)" using obj_at_inj [OF wf] less by (auto simp: inj_on_def)
  with d ids(1) have "distinct H" by (simp add: distinct_map)
  with that [OF ids less d] show ?thesis by blast
qed

lemma pool_active:
  assumes "slab_pool a z n s H"
  shows "word_of_int (active (slabs s a)) = obj_num (slabs s a) \<longleftrightarrow> length H = n"
proof -
  have "obj_num (slabs s a) = of_nat n" using assms by (auto simp: slab_pool_def slab_wf_def)
  moreover have "word_of_int (active (slabs s a)) = (of_nat (length H) :: uint)"
    using assms by (simp add: slab_pool_def)
  moreover have "n < 2 ^ 32" "length H < 2 ^ 32" using assms by (auto simp: slab_pool_def slab_wf_def)
  ultimately show ?thesis by (simp add: word_unat_eq_iff unat_of_nat)
qed

lemma GetObj_takes:
  assumes pool: "slab_pool a z n s H" and less: "length H < n"
  shows "next_id s a (length H) < n"
    "GetObj a z s = kret (obj_at s a z (next_id s a (length H)))
      (upd_slab a (\<lambda>l. l\<lparr>active := active l + 1, sl_ref_num := sl_ref_num l + 1\<rparr>) s)"
    "slab_pool a z n (upd_slab a (\<lambda>l. l\<lparr>active := active l + 1, sl_ref_num := sl_ref_num l + 1\<rparr>) s)
      (obj_at s a z (next_id s a (length H)) # H)"
proof -
  define t where "t = upd_slab a (\<lambda>l. l\<lparr>active := active l + 1, sl_ref_num := sl_ref_num l + 1\<rparr>) s"
  have wf: "slab_wf a z n (slabs s a)" and act: "active (slabs s a) = int (length H)"
    using pool by (auto simp: slab_pool_def)
  obtain ids where ids: "H = map (obj_at s a z) ids" "mset ids + mset (ids_from s a (length H)) = mset [0..<n]"
    using pool_ids [OF pool] by blast
  define i where "i = next_id s a (length H)"
  have cons: "ids_from s a (length H) = i # ids_from s a (Suc (length H))"
    using less wf by (simp add: ids_from_Cons i_def slab_wf_def next_id_def)
  have i: "i < n" using arg_cong [OF ids(2), of set_mset] by (auto simp: cons)
  have fold_t: "upd_slab a (\<lambda>l. l\<lparr>sl_ref_num := sl_ref_num l + 1\<rparr>) (upd_slab a (\<lambda>l. l\<lparr>active := active l + 1\<rparr>) s) = t"
    by (simp add: t_def upd_slab_def)
  have get: "GetObj a z s = kret (obj_at s a z i) t"
    using pool_active [OF pool] less wf
    by (simp add: GetObj_def in_free_list_def act Let_def obj_at_def i_def next_id_def slab_wf_def fold_t)
  have same: "obj_at t a z = obj_at s a z" "ids_from t a = ids_from s a"
    by (auto simp: t_def obj_at_def ids_from_def fun_eq_iff)
  have wft: "slab_wf a z n (slabs t a)" using wf by (simp add: t_def slab_wf_def)
  have "slab_pool a z n t (obj_at s a z i # H)"
    unfolding slab_pool_def same
    using wft less ids cons by (auto simp: t_def act intro!: exI [of _ "i # ids"])
  with get i show "next_id s a (length H) < n" "GetObj a z s = kret (obj_at s a z (next_id s a (length H)))
      (upd_slab a (\<lambda>l. l\<lparr>active := active l + 1, sl_ref_num := sl_ref_num l + 1\<rparr>) s)"
    "slab_pool a z n (upd_slab a (\<lambda>l. l\<lparr>active := active l + 1, sl_ref_num := sl_ref_num l + 1\<rparr>) s)
      (obj_at s a z (next_id s a (length H)) # H)"
    unfolding t_def i_def by simp_all
qed

lemma GetObj_full: "slab_pool a z n s H \<Longrightarrow> length H = n \<Longrightarrow> GetObj a z s = kret NULL s"
  by (simp add: GetObj_def pool_active)

lemma map_remove1:
  "inj_on f (insert x (set xs)) \<Longrightarrow> map f (remove1 x xs) = remove1 (f x) (map f xs)"
  by (induction xs) (auto simp: inj_on_def)

lemma sint_of_nat: "m < 2 ^ 31 \<Longrightarrow> sint (of_nat m :: uint) = int m"
  by (simp add: signed_of_nat signed_take_bit_int_eq_self)

text \<open>The number of an object from its address.\<close>

lemma obj_number:
  assumes "slab_wf a z n (slabs s a)" "i < n"
  shows "(obj_at s a z i - obj (slabs s a)) div z = of_nat i" "sint (of_nat i :: uint) = int i"
proof -
  have z: "0 < unat z" and n: "n \<le> 32768" using assms(1) by (auto simp: slab_wf_def)
  have small: "i < 2 ^ 31" using n assms(2) by simp
  have "obj (slabs s a) \<le> obj_at s a z i" using obj_at_nat [OF assms] by (simp add: word_le_nat_alt)
  then have "unat (obj_at s a z i - obj (slabs s a)) = unat z * i"
    using obj_at_nat [OF assms] by (simp add: unat_sub)
  then have "unat ((obj_at s a z i - obj (slabs s a)) div z) = i" using z by (simp add: unat_div_distrib)
  moreover have "unat (of_nat i :: uint) = i" using small by (simp add: unat_of_nat)
  ultimately show "(obj_at s a z i - obj (slabs s a)) div z = of_nat i" by (simp add: word_unat_eq_iff)
  show "sint (of_nat i :: uint) = int i" using small by (rule sint_of_nat)
qed

lemma FreeObj_returns:
  assumes pool: "slab_pool a z n s H" and p: "p \<in> set H"
  shows "\<exists>t. FreeObj p a z s = kret 1 t \<and> slab_pool a z n t (remove1 p H) \<and>
    obj_at s a z (next_id t a (length H - 1)) = p \<and> obj_at t a z = obj_at s a z \<and>
    t = (upd_slab a (\<lambda>l. l\<lparr>active := active l - 1, sl_ref_num := sl_ref_num l - 1\<rparr>) s)\<lparr>free_ids := free_ids t\<rparr> \<and>
    (\<forall>b. b \<noteq> free_list (slabs s a) + 2 * of_nat (length H - 1) \<longrightarrow> free_ids t b = free_ids s b)"
proof -
  have wf: "slab_wf a z n (slabs s a)" and act: "active (slabs s a) = int (length H)" and le: "length H \<le> n"
    using pool by (auto simp: slab_pool_def)
  obtain ids where ids: "H = map (obj_at s a z) ids" "mset ids + mset (ids_from s a (length H)) = mset [0..<n]"
      "\<And>i. i \<in> set ids \<Longrightarrow> i < n" and d: "distinct H" using pool_ids [OF pool] by blast
  from p obtain i where i: "i \<in> set ids" "p = obj_at s a z i" using ids(1) by auto
  with ids(3) have less: "i < n" by simp
  have n: "n \<le> 32768" "unat (obj_num (slabs s a)) = n" using wf by (auto simp: slab_wf_def)
  obtain k where k: "length H = Suc k" using p by (cases H) auto
  define t where "t = (upd_slab a (\<lambda>l. l\<lparr>active := active l - 1, sl_ref_num := sl_ref_num l - 1\<rparr>) s)
    \<lparr>free_ids := (free_ids s)(free_list (slabs s a) + 2 * of_nat k := of_nat i)\<rparr>"
  have two: "upd_slab a (\<lambda>l. l\<lparr>sl_ref_num := sl_ref_num l - 1\<rparr>) (upd_slab a (\<lambda>l. l\<lparr>active := active l - 1\<rparr>) s) =
      upd_slab a (\<lambda>l. l\<lparr>active := active l - 1, sl_ref_num := sl_ref_num l - 1\<rparr>) s" by (simp add: upd_slab_def)
  have num: "\<not> of_nat i \<ge> obj_num (slabs s a)" using less n by (simp add: word_le_nat_alt unat_of_nat)
  have free: "FreeObj p a z s = kret 1 t"
    using obj_number [OF wf less] num le n k
    by (simp add: FreeObj_def i(2) two Let_def in_free_list_def act t_def)
  have same: "obj_at t a z = obj_at s a z" by (simp add: t_def obj_at_def fun_eq_iff)
  have "free_ids t (free_list (slabs s a) + 2 * of_nat j) = free_ids s (free_list (slabs s a) + 2 * of_nat j)"
    if "k < j" "j < n" for j
    using that slot_nat16 [OF wf, of j] slot_nat16 [OF wf, of k] by (simp add: t_def word_unat_eq_iff)
  then have tail: "ids_from t a (Suc k) = ids_from s a (Suc k)" using n by (simp add: ids_from_def t_def)
  have here: "free_ids t (free_list (slabs t a) + 2 * of_nat k) = of_nat i" by (simp add: t_def)
  then have cons: "ids_from t a k = i # ids_from s a (Suc k)"
  proof -
    have "k < unat (obj_num (slabs t a))" using le k n by (simp add: t_def)
    moreover have "unat (of_nat i :: ushort) = i" using less n by (simp add: unat_of_nat)
    ultimately show ?thesis using here by (simp add: ids_from_Cons tail)
  qed
  have "slab_wf a z n (slabs t a)" using wf by (simp add: t_def slab_wf_def)
  moreover have "remove1 p H = map (obj_at t a z) (remove1 i ids)"
    unfolding same ids(1) i(2) using i(1) obj_at_inj [OF wf] ids(3)
    by (intro map_remove1 [symmetric]) (auto simp: inj_on_def)
  moreover have "mset ids = add_mset i (mset (remove1 i ids))" using i(1) by simp
  with ids(2) have "mset (remove1 i ids) + mset (ids_from t a k) = mset [0..<n]"
    by (simp only: cons k) (simp add: ac_simps del: mset_remove1)
  moreover have len: "length (remove1 p H) = k" using p k by (simp add: length_remove1)
  moreover have "active (slabs t a) = int k" by (simp add: t_def act k)
  ultimately have "slab_pool a z n t (remove1 p H)" unfolding slab_pool_def using le k by auto
  moreover have "next_id t a k = i" using here less n by (simp add: next_id_def unat_of_nat)
  ultimately show ?thesis using free i(2) same k by (auto simp: t_def)
qed

text \<open>An address outside the object area is not the slab's: nothing happens.\<close>

lemma FreeObj_foreign:
  assumes wf: "slab_wf a z n (slabs s a)" and out: "unat z * n \<le> unat (p - obj (slabs s a))"
  shows "FreeObj p a z s = kret 0 s"
proof -
  let ?q = "(p - obj (slabs s a)) div z"
  have z: "2 \<le> unat z" and n: "unat (obj_num (slabs s a)) = n" using wf by (auto simp: slab_wf_def)
  have q: "unat ?q = unat (p - obj (slabs s a)) div unat z" by (simp add: unat_div_distrib)
  have "n \<le> unat ?q" using z out by (simp add: q less_eq_div_iff_mult_less_eq mult.commute)
  moreover have "unat ?q \<le> unat (p - obj (slabs s a)) div 2" unfolding q by (rule div_le_mono2) (use z in auto)
  then have "unat ?q < 2 ^ 31" using unsigned_less [of "p - obj (slabs s a)", where ?'a = nat] by simp
  then have "sint ?q = int (unat ?q)" using sint_of_nat [of "unat ?q"] by simp
  ultimately show ?thesis using n by (simp add: FreeObj_def Let_def word_le_nat_alt)
qed

section \<open>The interpretation\<close>

interpretation so: object_pool "slab_pool a z n" n "GetObj a z" "\<lambda>p. FreeObj p a z" for a z n
proof
  fix s H
  assume pool: "slab_pool a z n s H"
  obtain ids where ids: "H = map (obj_at s a z) ids" "\<And>i. i \<in> set ids \<Longrightarrow> i < n" "distinct H"
    using pool_ids [OF pool] by blast
  have wf: "slab_wf a z n (slabs s a)" using pool by (simp add: slab_pool_def)
  have "obj_at s a z i \<noteq> NULL" if "i < n" for i
    using obj_at_nat [OF wf that] wf by (auto simp: slab_wf_def)
  then show "distinct H \<and> length H \<le> n \<and> NULL \<notin> set H" using ids pool by (auto simp: slab_pool_def)
next
  fix s H
  assume "slab_pool a z n s H" "length H = n"
  then show "GetObj a z s = kret NULL s" by (rule GetObj_full)
next
  fix s H
  assume "slab_pool a z n s H" "length H < n"
  then show "\<exists>p t. GetObj a z s = kret p t \<and> slab_pool a z n t (p # H)" using GetObj_takes by blast
next
  fix s H p
  assume pool: "slab_pool a z n s H" and p: "p \<in> set H"
  obtain t where t: "FreeObj p a z s = kret 1 t" "slab_pool a z n t (remove1 p H)"
      "obj_at s a z (next_id t a (length H - 1)) = p" "obj_at t a z = obj_at s a z"
    using FreeObj_returns [OF pool p] by blast
  have len: "length (remove1 p H) = length H - 1" "length H - 1 < n"
    using p pool by (auto simp: length_remove1 slab_pool_def neq_Nil_conv dest: length_pos_if_in_set)
  then have "\<exists>u. GetObj a z t = kret p u" using GetObj_takes(2) [OF t(2)] t(3,4) by simp
  with t show "\<exists>t. FreeObj p a z s = kret 1 t \<and> slab_pool a z n t (remove1 p H) \<and> (\<exists>u. GetObj a z t = kret p u)"
    by blast
qed

end
