(* ===== verification/Paging_Correct.thy ===== *)
theory Paging_Correct
  imports Paging
begin

text \<open>
  The page tables as a function from virtual pages to entries. \<open>map_page\<close> changes exactly the
  entry of its page, also when it has to add a table; \<open>unmap\<close> clears exactly that entry.
\<close>

section \<open>Indices and slots\<close>

lemma and_3FF: "x AND 0x3FF = take_bit 10 x" for x :: uint
  by (simp add: take_bit_eq_mask mask_eq_exp_minus_1)

lemma and_FFF: "x AND 0xFFF = take_bit 12 x" for x :: uint
  by (simp add: take_bit_eq_mask mask_eq_exp_minus_1)

lemma idx_less: "unat (PGD_IDX v) < 1024" "unat (PTE_IDX v) < 1024"
proof -
  have "unat (take_bit 10 x) < 1024" for x :: uint
    using take_bit_nat_less_exp [of 10 "unat x"] by (simp add: unsigned_take_bit_eq)
  then show "unat (PGD_IDX v) < 1024" "unat (PTE_IDX v) < 1024"
    by (simp_all only: PGD_IDX_def PTE_IDX_def and_3FF)
qed

definition same_page :: "uint \<Rightarrow> uint \<Rightarrow> bool" where
  "same_page v w \<longleftrightarrow> drop_bit 12 v = drop_bit 12 w"

lemma same_page_iff: "same_page v w \<longleftrightarrow> PGD_IDX v = PGD_IDX w \<and> PTE_IDX v = PTE_IDX w"
proof -
  have "drop_bit 12 x = push_bit 10 (PGD_IDX x) OR PTE_IDX x" for x :: uint
    by (rule bit_word_eqI) (auto simp: PGD_IDX_def PTE_IDX_def and_3FF bit_or_iff bit_push_bit_iff
        bit_drop_bit_eq bit_take_bit_iff ac_simps not_less dest: bit_imp_le_length)
  moreover have "PGD_IDX x = drop_bit 10 (drop_bit 12 x) AND 0x3FF" "PTE_IDX x = drop_bit 12 x AND 0x3FF" for x :: uint
    by (simp_all add: PGD_IDX_def PTE_IDX_def drop_bit_drop_bit)
  ultimately show ?thesis unfolding same_page_def by metis
qed

definition aligned :: "uint \<Rightarrow> bool" where
  "aligned a \<longleftrightarrow> a AND 0xFFF = 0"

lemma aligned_nat: "aligned a \<longleftrightarrow> 4096 dvd unat a"
proof -
  have "unat (take_bit 12 a) = unat a mod 4096"
    by (simp add: take_bit_eq_mod unat_mod_distrib)
  then show ?thesis unfolding aligned_def and_FFF dvd_eq_mod_eq_0 by (metis unat_eq_zero unsigned_0)
qed

lemma slot_nat:
  assumes "aligned a" "unat i < 1024"
  shows "unat (a + 4 * i) = unat a + 4 * unat i"
proof -
  obtain k where k: "unat a = 4096 * k" using assms(1) by (auto simp: aligned_nat)
  then have "4096 * k < 4096 * 1048576" using unsigned_less [of a, where ?'a = nat] by simp
  then have "unat a + 4096 \<le> 4294967296" using k by simp
  moreover have "unat (4 * i) = 4 * unat i" using assms(2) by (simp add: unat_mult_lem [THEN iffD1])
  ultimately show ?thesis using assms(2) by (simp add: unat_plus_if')
qed

lemma slot_inj:
  assumes "aligned a" "aligned b" "unat i < 1024" "unat j < 1024"
  shows "a + 4 * i = b + 4 * j \<longleftrightarrow> a = b \<and> i = j"
proof
  assume "a + 4 * i = b + 4 * j"
  then have eq: "unat a + 4 * unat i = unat b + 4 * unat j"
    using slot_nat [OF assms(1,3)] slot_nat [OF assms(2,4)] by metis
  obtain k l where kl: "unat a = 4096 * k" "unat b = 4096 * l" using assms(1,2) by (auto simp: aligned_nat dvd_def)
  have "(unat a + 4 * unat i) div 4096 = k" "(unat b + 4 * unat j) div 4096 = l"
    using kl assms(3,4) by simp_all
  with eq have "k = l" by simp
  with eq kl show "a = b \<and> i = j" by (simp add: word_unat_eq_iff)
qed simp

lemma aligned_mask [simp]: "aligned (x AND PAGE_MASK)"
  unfolding aligned_def PAGE_MASK_def by (simp add: and.assoc)

lemma PAGE_MASK_not: "PAGE_MASK = NOT 0xFFF"
  by (simp add: PAGE_MASK_def)

lemma slot_mask:
  assumes "aligned a" "unat i < 1024"
  shows "(a + 4 * i) AND PAGE_MASK = a"
proof -
  let ?x = "a + 4 * i"
  have "unat (4 * i) = 4 * unat i" using assms(2) by (simp add: unat_mult_lem [THEN iffD1])
  moreover have "unat ?x mod 4096 = 4 * unat i"
    using slot_nat [OF assms] assms by (simp add: aligned_nat mod_add_left_eq [symmetric] dvd_eq_mod_eq_0)
  moreover have "unat (?x AND 0xFFF) = unat ?x mod 4096"
    unfolding and_FFF by (simp add: take_bit_eq_mod unat_mod_distrib)
  ultimately have "?x AND 0xFFF = 4 * i" by (simp add: word_unat_eq_iff)
  moreover have "(?x AND 0xFFF) + (?x AND NOT 0xFFF) = ?x"
    by (subst disjunctive_add_eq_or) (auto simp: ac_simps bit_simps intro: bit_word_eqI)
  ultimately show ?thesis unfolding PAGE_MASK_not by (metis add_left_cancel add.commute)
qed

lemma aligned_offset [simp]: "aligned (a + PAGE_OFFSET) = aligned a"
proof -
  have "unat (a + PAGE_OFFSET) = (unat a + unat PAGE_OFFSET) mod 2 ^ 32"
    using unat_word_ariths(1) [of a PAGE_OFFSET] by simp
  moreover have "4096 dvd unat PAGE_OFFSET" by (simp add: PAGE_OFFSET_def)
  ultimately show ?thesis unfolding aligned_nat by (simp add: dvd_mod_iff dvd_add_left_iff)
qed

lemma mask_entry:
  assumes "fl AND PAGE_MASK = 0"
  shows "((a AND PAGE_MASK) OR fl) AND PAGE_MASK = a AND PAGE_MASK"
  using assms by (simp add: bit.conj_disj_distrib2 and.assoc)

lemma aligned_and: "aligned a \<Longrightarrow> a AND PAGE_MASK = a"
proof -
  assume "aligned a"
  moreover have "a = (a AND NOT 0xFFF) OR (a AND 0xFFF)"
    by (simp only: bit.conj_disj_distrib [symmetric] bit.disj_cancel_left bit.conj_one_right)
  ultimately show ?thesis unfolding aligned_def PAGE_MASK_not by (metis or.right_neutral)
qed

section \<open>The tables as a function\<close>

definition table :: "'a vmm_scheme \<Rightarrow> addr \<Rightarrow> uint \<Rightarrow> uint" where
  "table s pgd v = rd32 s (pgd + 4 * PGD_IDX v) AND PAGE_MASK"

definition pte_slot :: "'a vmm_scheme \<Rightarrow> addr \<Rightarrow> uint \<Rightarrow> addr" where
  "pte_slot s pgd v = table s pgd v + PAGE_OFFSET + 4 * PTE_IDX v"

definition pte_of :: "'a vmm_scheme \<Rightarrow> addr \<Rightarrow> uint \<Rightarrow> uint" where
  "pte_of s pgd v = (if table s pgd v = 0 then 0 else rd32 s (pte_slot s pgd v))"

text \<open>No table is the directory, and no two entries of the directory share a table.\<close>

definition tables_ok :: "'a vmm_scheme \<Rightarrow> addr \<Rightarrow> bool" where
  "tables_ok s pgd \<longleftrightarrow> aligned pgd \<and> (\<forall>v. table s pgd v \<noteq> 0 \<longrightarrow> table s pgd v + PAGE_OFFSET \<noteq> pgd) \<and>
     (\<forall>v w. table s pgd v \<noteq> 0 \<longrightarrow> table s pgd v = table s pgd w \<longrightarrow> PGD_IDX v = PGD_IDX w)"

lemma tables_okD:
  assumes "tables_ok s pgd"
  shows "aligned pgd" "table s pgd v \<noteq> 0 \<Longrightarrow> table s pgd v + PAGE_OFFSET \<noteq> pgd"
    "table s pgd v \<noteq> 0 \<Longrightarrow> table s pgd v = table s pgd w \<Longrightarrow> PGD_IDX v = PGD_IDX w"
  using assms unfolding tables_ok_def by blast+

lemma aligned_table [simp]: "aligned (table s pgd v)"
  by (simp add: table_def)

lemma rd_wr32 [simp]: "rd32 (wr32 a x s) b = (if b = a then x else rd32 s b)"
  by (simp add: rd32_def wr32_def)

text \<open>A store into an entry of a table changes that entry alone.\<close>

lemma store_pte:
  assumes ok: "tables_ok s pgd" and v: "table s pgd v \<noteq> 0"
    and t: "\<And>a. rd32 t a = (if a = pte_slot s pgd v then x else rd32 s a)"
  shows "table t pgd w = table s pgd w" "tables_ok t pgd"
    "pte_of t pgd w = (if same_page w v then x else pte_of s pgd w)"
proof -
  note pgd = tables_okD(1) [OF ok] tables_okD(2) [OF ok v]
  have tab: "table t pgd w = table s pgd w" for w
    using slot_inj [of pgd "table s pgd v + PAGE_OFFSET" "PGD_IDX w" "PTE_IDX v"] pgd idx_less
    by (simp add: table_def [of t] table_def [of s pgd w] t pte_slot_def)
  then show "table t pgd w = table s pgd w" by simp
  from tab have "table t pgd = table s pgd" by (rule ext)
  then show "tables_ok t pgd" using ok unfolding tables_ok_def by metis
  have "pte_slot s pgd w = pte_slot s pgd v \<longleftrightarrow> same_page w v" if "table s pgd w \<noteq> 0"
  proof -
    have "pte_slot s pgd w = pte_slot s pgd v \<longleftrightarrow> table s pgd w = table s pgd v \<and> PTE_IDX w = PTE_IDX v"
      using slot_inj [of "table s pgd w + PAGE_OFFSET" "table s pgd v + PAGE_OFFSET" "PTE_IDX w" "PTE_IDX v"] idx_less
      by (simp add: pte_slot_def)
    also have "table s pgd w = table s pgd v \<longleftrightarrow> PGD_IDX w = PGD_IDX v"
      using tables_okD(3) [OF ok that] by (metis table_def)
    finally show ?thesis by (simp add: same_page_iff)
  qed
  moreover have "table s pgd w = 0 \<Longrightarrow> \<not> same_page w v" using v by (auto simp: same_page_iff table_def)
  moreover have "pte_slot t pgd w = pte_slot s pgd w" using tab by (simp add: pte_slot_def)
  ultimately show "pte_of t pgd w = (if same_page w v then x else pte_of s pgd w)"
    using tab by (auto simp: pte_of_def t)
qed

text \<open>A fresh, cleared table in an empty entry of the directory changes no mapping.\<close>

lemma zero_page_rd:
  "rd32 (zero_page a s) b = (if \<exists>i. unat i < 1024 \<and> b = a + 4 * i then 0 else rd32 s b)"
proof -
  have "fold (\<lambda>i m. m(a + 4 * of_nat i := 0)) [0..<n] m b =
      (if \<exists>j<n. b = a + 4 * of_nat j then 0 else m b)" for n :: nat and m :: words
    by (induction n) (auto simp: less_Suc_eq)
  moreover have "(\<exists>j<1024. b = a + 4 * of_nat j) \<longleftrightarrow> (\<exists>i. unat i < 1024 \<and> b = a + 4 * i)"
  proof
    assume "\<exists>j<1024. b = a + 4 * of_nat j"
    then obtain j where "j < 1024" "b = a + 4 * of_nat j" by blast
    then show "\<exists>i. unat i < 1024 \<and> b = a + 4 * i"
      by (intro exI [of _ "of_nat j"]) (simp add: unat_of_nat)
  next
    assume "\<exists>i. unat i < 1024 \<and> b = a + 4 * i"
    then obtain i where "unat i < 1024" "b = a + 4 * i" by blast
    then show "\<exists>j<1024. b = a + 4 * of_nat j" by (intro exI [of _ "unat i"]) simp
  qed
  ultimately show ?thesis by (auto simp: rd32_def zero_page_def simp del: upt_rec_numeral)
qed

lemma new_table:
  assumes ok: "tables_ok s pgd" and v: "table s pgd v = 0"
    and T: "aligned T" "T \<noteq> 0" "T + PAGE_OFFSET \<noteq> pgd" "\<And>w. table s pgd w \<noteq> T"
  defines "t \<equiv> zero_page (T + PAGE_OFFSET) (wr32 (pgd + 4 * PGD_IDX v) (T OR PTE_P OR PTE_W) s)"
  shows "table t pgd w = (if PGD_IDX w = PGD_IDX v then T else table s pgd w)" "tables_ok t pgd"
    "pte_of t pgd w = pte_of s pgd w"
proof -
  note pgd = tables_okD(1) [OF ok]
  have rd32: "rd32 t a = (if \<exists>i. unat i < 1024 \<and> a = T + PAGE_OFFSET + 4 * i then 0
      else if a = pgd + 4 * PGD_IDX v then T OR PTE_P OR PTE_W else rd32 s a)" for a
    unfolding t_def zero_page_rd rd_wr32 by (rule refl)
  have "(T OR PTE_P OR PTE_W) AND PAGE_MASK = T"
    using mask_entry [of "PTE_P OR PTE_W" T] aligned_and [OF T(1)] by (simp add: PTE_P_def PTE_W_def PAGE_MASK_def)
  moreover have dir: "\<not> (\<exists>i. unat i < 1024 \<and> pgd + 4 * PGD_IDX w = T + PAGE_OFFSET + 4 * i)" for w
    using slot_inj [of pgd "T + PAGE_OFFSET" "PGD_IDX w"] pgd T(1,3) idx_less by auto
  moreover have "rd32 t (pgd + 4 * PGD_IDX w) = (if PGD_IDX w = PGD_IDX v then T OR PTE_P OR PTE_W else rd32 s (pgd + 4 * PGD_IDX w))"
    for w
    unfolding rd32 using dir [of w] slot_inj [OF pgd pgd idx_less(1) idx_less(1), of w v] by auto
  ultimately have tab: "table t pgd w = (if PGD_IDX w = PGD_IDX v then T else table s pgd w)" for w
    by (simp add: table_def)
  then show "table t pgd w = (if PGD_IDX w = PGD_IDX v then T else table s pgd w)" by simp
  have "table t pgd x + PAGE_OFFSET \<noteq> pgd" if "table t pgd x \<noteq> 0" for x
    using tables_okD(2) [OF ok, of x] T(3) tab [of x] that by (cases "PGD_IDX x = PGD_IDX v") simp_all
  moreover have "PGD_IDX x = PGD_IDX y" if "table t pgd x \<noteq> 0" "table t pgd x = table t pgd y" for x y
    using that by (metis tables_okD(3) [OF ok, of x y] T(4) tab)
  ultimately show "tables_ok t pgd" using pgd unfolding tables_ok_def by blast
  show "pte_of t pgd w = pte_of s pgd w"
  proof (cases "PGD_IDX w = PGD_IDX v")
    case True
    then have "table s pgd w = 0" "pte_slot t pgd w = T + PAGE_OFFSET + 4 * PTE_IDX w"
      using v tab by (simp_all add: table_def pte_slot_def)
    then show ?thesis using True T(2) idx_less(2) tab by (auto simp: pte_of_def rd32)
  next
    case False
    have "pte_slot s pgd w \<noteq> T + PAGE_OFFSET + 4 * i" if "unat i < 1024" for i
      using slot_inj [of "table s pgd w + PAGE_OFFSET" "T + PAGE_OFFSET" "PTE_IDX w" i] T(1,4) idx_less that
      by (simp add: pte_slot_def)
    moreover have "pte_slot s pgd w \<noteq> pgd + 4 * PGD_IDX v" if "table s pgd w \<noteq> 0"
      using slot_inj [of "table s pgd w + PAGE_OFFSET" pgd "PTE_IDX w" "PGD_IDX v"] pgd tables_okD(2) [OF ok that] idx_less
      by (simp add: pte_slot_def)
    moreover have "pte_slot t pgd w = pte_slot s pgd w" using False tab by (simp add: pte_slot_def)
    ultimately show ?thesis using False tab by (auto simp: pte_of_def rd32)
  qed
qed

section \<open>Finding the frame of an address\<close>

lemma find_page_loop_spec:
  assumes "0 \<le> i"
  shows "find_page_loop h a i = -1 \<or>
    (i \<le> find_page_loop h a i \<and> find_page_loop h a i < MAX_PG_NUM \<and> start_addr (h (PG (nat (find_page_loop h a i)))) = a)"
  using assms
proof (induction h a i rule: find_page_loop.induct)
  case (1 h a i)
  then show ?case by (subst (1 2 3 4) find_page_loop.simps) (auto split: if_splits)
qed

lemma find_page_loop_cong:
  "(\<And>p. start_addr (g p) = start_addr (h p)) \<Longrightarrow> find_page_loop g a i = find_page_loop h a i"
proof (induction g a i rule: find_page_loop.induct)
  case (1 g a i)
  then show ?case by (subst (1 2) find_page_loop.simps) simp
qed

lemma FindPageIndex_spec:
  "FindPageIndex a s = int k \<Longrightarrow> start_addr (phy_pages s (PG k)) = a \<and> int k < MAX_PG_NUM"
  using find_page_loop_spec [of 0 "phy_pages s" a] by (auto simp: FindPageIndex_def)

lemma FindPageIndex_cong:
  "(\<And>p. start_addr (phy_pages t p) = start_addr (phy_pages s p)) \<Longrightarrow> FindPageIndex a t = FindPageIndex a s"
  unfolding FindPageIndex_def by (rule find_page_loop_cong)

section \<open>One page from the allocator\<close>

lemma pick_one_half:
  assumes rel: "buddy_rel s A" and spec: "alloc_spec 0 A = Some (n, B, A')"
  shows "2 * length B \<le> size (pages_of A) + 1"
proof -
  from spec obtain i where i: "i < 17" "A i \<noteq> []" "pick 0 i A = (n, B, A')"
    unfolding alloc_spec_def by (auto dest!: find_upt_Some)
  have len: "2 ^ i \<le> length (A i)" using class_rel_len(1) [OF buddy_relD(1) [OF rel i(1)] i(2)] by simp
  have sub: "length (A i) \<le> size (pages_of A)" using size_mset_mono [OF class_sub_pages [OF i(1)]] by simp
  show ?thesis
  proof (cases "i = 0")
    case True
    with i have "B = take 1 (A 0)" by (simp add: pick_def)
    moreover have "1 \<le> length (A 0)" using len True by simp
    ultimately show ?thesis using sub True by simp
  next
    case False
    then obtain j where j: "i = Suc j" by (cases i) auto
    with i have "B = drop (2 ^ j) (take (2 ^ Suc j) (A i))" by (auto simp: pick_def split_spec_def Let_def)
    then have "length B = 2 ^ j" using len j by simp
    then show ?thesis using len sub j by simp
  qed
qed

lemma alloc_one:
  assumes pool: "buddy_pool s M" and M: "M \<noteq> {#}"
  shows "\<exists>B M' t. alloc_pages swap 1 s = kret (hd B) t \<and> M = M' + mset B \<and> B \<noteq> [] \<and> 2 * length B \<le> size M + 1 \<and>
    buddy_pool t M' \<and> same_frames s t \<and> buddy_held t B \<and> busy t B \<and> untouched M s t"
proof -
  obtain A where A: "buddy_rel s A" "pages_of A = M" using pool by (auto simp: buddy_pool_def)
  have k: "fits (pages_wanted 4) 0" by (simp add: fits_def pages_wanted_def)
  have "alloc_spec 0 A \<noteq> None"
  proof
    assume "alloc_spec 0 A = None"
    then have "A i = []" if "i < 17" for i using that by (auto simp: alloc_spec_def find_None_iff)
    then have "pages_of A = {#}" by (simp add: pages_of_def)
    with A M show False by simp
  qed
  then obtain n B A' where spec: "alloc_spec 0 A = Some (n, B, A')" by (cases "alloc_spec 0 A") auto
  obtain t where t: "alloc_buddy 4 s = kret (hd B, 1) t" "handed s A n B A' t" "busy t B"
    by (rule alloc_buddy_succeeds [OF A(1) k _ spec]) simp
  then have h: "buddy_rel t A'" "owned t A' n B" "M = pages_of A' + mset B" "same_frames s t" "untouched M s t"
    using A(2) unfolding handed_def by blast+
  then have "buddy_pool t (pages_of A')"
    using pool by (auto simp: buddy_pool_def same_frames_def)
  moreover have "buddy_held t B"
    using pool h(2,3,4) alloc_spec_class [OF spec] by (auto simp: buddy_held_def owned_def buddy_pool_def same_frames_def)
  moreover have "B \<noteq> []" using h(2) by (auto simp: owned_def)
  moreover have "2 * length B \<le> size M + 1" using pick_one_half [OF A(1) spec] A(2) by simp
  ultimately show ?thesis using t(1,3) h(3-5) by (auto simp: alloc_pages_def)
qed

lemma buddy_pool_frame:
  assumes "buddy_pool s M"
    and same: "\<And>p. p \<in># M \<Longrightarrow> nxt t p = nxt s p \<and> prv t p = prv s p \<and>
        start_addr (phy_pages t p) = start_addr (phy_pages s p) \<and> ref_num (phy_pages t p) = ref_num (phy_pages s p)"
      "buddy_table t = buddy_table s" "phy_page_num t = phy_page_num s"
  shows "buddy_pool t M"
proof -
  obtain A where A: "buddy_rel s A" "pages_of A = M" using assms(1) by (auto simp: buddy_pool_def)
  have "class_rel t i (A i)" if "i < 17" for i
    using same(2) same(1) [OF pages_ofI [of i _ A, unfolded A(2)]] that
    by (intro class_rel_frame [OF buddy_relD(1) [OF A(1) that]]) (simp_all add: lst_def num_def)
  moreover have "frame_ok t p" if "p \<in># M" for p
    using A that same(3) same(1) [OF that] by (simp add: buddy_rel_def frame_ok_def)
  ultimately have "buddy_rel t A" using A same(3) by (simp add: buddy_rel_def)
  with A assms(1) same(1) show ?thesis by (auto simp: buddy_pool_def)
qed

lemma buddy_pool_cong:
  assumes "buddy_pool s M"
    and "\<And>p. nxt t p = nxt s p \<and> prv t p = prv s p \<and> start_addr (phy_pages t p) = start_addr (phy_pages s p)"
      "buddy_table t = buddy_table s" "phy_page_num t = phy_page_num s"
    and "\<And>p. p \<in># M \<Longrightarrow> ref_num (phy_pages t p) = ref_num (phy_pages s p)"
  shows "buddy_pool t M"
  using assms by (intro buddy_pool_frame [OF assms(1)]) auto

section \<open>Mapping\<close>

text \<open>What the frames that may become tables have to be.\<close>

definition spare_frames :: "'a vmm_scheme \<Rightarrow> addr \<Rightarrow> pgptr multiset \<Rightarrow> bool" where
  "spare_frames s pgd M \<longleftrightarrow> (\<forall>p. p \<in># M \<longrightarrow>
     (let a = start_addr (phy_pages s p)
      in aligned a \<and> a \<noteq> 0 \<and> a + PAGE_OFFSET \<noteq> pgd \<and> (\<forall>w. table s pgd w \<noteq> a)))"

definition mapped :: "'a vmm_scheme \<Rightarrow> addr \<Rightarrow> uint \<Rightarrow> uint \<Rightarrow> nat \<Rightarrow> 'a vmm_scheme \<Rightarrow> bool" where
  "mapped s pgd e v k t \<longleftrightarrow> tables_ok t pgd \<and> (\<forall>w. pte_of t pgd w = (if same_page w v then e else pte_of s pgd w)) \<and>
     table t pgd v \<noteq> 0 \<and> ref_num (phy_pages t (PG k)) = ref_num (phy_pages s (PG k)) + 1 \<and>
     va (phy_pages t (PG k)) = v \<and> (\<forall>p. start_addr (phy_pages t p) = start_addr (phy_pages s p))"

text \<open>The last part of \<open>map\<close>: the entry and the books of the frame.\<close>

definition enter_page :: "addr \<Rightarrow> uint \<Rightarrow> uint \<Rightarrow> nat \<Rightarrow> 'a vmm_scheme \<Rightarrow> 'a vmm_scheme" where
  "enter_page slot e v k s =
     upd_page (PG k) (\<lambda>g. g\<lparr>va := v\<rparr>) (upd_page (PG k) (\<lambda>g. g\<lparr>ref_num := ref_num g + 1\<rparr>) (wr32 slot e s))"

lemma words_kept [simp]:
  "rd32 (upd_page p f s) = rd32 s" "table (upd_page p f s) = table s" "pte_of (upd_page p f s) = pte_of s"
  "tables_ok (upd_page p f s) = tables_ok s" "pte_slot (upd_page p f s) = pte_slot s"
proof -
  show r: "rd32 (upd_page p f s) = rd32 s" by (auto simp: rd32_def upd_page_def)
  show "table (upd_page p f s) = table s" by (intro ext) (simp add: table_def r)
  then show "pte_of (upd_page p f s) = pte_of s" "pte_slot (upd_page p f s) = pte_slot s"
    "tables_ok (upd_page p f s) = tables_ok s"
    by (auto simp: pte_of_def pte_slot_def tables_ok_def r fun_eq_iff)
qed

lemma frames_kept [simp]:
  "phy_pages (upd_page p f s) q = (if q = p then f (phy_pages s p) else phy_pages s q)"
  "phy_pages (wr32 a x s) = phy_pages s" "phy_pages (zero_page a s) = phy_pages s"
  by (simp_all add: wr32_def zero_page_def upd_page_def)

lemma enter_page_mapped:
  assumes ok: "tables_ok s pgd" and v: "table s pgd v \<noteq> 0"
  shows "mapped s pgd e v k (enter_page (pte_slot s pgd v) e v k s)"
proof -
  let ?u = "wr32 (pte_slot s pgd v) e s"
  note st = store_pte [OF ok v, of ?u e]
  show ?thesis using st v by (simp add: mapped_def enter_page_def)
qed

lemma map_page_present:
  assumes ok: "tables_ok s pgd" and v: "table s pgd v \<noteq> 0" and k: "FindPageIndex p_addr s = int k"
  shows "map_page swap pgd fl p_addr v s =
    kret (PG k) (enter_page (pte_slot s pgd v) ((p_addr AND PAGE_MASK) OR fl) v k s)"
proof -
  have "FindPageIndex p_addr (wr32 a x s) = int k" for a x
    using k FindPageIndex_cong [of "wr32 a x s" s] by simp
  then show ?thesis
    using v by (simp add: map_page_def table_def pte_slot_def enter_page_def Let_def)
qed

text \<open>With no table yet, the directory gets one first; the rest is as above.\<close>

definition add_table :: "addr \<Rightarrow> uint \<Rightarrow> pgptr \<Rightarrow> 'a vmm_scheme \<Rightarrow> 'a vmm_scheme" where
  "add_table pgd v pg s =
     (let s = upd_page pg (\<lambda>g. g\<lparr>ref_num := ref_num g + 1\<rparr>) s;
          s = upd_page pg (\<lambda>g. g\<lparr>va := start_addr g + PAGE_OFFSET\<rparr>) s;
          a = start_addr (phy_pages s pg)
      in zero_page (a + PAGE_OFFSET) (wr32 (pgd + 4 * PGD_IDX v) (a OR PTE_P OR PTE_W) s))"

lemma add_table_frames:
  "start_addr (phy_pages (add_table pgd v pg s) p) = start_addr (phy_pages s p)"
  "nxt (add_table pgd v pg s) p = nxt s p" "prv (add_table pgd v pg s) p = prv s p"
  "p \<noteq> pg \<Longrightarrow> phy_pages (add_table pgd v pg s) p = phy_pages s p"
  "buddy_table (add_table pgd v pg s) = buddy_table s" "phy_page_num (add_table pgd v pg s) = phy_page_num s"
  "klog (add_table pgd v pg s) = klog s"
  by (simp_all add: add_table_def Let_def nxt_def prv_def) (simp_all add: zero_page_def wr32_def upd_page_def)

lemma add_table_tables:
  assumes "tables_ok s pgd" "table s pgd v = 0" "spare_frames s pgd M" "pg \<in># M"
  shows "table (add_table pgd v pg s) pgd w = (if PGD_IDX w = PGD_IDX v then start_addr (phy_pages s pg) else table s pgd w)"
    "tables_ok (add_table pgd v pg s) pgd"
    "start_addr (phy_pages s pg) \<noteq> 0" "pte_of (add_table pgd v pg s) pgd w = pte_of s pgd w"
proof -
  let ?a = "start_addr (phy_pages s pg)"
  let ?s = "upd_page pg (\<lambda>g. g\<lparr>va := start_addr g + PAGE_OFFSET\<rparr>) (upd_page pg (\<lambda>g. g\<lparr>ref_num := ref_num g + 1\<rparr>) s)"
  have "aligned ?a" "?a \<noteq> 0" "?a + PAGE_OFFSET \<noteq> pgd" "\<And>w. table ?s pgd w \<noteq> ?a"
    using assms(3,4) by (auto simp: spare_frames_def Let_def)
  note nt = new_table [of ?s pgd v, OF _ _ this]
  have eq: "add_table pgd v pg s = zero_page (?a + PAGE_OFFSET) (wr32 (pgd + 4 * PGD_IDX v) (?a OR PTE_P OR PTE_W) ?s)"
    by (simp add: add_table_def Let_def)
  show "table (add_table pgd v pg s) pgd w = (if PGD_IDX w = PGD_IDX v then ?a else table s pgd w)"
    "tables_ok (add_table pgd v pg s) pgd" "?a \<noteq> 0"
    "pte_of (add_table pgd v pg s) pgd w = pte_of s pgd w"
    unfolding eq using nt assms(1,2) \<open>?a \<noteq> 0\<close> by simp_all
qed

lemma more_words: "pmm.more t = pmm.more s \<Longrightarrow> words t = words s" for s t :: "'a vmm_scheme"
  by (cases s; cases t) simp

lemma words_same_frames:
  fixes s t :: "'a vmm_scheme"
  assumes "same_frames s t"
  shows "table t = table s" "pte_of t = pte_of s" "tables_ok t = tables_ok s"
proof -
  have r: "rd32 t = rd32 s" using assms more_words [of t s] by (auto simp: rd32_def same_frames_def)
  show tab: "table t = table s" by (intro ext) (simp add: table_def r)
  show "pte_of t = pte_of s" by (intro ext) (simp add: pte_of_def pte_slot_def r tab)
  show "tables_ok t = tables_ok s" by (intro ext) (simp add: tables_ok_def tab)
qed

lemma map_page_new:
  fixes s u :: "'a vmm_scheme"
  assumes ok: "tables_ok s pgd" and v: "table s pgd v = 0" and u: "alloc_pages swap 1 s = kret pg u" "same_frames s u"
    and pg: "spare_frames s pgd M" "pg \<in># M" and k: "FindPageIndex p_addr s = int k"
  defines "w \<equiv> add_table pgd v pg u"
  shows "map_page swap pgd fl p_addr v s =
      kret (PG k) (enter_page (pte_slot w pgd v) ((p_addr AND PAGE_MASK) OR fl) v k w)"
    "table w pgd v \<noteq> 0" "tables_ok w pgd" "pte_of w pgd x = pte_of s pgd x"
    "table w pgd x = (if PGD_IDX x = PGD_IDX v then start_addr (phy_pages s pg) else table s pgd x)"
proof -
  have st: "start_addr (phy_pages u p) = start_addr (phy_pages s p)" for p using u(2) by (simp add: same_frames_def)
  have "spare_frames u pgd M" using pg(1) st words_same_frames(1) [OF u(2)] by (simp add: spare_frames_def)
  note at = add_table_tables [OF _ _ this pg(2), of v, folded w_def, unfolded words_same_frames [OF u(2)] st, OF ok v]
  show "pte_of w pgd x = pte_of s pgd x" "tables_ok w pgd"
    "table w pgd x = (if PGD_IDX x = PGD_IDX v then start_addr (phy_pages s pg) else table s pgd x)"
    by (rule at)+
  show tab: "table w pgd v \<noteq> 0" using at(1) [of v] at(3) by simp
  have "FindPageIndex p_addr w = int k"
    using k FindPageIndex_cong [of w s] st by (simp add: w_def add_table_frames)
  then have "map_page swap pgd fl p_addr v w = kret (PG k) (enter_page (pte_slot w pgd v) ((p_addr AND PAGE_MASK) OR fl) v k w)"
    by (rule map_page_present [OF at(2) tab])
  moreover have "map_page swap pgd fl p_addr v s = map_page swap pgd fl p_addr v w"
    using v u(1) tab at(1) [of v] st by (simp add: map_page_def table_def w_def add_table_def Let_def)
  ultimately show "map_page swap pgd fl p_addr v s =
      kret (PG k) (enter_page (pte_slot w pgd v) ((p_addr AND PAGE_MASK) OR fl) v k w)" by simp
qed

lemma enter_page_log [simp]: "klog (enter_page a x v k s) = klog s"
  by (simp add: enter_page_def) (simp add: wr32_def upd_page_def)

lemma enter_page_pool:
  fixes u :: "'a vmm_scheme"
  assumes "buddy_pool u N" "PG k \<notin># N"
  shows "buddy_pool (enter_page a x v k u) N"
  using assms(2)
  by (intro buddy_pool_cong [OF assms(1)]) (auto simp: enter_page_def nxt_def prv_def, simp_all add: wr32_def upd_page_def)

text \<open>
  What \<open>map\<close> does to the state as a whole. The frames the allocator has left are at least half of
  those it had; a table that is there costs none.
\<close>

definition map_result ::
    "'a vmm_scheme \<Rightarrow> addr \<Rightarrow> uint \<Rightarrow> uint \<Rightarrow> nat \<Rightarrow> pgptr multiset \<Rightarrow> 'a vmm_scheme \<Rightarrow> pgptr multiset \<Rightarrow> bool" where
  "map_result s pgd e v k M t M' \<longleftrightarrow> mapped s pgd e v k t \<and> buddy_pool t M' \<and> M' \<subseteq># M \<and> size M \<le> 2 * size M' + 1 \<and>
     phy_page_num t = phy_page_num s \<and> pgd_kern t = pgd_kern s \<and> cr3 t = cr3 s \<and> vmm.more t = vmm.more s \<and> klog t = klog s \<and>
     (table s pgd v \<noteq> 0 \<longrightarrow> M' = M) \<and>
     (\<forall>w. table s pgd w \<noteq> 0 \<longrightarrow> table t pgd w = table s pgd w) \<and>
     (\<forall>w. table t pgd w = table s pgd w \<or> (\<exists>p. p \<in># M \<and> p \<notin># M' \<and> table t pgd w = start_addr (phy_pages s p)))"

lemma more_rest:
  "pmm.more t = pmm.more s \<Longrightarrow> pgd_kern t = pgd_kern s \<and> cr3 t = cr3 s \<and> vmm.more t = vmm.more s"
  for s t :: "'a vmm_scheme"
  by (cases s; cases t) simp

lemma rest_kept [simp]:
  "pgd_kern (enter_page a x v k u) = pgd_kern u" "cr3 (enter_page a x v k u) = cr3 u"
  "vmm.more (enter_page a x v k u) = vmm.more u" "phy_page_num (enter_page a x v k u) = phy_page_num u"
  "pgd_kern (add_table pgd v pg u) = pgd_kern u" "cr3 (add_table pgd v pg u) = cr3 u"
  "vmm.more (add_table pgd v pg u) = vmm.more u"
  by (simp_all add: enter_page_def add_table_def Let_def wr32_def zero_page_def upd_page_def)

lemma enter_page_tables:
  assumes "tables_ok s pgd" "table s pgd v \<noteq> 0"
  shows "table (enter_page (pte_slot s pgd v) e v k s) pgd w = table s pgd w"
  using store_pte(1) [OF assms, of "wr32 (pte_slot s pgd v) e s" e] by (simp add: enter_page_def)

lemma map_page_maps:
  fixes s :: "'a vmm_scheme"
  assumes ok: "tables_ok s pgd" and pool: "buddy_pool s M" "spare_frames s pgd M" "M \<noteq> {#}"
    and k: "FindPageIndex p_addr s = int k" "PG k \<notin># M"
  shows "\<exists>t M'. map_page swap pgd fl p_addr v s = kret (PG k) t \<and> map_result s pgd ((p_addr AND PAGE_MASK) OR fl) v k M t M'"
proof -
  let ?e = "(p_addr AND PAGE_MASK) OR fl"
  show ?thesis
  proof (cases "table s pgd v = 0")
    case False
    let ?t = "enter_page (pte_slot s pgd v) ?e v k s"
    have "map_result s pgd ?e v k M ?t M"
      using enter_page_mapped [OF ok False] enter_page_tables [OF ok False] enter_page_pool [OF pool(1) k(2)]
      by (simp add: map_result_def)
    with map_page_present [OF ok False k(1)] show ?thesis by blast
  next
    case True
    obtain B M' u where u: "alloc_pages swap 1 s = kret (hd B) u" "M = M' + mset B" "B \<noteq> []" "2 * length B \<le> size M + 1"
        "buddy_pool u M'" "same_frames s u"
      using alloc_one [OF pool(1,3)] by blast
    have rest: "phy_page_num u = phy_page_num s" "pgd_kern u = pgd_kern s" "cr3 u = cr3 s" "vmm.more u = vmm.more s"
        "klog u = klog s"
        "ref_num (phy_pages u p) = ref_num (phy_pages s p)" "start_addr (phy_pages u p) = start_addr (phy_pages s p)" for p
      using u(6) more_rest [of u s] by (simp_all add: same_frames_def)
    have hd: "hd B \<in># M" "hd B \<notin># M'" "hd B \<noteq> PG k"
    proof -
      show "hd B \<in># M" using u(2,3) by simp
      then show "hd B \<noteq> PG k" using k(2) by metis
      have "one_each M" using pool(1) by (auto simp: buddy_pool_def buddy_rel_def)
      then show "hd B \<notin># M'" using one_each_apart [of M' B "hd B"] u(2,3) by simp
    qed
    let ?w = "add_table pgd v (hd B) u"
    let ?t = "enter_page (pte_slot ?w pgd v) ?e v k ?w"
    note new = map_page_new [OF ok True u(1,6) pool(2) hd(1) k(1)]
    have "buddy_pool ?w M'"
      using hd(2) by (intro buddy_pool_cong [OF u(5)]) (simp_all add: add_table_frames, metis add_table_frames(4))
    then have p: "buddy_pool ?t M'" using k(2) u(2) by (intro enter_page_pool) auto
    have tab: "table ?t pgd x = (if PGD_IDX x = PGD_IDX v then start_addr (phy_pages s (hd B)) else table s pgd x)" for x
      using enter_page_tables [OF new(3,2)] new(5) by simp
    have "mapped s pgd ?e v k ?t"
      using enter_page_mapped [OF new(3,2), of ?e k] new(4) hd(3) [symmetric] rest
      by (simp add: mapped_def add_table_frames)
    moreover have "table s pgd x = 0" if "PGD_IDX x = PGD_IDX v" for x using True that by (simp add: table_def)
    ultimately have "map_result s pgd ?e v k M ?t M'"
      using p u(2,4) hd(1,2) rest True tab by (auto simp: map_result_def add_table_frames)
    with new(1) show ?thesis by blast
  qed
qed

lemma getmapping_pte:
  "getmapping pgd v True s = (if pte_of s pgd v = 0 then (0, None) else (1, Some (pte_of s pgd v AND PAGE_MASK)))"
  by (simp add: getmapping_def pte_of_def table_def pte_slot_def Let_def)

lemma unmap_clears:
  assumes ok: "tables_ok s pgd" and v: "table s pgd v \<noteq> 0"
    and k: "FindPageIndex (pte_of s pgd v AND PAGE_MASK) s = int k"
  shows "\<exists>t. unmap pgd v s = kret () t \<and> tables_ok t pgd \<and>
    (\<forall>w. pte_of t pgd w = (if same_page w v then 0 else pte_of s pgd w)) \<and>
    ref_num (phy_pages t (PG k)) = (if ref_num (phy_pages s (PG k)) > 0 then ref_num (phy_pages s (PG k)) - 1 else 0) \<and>
    va (phy_pages t (PG k)) = 0 \<and> (\<forall>p. p \<noteq> PG k \<longrightarrow> phy_pages t p = phy_pages s p) \<and>
    nxt t = nxt s \<and> prv t = prv s \<and> start_addr (phy_pages t (PG k)) = start_addr (phy_pages s (PG k)) \<and>
    buddy_table t = buddy_table s \<and> phy_page_num t = phy_page_num s \<and> pgd_kern t = pgd_kern s \<and>
    vmm.more t = vmm.more s"
proof -
  let ?u = "wr32 (pte_slot s pgd v) 0 s"
  let ?f = "\<lambda>g. g\<lparr>ref_num := ref_num g - 1\<rparr>"
  let ?t = "upd_page (PG k) (\<lambda>g. g\<lparr>va := 0\<rparr>) (if ref_num (phy_pages s (PG k)) > 0 then upd_page (PG k) ?f ?u else ?u)"
  have "unmap pgd v s = kret () ?t"
    using v k by (simp add: unmap_def table_def pte_of_def pte_slot_def Let_def)
  moreover have "nxt ?t = nxt s" "prv ?t = prv s" by (auto simp: nxt_def prv_def)
  moreover have "buddy_table ?t = buddy_table s" "phy_page_num ?t = phy_page_num s" "pgd_kern ?t = pgd_kern s" "vmm.more ?t = vmm.more s"
    by (simp_all add: upd_page_def wr32_def)
  moreover note store_pte [OF ok v, of ?u 0]
  ultimately show ?thesis by (intro exI [of _ ?t]) (auto simp: word_gt_0)
qed

lemma unmap_without_table:
  "table s pgd v = 0 \<Longrightarrow> unmap pgd v s = kret () (s\<lparr>klog := klog s @ [no_mapping]\<rparr>)"
  by (simp add: unmap_def table_def Let_def)

text \<open>\<open>getpte\<close> does not notice a missing table.\<close>

lemma getpte_no_table: "table s pgd v = 0 \<Longrightarrow> getpte pgd v s = (PAGE_OFFSET + 4 * PTE_IDX v, 1)"
  by (simp add: getpte_def table_def Let_def PAGE_OFFSET_def)

lemma getpte_slot: "table s pgd v + PAGE_OFFSET \<noteq> 0 \<Longrightarrow> getpte pgd v s = (pte_slot s pgd v, 1)"
  by (simp add: getpte_def table_def pte_slot_def Let_def)

section \<open>The direct map\<close>

text \<open>
  The walk of the processor: \<open>off\<close> is what has to be added to a physical address to read the word
  there. A clear present bit is a fault.
\<close>

definition walk :: "addr \<Rightarrow> words \<Rightarrow> addr \<Rightarrow> uint \<Rightarrow> uint option" where
  "walk off m pgd v =
     (let e = m (pgd + 4 * PGD_IDX v) in
      if \<not> bit e 0 then None
      else
        let p = m ((e AND PAGE_MASK) + off + 4 * PTE_IDX v)
        in if \<not> bit p 0 then None else Some ((p AND PAGE_MASK) OR (v AND 0xFFF)))"


lemma fold_hit:
  assumes "inj_on slot {a..<n}" "j \<in> {a..<n}"
  shows "fold (\<lambda>i m. m(slot i := val i)) [a..<n] m (slot j) = val j"
  using assms
proof (induction n)
  case (Suc n)
  then show ?case by (cases "j = n") (auto simp: inj_on_def)
qed simp

lemma fold_miss:
  "(\<And>i. a \<le> i \<Longrightarrow> i < n \<Longrightarrow> slot i \<noteq> b) \<Longrightarrow> fold (\<lambda>i m. m(slot i := val i)) [a..<n] m b = m b"
  by (induction n) auto

lemma idx_nat: "unat (PGD_IDX v) = unat v div 4194304 mod 1024" "unat (PTE_IDX v) = unat v div 4096 mod 1024"
  unfolding PGD_IDX_def PTE_IDX_def and_3FF
  by (simp_all add: take_bit_eq_mod drop_bit_eq_div unat_mod_distrib unat_div_distrib)

lemma split_addr: "push_bit 12 (drop_bit 12 x) OR (x AND 0xFFF) = x" for x :: uint
  unfolding and_FFF by (rule bit_word_eqI) (auto simp: bit_or_iff bit_push_bit_iff bit_drop_bit_eq bit_take_bit_iff)

lemma entry_bits: "bit (a OR PTE_P OR PTE_W OR PTE_U) 0"
  "aligned a \<Longrightarrow> (a OR PTE_P OR PTE_W OR PTE_U) AND PAGE_MASK = a"
proof -
  show "bit (a OR PTE_P OR PTE_W OR PTE_U) 0" by (simp add: bit_or_iff PTE_P_def)
  show "(a OR PTE_P OR PTE_W OR PTE_U) AND PAGE_MASK = a" if "aligned a"
    using mask_entry [of "PTE_P OR PTE_W OR PTE_U" a] aligned_and [OF that]
    by (simp add: PTE_P_def PTE_W_def PTE_U_def PAGE_MASK_def)
qed

text \<open>The parts of an address that is moved by \<open>PAGE_OFFSET\<close>.\<close>

lemma offset_nat: "unat x < 1073741824 \<Longrightarrow> unat (x + PAGE_OFFSET) = unat x + 3221225472"
  by (simp add: PAGE_OFFSET_def unat_plus_if')

lemma offset_parts:
  assumes "unat x < 1073741824"
  shows "unat (PGD_IDX (x + PAGE_OFFSET)) = 768 + unat x div 4194304" "PTE_IDX (x + PAGE_OFFSET) = PTE_IDX x"
    "x + PAGE_OFFSET AND 0xFFF = x AND 0xFFF"
proof -
  have "(unat x + 768 * 4194304) div 4194304 = 768 + unat x div 4194304" by (rule div_mult_self1) simp
  then show "unat (PGD_IDX (x + PAGE_OFFSET)) = 768 + unat x div 4194304"
    using assms by (simp add: idx_nat offset_nat)
  have "(unat x + 786432 * 4096) div 4096 = 786432 + unat x div 4096" by (rule div_mult_self1) simp
  moreover have "(unat x div 4096 + 768 * 1024) mod 1024 = unat x div 4096 mod 1024" by (rule mod_mult_self1)
  ultimately have "unat (PTE_IDX (x + PAGE_OFFSET)) = unat (PTE_IDX x)"
    using offset_nat [OF assms] unfolding idx_nat by (simp add: add.commute [of "unat x div 4096"])
  then show "PTE_IDX (x + PAGE_OFFSET) = PTE_IDX x" by (simp add: word_unat_eq_iff)
  have "(unat x + 786432 * 4096) mod 4096 = unat x mod 4096" by (rule mod_mult_self1)
  then show "x + PAGE_OFFSET AND 0xFFF = x AND 0xFFF"
    using assms by (simp add: and_FFF word_unat_eq_iff take_bit_eq_mod unat_mod_distrib offset_nat)
qed

text \<open>One page of a table of entries that count up.\<close>

lemma walk_step:
  assumes e: "m (pgd + 4 * PGD_IDX v) = T OR PTE_P OR PTE_W OR PTE_U" "aligned T"
    and p: "m (T + off + 4 * PTE_IDX v) = push_bit 12 i OR PTE_P OR PTE_W OR PTE_U"
  shows "walk off m pgd v = Some (push_bit 12 i OR (v AND 0xFFF))"
proof -
  have "aligned (push_bit 12 i)" unfolding aligned_def and_FFF by (simp add: take_bit_push_bit)
  then show ?thesis using e p by (simp add: walk_def Let_def entry_bits)
qed

text \<open>The loops of \<open>init_vmm\<close>.\<close>

lemma pte_array_nat:
  fixes K :: uint
  assumes "unat K + 524288 \<le> 2 ^ 32" "n < 131072"
  shows "unat (K + 4 * of_nat n) = unat K + 4 * n"
proof -
  have "unat (4 * of_nat n :: uint) = 4 * n" using assms(2) by (simp add: unat_mult_lem [THEN iffD1] unat_of_nat)
  then show ?thesis using assms by (simp add: unat_plus_if')
qed

lemma fill_ptes_at:
  assumes K: "unat K + 524288 \<le> 2 ^ 32" and i: "1 \<le> i" "i < 131072"
  shows "fill_ptes K m (K + 4 * of_nat i) = push_bit 12 (of_nat i) OR PTE_P OR PTE_W OR PTE_U"
proof -
  have "inj_on (\<lambda>n. K + 4 * of_nat n) {1..<131072}"
    by (rule inj_onI) (metis pte_array_nat [OF K] atLeastLessThan_iff add_left_cancel mult_left_cancel zero_neq_numeral)
  then show ?thesis
    using i unfolding fill_ptes_def PTE_COUNT_def NPTENTRIES_def
    by (simp add: fold_hit [of "\<lambda>n. K + 4 * of_nat n"] del: upt_rec_numeral)
qed

lemma pgd_idx_nat: "j < 128 \<Longrightarrow> unat (PGD_IDX PAGE_OFFSET + of_nat j) = 768 + j"
  by (simp add: PGD_IDX_def PAGE_OFFSET_def unat_plus_if' unat_of_nat)

lemma fill_pgd_at:
  assumes G: "aligned G" and j: "j < 128"
  shows "fill_pgd G K m (G + 4 * (PGD_IDX PAGE_OFFSET + of_nat j)) =
    (K + 4096 * of_nat j - PAGE_OFFSET) OR PTE_P OR PTE_W OR PTE_U"
proof -
  have "inj_on (\<lambda>n. G + 4 * (PGD_IDX PAGE_OFFSET + of_nat n)) {0..<128}"
  proof (rule inj_onI)
    fix a b :: nat
    assume ab: "a \<in> {0..<128}" "b \<in> {0..<128}"
      and eq: "G + 4 * (PGD_IDX PAGE_OFFSET + of_nat a) = G + 4 * (PGD_IDX PAGE_OFFSET + of_nat b)"
    have "unat (PGD_IDX PAGE_OFFSET + of_nat a) < 1024" "unat (PGD_IDX PAGE_OFFSET + of_nat b) < 1024"
      using ab by (simp_all add: pgd_idx_nat)
    from slot_inj [OF G G this] eq have "PGD_IDX PAGE_OFFSET + of_nat a = PGD_IDX PAGE_OFFSET + (of_nat b :: uint)" by blast
    then show "a = b" using ab pgd_idx_nat [of a] pgd_idx_nat [of b] by (metis add_left_cancel atLeastLessThan_iff)
  qed
  moreover have "j \<in> {0..<128}" using j by simp
  ultimately show ?thesis unfolding fill_pgd_def PTE_COUNT_def
    by (rule fold_hit [where val = "\<lambda>j. (K + 4096 * of_nat j - PAGE_OFFSET) OR PTE_P OR PTE_W OR PTE_U"])
qed

lemma fill_pgd_other:
  assumes "\<And>w. unat w < 1024 \<Longrightarrow> G + 4 * w \<noteq> a"
  shows "fill_pgd G K m a = m a"
  unfolding fill_pgd_def PTE_COUNT_def by (intro fold_miss assms) (simp add: pgd_idx_nat)

text \<open>
  \<open>pte_kern\<close> is a page aligned array of 128 tables that does not overlap the directory. Then every
  physical address from 4 KiB to 512 MiB is mapped at \<open>PAGE_OFFSET\<close> above it.
\<close>

lemma init_vmm_direct:
  fixes s :: "'a vmm_scheme"
  assumes K: "aligned K" "unat K + 524288 \<le> 2 ^ 32" and cr3: "aligned (cr3 s)"
    and apart: "unat (cr3 s + PAGE_OFFSET) + 4096 \<le> unat K \<or> unat K + 524288 \<le> unat (cr3 s + PAGE_OFFSET)"
    and x: "4096 \<le> unat x" "unat x < 536870912"
  defines "t \<equiv> init_vmm K s"
  shows "walk PAGE_OFFSET (words t) (pgd_kern t) (x + PAGE_OFFSET) = Some x"
proof -
  define G i j T where "G = cr3 s + PAGE_OFFSET" and "i = unat x div 4096" and "j = i div 1024"
    and "T = K + 4096 * of_nat j - PAGE_OFFSET"
  have "cr3 s AND NOT 0xFFF = cr3 s" using aligned_and [OF cr3] by (simp only: PAGE_MASK_not)
  then have t: "words t = fill_pgd G K (fill_ptes K (words s))" "pgd_kern t = G"
    by (simp_all add: t_def init_vmm_def LoadCr3_def PTE_ADDR_def G_def Let_def)
  have G: "aligned G" using cr3 by (simp add: G_def)
  have ij: "1 \<le> i" "i < 131072" "j < 128" "i = 1024 * j + i mod 1024" using x by (auto simp: i_def j_def)
  have x': "unat x < 1073741824" using x(2) by simp
  have "unat (PGD_IDX (x + PAGE_OFFSET)) = 768 + j"
    using offset_parts(1) [OF x'] by (simp add: i_def j_def div_mult2_eq [symmetric])
  then have "PGD_IDX (x + PAGE_OFFSET) = PGD_IDX PAGE_OFFSET + of_nat j"
    using pgd_idx_nat [OF ij(3)] by (simp add: word_unat_eq_iff)
  then have dir: "words t (G + 4 * PGD_IDX (x + PAGE_OFFSET)) = T OR PTE_P OR PTE_W OR PTE_U"
    using fill_pgd_at [OF G ij(3)] by (simp add: t(1) T_def)
  have T: "T + PAGE_OFFSET = K + 4 * of_nat (1024 * j)" by (simp add: T_def)
  have "4096 dvd unat (T + PAGE_OFFSET)"
    using pte_array_nat [OF K(2), of "1024 * j"] K(1) ij unfolding T aligned_nat by simp
  then have al: "aligned T" using aligned_offset [of T] by (simp only: aligned_nat)
  have "PTE_IDX (x + PAGE_OFFSET) = of_nat (i mod 1024)"
    unfolding offset_parts(2) [OF x'] by (simp add: word_unat_eq_iff idx_nat unat_of_nat i_def)
  moreover have "(of_nat i :: uint) = of_nat (1024 * j) + of_nat (i mod 1024)" by (metis ij(4) of_nat_add)
  ultimately have at: "T + PAGE_OFFSET + 4 * PTE_IDX (x + PAGE_OFFSET) = K + 4 * of_nat i"
    unfolding T by (simp add: distrib_left)
  have "G + 4 * w \<noteq> K + 4 * of_nat i" if "unat w < 1024" for w
    using slot_nat [OF G that] pte_array_nat [OF K(2) ij(2)] apart that ij(2)
    by (auto simp: G_def dest!: arg_cong [of _ _ unat])
  then have "words t (K + 4 * of_nat i) = push_bit 12 (of_nat i) OR PTE_P OR PTE_W OR PTE_U"
    using fill_ptes_at [OF K(2) ij(1,2)] by (simp add: t(1) fill_pgd_other)
  then have "walk PAGE_OFFSET (words t) G (x + PAGE_OFFSET) = Some (push_bit 12 (of_nat i) OR (x + PAGE_OFFSET AND 0xFFF))"
    using dir al at by (intro walk_step) auto
  moreover have "of_nat i = drop_bit 12 x"
    using ij(2) by (simp add: word_unat_eq_iff unat_of_nat drop_bit_eq_div unat_div_distrib i_def)
  ultimately show ?thesis by (simp only: t(2) split_addr offset_parts(3) [OF x'])
qed

section \<open>The boot tables\<close>

text \<open>The two tables of \<open>kern_entry\<close> hold the pages of the first 8 MiB in order.\<close>

lemma boot_table:
  assumes "aligned T" "unat i < 1024"
  shows "fold (\<lambda>i m. m(T + 4 * of_nat i := val i)) [0..<1024] m (T + 4 * i) = val (unat i)"
proof -
  have "inj_on (\<lambda>n. T + 4 * of_nat n) {0..<1024}"
  proof (rule inj_onI)
    fix a b :: nat
    assume ab: "a \<in> {0..<1024}" "b \<in> {0..<1024}" and eq: "T + 4 * of_nat a = T + 4 * of_nat b"
    then have "unat (of_nat a :: uint) = a" "unat (of_nat b :: uint) = b" by (simp_all add: unat_of_nat)
    then show "a = b" using slot_inj [OF assms(1,1), of "of_nat a" "of_nat b"] eq ab by (metis atLeastLessThan_iff)
  qed
  from fold_hit [OF this, of "unat i" val m] assms(2) show ?thesis by simp
qed

lemma boot_table_miss:
  assumes "aligned T" "aligned U" "T \<noteq> U" "unat i < 1024"
  shows "fold (\<lambda>i m. m(T + 4 * of_nat i := val i)) [0..<1024] m (U + 4 * i) = m (U + 4 * i)"
  using slot_inj [OF assms(1,2) _ assms(4)] assms(3) by (intro fold_miss) (simp add: unat_of_nat)

lemma kern_entry_words:
  assumes "unat i < 1024"
  shows "kern_entry_tables m (0x2000 + 4 * i) = push_bit 12 i OR PTE_P OR PTE_W OR PTE_U"
    "kern_entry_tables m (0x3000 + 4 * i) = push_bit 12 (i + 1024) OR PTE_P OR PTE_W OR PTE_U"
proof -
  have al: "aligned 0x1000" "aligned 0x2000" "aligned 0x3000" by (simp_all add: aligned_def)
  show "kern_entry_tables m (0x2000 + 4 * i) = push_bit 12 i OR PTE_P OR PTE_W OR PTE_U"
    using assms al by (simp add: kern_entry_tables_def Let_def boot_table_miss boot_table del: upt_rec_numeral)
  show "kern_entry_tables m (0x3000 + 4 * i) = push_bit 12 (i + 1024) OR PTE_P OR PTE_W OR PTE_U"
    using assms al by (simp add: kern_entry_tables_def Let_def boot_table del: upt_rec_numeral)
qed

lemma kern_entry_slot:
  assumes "unat i < 1024"
  shows "kern_entry_tables m (0x1000 + 4 * i) =
      (m(0x1000 := 0x2000 OR PTE_P OR PTE_W OR PTE_U, 0x1000 + 4 * 1 := 0x3000 OR PTE_P OR PTE_W OR PTE_U,
         0x1000 + 4 * 0x300 := 0x2000 OR PTE_P OR PTE_W OR PTE_U,
         0x1000 + 4 * 0x301 := 0x3000 OR PTE_P OR PTE_W OR PTE_U)) (0x1000 + 4 * i)"
proof -
  have al: "aligned 0x1000" "aligned 0x2000" "aligned 0x3000" by (simp_all add: aligned_def)
  show ?thesis
    unfolding kern_entry_tables_def Let_def using assms al by (simp add: boot_table_miss del: upt_rec_numeral)
qed

lemma kern_entry_directory:
  "kern_entry_tables m (0x1000 + 4 * 0) = 0x2000 OR PTE_P OR PTE_W OR PTE_U"
  "kern_entry_tables m (0x1000 + 4 * 1) = 0x3000 OR PTE_P OR PTE_W OR PTE_U"
  "kern_entry_tables m (0x1000 + 4 * 0x300) = 0x2000 OR PTE_P OR PTE_W OR PTE_U"
  "kern_entry_tables m (0x1000 + 4 * 0x301) = 0x3000 OR PTE_P OR PTE_W OR PTE_U"
  using kern_entry_slot [of 0] kern_entry_slot [of 1] kern_entry_slot [of "0x300"] kern_entry_slot [of "0x301"]
  by simp_all

text \<open>Low and high view of the first 8 MiB, just after paging is switched on.\<close>

lemma boot_walk:
  assumes d: "unat (PGD_IDX v) = d" "d \<in> {0, 1, 0x300, 0x301}" and p: "unat (PTE_IDX v) = unat x div 4096 mod 1024"
    and x: "unat x div 4194304 = d mod 2" "unat x < 8388608" and o: "v AND 0xFFF = x AND 0xFFF"
  shows "walk 0 (kern_entry_tables m) 0x1000 v = Some x"
proof -
  define T :: uint where "T = (if d mod 2 = 0 then 0x2000 else 0x3000)"
  define i :: uint where "i = PTE_IDX v + (if d mod 2 = 0 then 0 else 1024)"
  have "PGD_IDX v = of_nat d" using d(1) by auto
  then have "kern_entry_tables m (0x1000 + 4 * PGD_IDX v) = T OR PTE_P OR PTE_W OR PTE_U"
    using d(2) kern_entry_directory [of m] by (auto simp: T_def)
  moreover have "kern_entry_tables m (T + 0 + 4 * PTE_IDX v) = push_bit 12 i OR PTE_P OR PTE_W OR PTE_U"
    using kern_entry_words [OF idx_less(2), of m v] by (simp add: T_def i_def)
  moreover have "aligned T" by (simp add: T_def aligned_def)
  ultimately have "walk 0 (kern_entry_tables m) 0x1000 v = Some (push_bit 12 i OR (v AND 0xFFF))"
    by (intro walk_step)
  moreover have "unat x div 4096 = 1024 * (d mod 2) + unat x div 4096 mod 1024"
    using x(1) div_mult_mod_eq [of "unat x div 4096" 1024] by (simp add: div_mult2_eq [symmetric])
  then have "unat i = unat x div 4096"
    using p by (cases "d mod 2 = 0") (simp_all add: i_def unat_plus_if')
  then have "i = drop_bit 12 x" by (simp add: word_unat_eq_iff drop_bit_eq_div unat_div_distrib)
  ultimately show ?thesis by (simp only: o split_addr)
qed

lemma kern_entry_maps:
  assumes x: "unat x < 8388608"
  shows "walk 0 (kern_entry_tables m) 0x1000 x = Some x"
    "walk 0 (kern_entry_tables m) 0x1000 (x + PAGE_OFFSET) = Some x"
proof -
  define d where "d = unat x div 4194304"
  have d: "d = 0 \<or> d = 1" using x unfolding d_def by (simp add: less_2_cases_iff [symmetric] div_less_iff_less_mult)
  show "walk 0 (kern_entry_tables m) 0x1000 x = Some x"
    using d x by (intro boot_walk [of x d]) (auto simp: idx_nat d_def)
  have x': "unat x < 1073741824" using x by simp
  show "walk 0 (kern_entry_tables m) 0x1000 (x + PAGE_OFFSET) = Some x"
    using d x offset_parts [OF x'] by (intro boot_walk [of _ "768 + d"]) (auto simp: idx_nat(2) d_def)
qed

end
