(* ===== verification/Slab_Cache.thy ===== *)
theory Slab_Cache
  imports Slab_Objects Paging_Correct
begin

text \<open>
  Caches over slabs: how \<open>apply_slab\<close> gets a slab from the page allocator and maps it at the end of
  the heap, and what an allocation from a cache does in each of its cases.
\<close>

section \<open>The memory below the heap\<close>

definition frames_apart :: "'a pmm_scheme \<Rightarrow> bool" where
  "frames_apart s \<longleftrightarrow> (\<forall>j k. int k < phy_page_num s \<longrightarrow> j < k \<longrightarrow>
     start_addr (phy_pages s (PG j)) \<noteq> start_addr (phy_pages s (PG k)))"

definition heap_ok :: "kheap \<Rightarrow> pgptr multiset \<Rightarrow> bool" where
  "heap_ok s M \<longleftrightarrow> tables_ok s (pgd_kern s) \<and> buddy_pool s M \<and> spare_frames s (pgd_kern s) M \<and> frames_apart s"

lemma find_page_loop_first:
  assumes k: "int k < MAX_PG_NUM" "start_addr (h (PG k)) = a" "\<And>j. j < k \<Longrightarrow> start_addr (h (PG j)) \<noteq> a"
  shows "0 \<le> i \<Longrightarrow> i \<le> int k \<Longrightarrow> find_page_loop h a i = int k"
proof (induction "nat (int k - i)" arbitrary: i)
  case 0
  then have "i = int k" by simp
  with k show ?case by (simp add: find_page_loop.simps [of h a "int k"])
next
  case (Suc n)
  then have "nat i < k" "find_page_loop h a (i + 1) = int k" by simp_all
  with k Suc.prems show ?case by (subst find_page_loop.simps) simp
qed

lemma FindPageIndex_first:
  assumes "frames_apart s" "int k < phy_page_num s" "phy_page_num s < 131072"
  shows "FindPageIndex (start_addr (phy_pages s (PG k))) s = int k"
  unfolding FindPageIndex_def using assms
  by (intro find_page_loop_first) (auto simp: frames_apart_def MAX_PG_NUM_def)

lemma pool_frame:
  assumes "frames_apart s" "buddy_pool s M" "p \<in># M"
  obtains k where "p = PG k" "FindPageIndex (start_addr (phy_pages s p)) s = int k"
proof -
  have "frame_ok s p" "phy_page_num s < 131072"
    using assms(2,3) by (auto simp: buddy_pool_def buddy_rel_def)
  then show ?thesis using that FindPageIndex_first [OF assms(1)] by (auto simp: frame_ok_def)
qed

lemma table_cong: "words t = words s \<Longrightarrow> table t = table s \<and> pte_of t = pte_of s \<and> tables_ok t = tables_ok s"
  by (auto simp: fun_eq_iff table_def pte_of_def pte_slot_def rd32_def tables_ok_def)

lemma heap_ok_cong:
  assumes "phy_pages t = phy_pages s" "buddy_table t = buddy_table s" "phy_page_num t = phy_page_num s"
    "words t = words s" "pgd_kern t = pgd_kern s"
  shows "heap_ok t M = heap_ok s M"
proof -
  have "buddy_pool t M = buddy_pool s M"
    using buddy_pool_cong [of s M t] buddy_pool_cong [of t M s] assms by (auto simp: nxt_def prv_def)
  then show ?thesis
    using assms table_cong [OF assms(4)] by (simp add: heap_ok_def spare_frames_def frames_apart_def)
qed

lemma heap_ok_frame:
  assumes ok: "heap_ok s M"
    and same: "\<And>p. start_addr (phy_pages t p) = start_addr (phy_pages s p)"
      "\<And>p. p \<in># M \<Longrightarrow> nxt t p = nxt s p \<and> prv t p = prv s p \<and> ref_num (phy_pages t p) = ref_num (phy_pages s p)"
      "buddy_table t = buddy_table s" "phy_page_num t = phy_page_num s" "pgd_kern t = pgd_kern s"
    and tab: "tables_ok t (pgd_kern s)" "\<And>w. table t (pgd_kern s) w = table s (pgd_kern s) w"
  shows "heap_ok t M"
proof -
  have "buddy_pool t M"
    by (rule buddy_pool_frame [of s]) (use ok same(1-4) in \<open>unfold heap_ok_def, blast\<close>)+
  then show ?thesis using ok same(1,3-5) tab by (simp add: heap_ok_def spare_frames_def frames_apart_def)
qed

text \<open>Frames that leave the pool for a slab, with the books of the heap.\<close>

lemma heap_alloc_block:
  assumes ok: "heap_ok s M" and M: "M \<noteq> {#}"
  obtains B k M' t where "alloc_pages swap 1 s = kret (hd B) t" "heap_ok t M'" "M = M' + mset B" "size M \<le> 2 * size M' + 1"
    "B \<noteq> []" "hd B = PG k" "PG k \<notin># M'" "FindPageIndex (start_addr (phy_pages t (PG k))) t = int k" "same_frames s t"
    "buddy_held t B" "busy t B" "untouched M s t"
proof -
  have pool: "buddy_pool s M" "frames_apart s" using ok by (auto simp: heap_ok_def)
  obtain B M' t where t: "alloc_pages swap 1 s = kret (hd B) t" "M = M' + mset B" "B \<noteq> []" "2 * length B \<le> size M + 1"
      "buddy_pool t M'" "same_frames s t" "buddy_held t B" "busy t B" "untouched M s t"
    using alloc_one [OF pool(1) M] by blast
  have same: "start_addr (phy_pages t p) = start_addr (phy_pages s p)" "phy_page_num t = phy_page_num s" for p
    using t(6) by (simp_all add: same_frames_def)
  have rest: "pgd_kern t = pgd_kern s" using t(6) more_rest [of t s] by (simp add: same_frames_def)
  have "hd B \<in># M" using t(2,3) by simp
  from pool_frame [OF pool(2,1) this] obtain k where
    k: "hd B = PG k" "FindPageIndex (start_addr (phy_pages s (hd B))) s = int k" .
  have "one_each M" using pool(1) by (auto simp: buddy_pool_def buddy_rel_def)
  then have apart: "PG k \<notin># M'" using one_each_apart [of M' B "hd B"] t(2) hd_in_set [OF t(3)] k(1) by simp
  have "heap_ok t M'" using ok t(2,5) same words_same_frames [OF t(6)]
    by (auto simp: heap_ok_def spare_frames_def frames_apart_def rest)
  moreover have "FindPageIndex (start_addr (phy_pages t (PG k))) t = int k"
    using k FindPageIndex_cong [of t s] same by simp
  moreover have "size M \<le> 2 * size M' + 1" using t(2,4) by simp
  ultimately show ?thesis using that t k(1) apart by blast
qed

lemma heap_alloc_one:
  assumes ok: "heap_ok s M" and M: "M \<noteq> {#}"
  obtains k M' t where "alloc_pages swap 1 s = kret (PG k) t" "heap_ok t M'" "M' \<subseteq># M" "size M \<le> 2 * size M' + 1"
    "PG k \<in># M" "PG k \<notin># M'" "FindPageIndex (start_addr (phy_pages t (PG k))) t = int k" "same_frames s t"
proof -
  obtain B k M' t where t: "alloc_pages swap 1 s = kret (hd B) t" "heap_ok t M'" "M = M' + mset B"
      "size M \<le> 2 * size M' + 1" "B \<noteq> []" "hd B = PG k" "PG k \<notin># M'"
      "FindPageIndex (start_addr (phy_pages t (PG k))) t = int k" "same_frames s t"
    by (rule heap_alloc_block [OF ok M, of swap])
  have "PG k \<in># M" using t(3,5) hd_in_set [OF t(5)] by (simp add: t(6))
  moreover have "alloc_pages swap 1 s = kret (PG k) t" using t(1,6) by simp
  moreover have "M' \<subseteq># M" using t(3) by simp
  ultimately show ?thesis using that t(2,4,7-9) by blast
qed

lemma heap_map:
  assumes ok: "heap_ok s M" and M: "M \<noteq> {#}" and k: "FindPageIndex p_addr s = int k" "PG k \<notin># M"
  obtains t M' where "map_page swap (pgd_kern s) fl p_addr v s = kret (PG k) t"
    "map_result s (pgd_kern s) ((p_addr AND PAGE_MASK) OR fl) v k M t M'" "heap_ok t M'"
proof -
  have pool: "tables_ok s (pgd_kern s)" "buddy_pool s M" "spare_frames s (pgd_kern s) M" "frames_apart s"
    using ok by (auto simp: heap_ok_def)
  obtain t M' where t: "map_page swap (pgd_kern s) fl p_addr v s = kret (PG k) t"
      "map_result s (pgd_kern s) ((p_addr AND PAGE_MASK) OR fl) v k M t M'"
    using map_page_maps [OF pool(1-3) M k] by blast
  then have r: "tables_ok t (pgd_kern s)" "buddy_pool t M'" "M' \<subseteq># M" "phy_page_num t = phy_page_num s"
      "pgd_kern t = pgd_kern s" "\<And>p. start_addr (phy_pages t p) = start_addr (phy_pages s p)"
    and tab: "\<And>w. table t (pgd_kern s) w = table s (pgd_kern s) w \<or>
      (\<exists>p. p \<in># M \<and> p \<notin># M' \<and> table t (pgd_kern s) w = start_addr (phy_pages s p))"
    by (auto simp: map_result_def mapped_def)
  have diff: "start_addr (phy_pages s p) \<noteq> start_addr (phy_pages s q)" if "p \<in># M" "q \<in># M" "p \<noteq> q" for p q
    using pool_frame [OF pool(4,2) that(1)] pool_frame [OF pool(4,2) that(2)] that(3) by (metis of_nat_eq_iff)
  have "table t (pgd_kern s) w \<noteq> start_addr (phy_pages s q)" if "q \<in># M'" for q w
    using tab [of w]
  proof (elim disjE exE conjE)
    assume "table t (pgd_kern s) w = table s (pgd_kern s) w"
    then show ?thesis using pool(3) mset_subset_eqD [OF r(3) that] by (auto simp: spare_frames_def Let_def)
  next
    fix p
    assume p: "p \<in># M" "p \<notin># M'" "table t (pgd_kern s) w = start_addr (phy_pages s p)"
    have "p \<noteq> q" using p(2) that by auto
    then show ?thesis using diff p(1,3) mset_subset_eqD [OF r(3) that] by metis
  qed
  then have "spare_frames t (pgd_kern s) M'"
    using pool(3) r(3,6) by (auto simp: spare_frames_def Let_def dest: mset_subset_eqD)
  then have "heap_ok t M'" using pool(4) r by (simp add: heap_ok_def frames_apart_def)
  with t that show ?thesis by blast
qed

section \<open>A new slab\<close>

definition new_slab :: "addr \<Rightarrow> pgptr \<Rightarrow> uint \<Rightarrow> uint \<Rightarrow> slab" where
  "new_slab a pg pages n = \<lparr>pg_list = pg, sl_ref_num = 0, sl_flags = PTE_P OR PTE_W, slab_size = pages,
     sl_next = NULL, sl_prev = NULL, obj = a + slab_t_size + 2 * n, free_list = a + slab_t_size,
     active = 0, obj_num = n\<rparr>"

text \<open>Header, free list and objects of a slab at \<open>a\<close> stay inside its pages.\<close>

definition slab_fits :: "addr \<Rightarrow> uint \<Rightarrow> nat \<Rightarrow> nat \<Rightarrow> bool" where
  "slab_fits a z n pages \<longleftrightarrow> 2 \<le> unat z \<and> 40 + (2 + unat z) * n \<le> 4096 * pages \<and> n \<le> 32768 \<and>
     unat a + 4096 * pages \<le> 2 ^ 32"

lemma new_slab_nat:
  assumes "slab_fits a z n pages"
  shows "unat (a + slab_t_size) = unat a + 40" "unat (a + slab_t_size + 2 * of_nat n) = unat a + 40 + 2 * n"
    "unat (of_nat n :: uint) = n"
proof -
  have z: "2 \<le> unat z" "40 + (2 + unat z) * n \<le> 4096 * pages" "unat a + 4096 * pages \<le> 2 ^ 32"
    using assms by (auto simp: slab_fits_def)
  have "4 * n \<le> (2 + unat z) * n" using z(1) by (intro mult_le_mono1) simp
  then have "40 + 4 * n \<le> 4096 * pages" using z(2) by linarith
  moreover from this have "1 \<le> pages" by (cases pages) simp_all
  ultimately have "40 + 2 * n < 4096 * pages" by (cases "n = 0") linarith+
  then have b: "unat a + 40 + 2 * n < 2 ^ 32" using z(3) by linarith
  have "a + slab_t_size = of_nat (unat a + 40)" by (simp add: slab_t_size_def)
  also have "unat \<dots> = unat a + 40" using b by (simp only: unat_of_nat) simp
  finally show "unat (a + slab_t_size) = unat a + 40" .
  have "a + slab_t_size + 2 * of_nat n = of_nat (unat a + 40 + 2 * n)" by (simp add: slab_t_size_def)
  also have "unat \<dots> = unat a + 40 + 2 * n" using b by (simp only: unat_of_nat) simp
  finally show "unat (a + slab_t_size + 2 * of_nat n) = unat a + 40 + 2 * n" .
  show "unat (of_nat n :: uint) = n" using assms by (simp add: slab_fits_def unat_of_nat)
qed

lemma new_slab_pool:
  assumes fit: "slab_fits a z n pages" and sl: "slabs s a = new_slab a pg pgs (of_nat n)"
    and ids: "\<And>i. i < n \<Longrightarrow> free_ids s (a + slab_t_size + 2 * of_nat i) = of_nat i"
  shows "slab_pool a z n s []"
proof -
  have n: "n \<le> 32768" using fit by (simp add: slab_fits_def)
  have "(2 + unat z) * n = 2 * n + unat z * n" by (simp add: algebra_simps)
  then have "slab_wf a z n (slabs s a)"
    using fit new_slab_nat [OF fit] by (simp add: slab_wf_def sl new_slab_def slab_fits_def)
  moreover have "ids_from s a 0 = [0..<n]"
    using new_slab_nat(3) [OF fit] ids n
    by (auto simp: ids_from_def sl new_slab_def unat_of_nat intro!: map_idI)
  ultimately show ?thesis by (simp add: slab_pool_def) (simp add: sl new_slab_def)
qed

definition in_page :: "addr \<Rightarrow> addr \<Rightarrow> bool" where
  "in_page a b \<longleftrightarrow> unat a \<le> unat b \<and> unat b < unat a + 4096"

lemma slot_of_slab:
  assumes "slab_fits a z n pages" "i \<le> n"
  shows "unat (a + slab_t_size + 2 * of_nat i) = unat a + 40 + 2 * i"
proof -
  have "(2 + unat z) * i \<le> (2 + unat z) * n" using assms(2) by (rule mult_le_mono2)
  then have "slab_fits a z i pages" using assms by (auto simp: slab_fits_def)
  then show ?thesis by (rule new_slab_nat(2))
qed

lemma slot_in_page:
  assumes "slab_fits a z n 1" "i < n"
  shows "in_page a (a + slab_t_size + 2 * of_nat i)"
proof -
  have "2 * n \<le> (2 + unat z) * n" by simp
  then have "40 + 2 * n \<le> 4096" using assms(1) unfolding slab_fits_def by linarith
  then show ?thesis using slot_of_slab [OF assms(1), of i] assms(2) by (simp add: in_page_def)
qed

lemma free_list_filled:
  assumes "slab_fits a z n pages" "i < n"
  shows "fold (\<lambda>i m. m(a + slab_t_size + 2 * of_nat i := of_nat i)) [0..<n] m (a + slab_t_size + 2 * of_nat i) = of_nat i"
proof (rule fold_hit)
  have "unat (a + slab_t_size + 2 * of_nat j) = unat a + 40 + 2 * j" if "j < n" for j
    using slot_of_slab [OF assms(1), of j] that by simp
  then show "inj_on (\<lambda>i. a + slab_t_size + 2 * of_nat i) {0..<n}"
    by (intro inj_onI) (metis add_left_cancel atLeastLessThan_iff mult_left_cancel zero_neq_numeral)
qed (use assms(2) in simp)

text \<open>One page: what \<open>apply_slab\<close> leaves behind.\<close>

text \<open>What belongs to the users of the heap and stays when the heap works; nothing is printed.\<close>

definition same_users :: "kheap \<Rightarrow> kheap \<Rightarrow> bool" where
  "same_users s t \<longleftrightarrow> vmas t = vmas s \<and> mms t = mms s \<and> check_mm_struct t = check_mm_struct s \<and>
     swap_init_ok t = swap_init_ok s \<and> clock_point t = clock_point s \<and> klog t = klog s"

lemma more_users: "vmm.more t = vmm.more s \<Longrightarrow> klog t = klog s \<Longrightarrow> same_users s t" for s t :: kheap
  by (cases s; cases t) (simp add: same_users_def)

definition slab_result :: "kheap \<Rightarrow> nat \<Rightarrow> pgptr multiset \<Rightarrow> kheap \<Rightarrow> pgptr multiset \<Rightarrow> bool" where
  "slab_result s n M t M' \<longleftrightarrow> heap_ok t M' \<and> M' \<subseteq># M \<and> size M \<le> 4 * size M' + 3 \<and>
     (\<exists>k. PG k \<in># M \<and> PG k \<notin># M' \<and>
       (\<forall>w. pte_of t (pgd_kern s) w =
         (if same_page w (heap_top s) then (start_addr (phy_pages s (PG k)) AND PAGE_MASK) OR PTE_P OR PTE_W
          else pte_of s (pgd_kern s) w)) \<and>
       slabs t = (slabs s)(heap_top s := new_slab (heap_top s) (PG k) 1 (of_nat n))) \<and>
     (\<forall>i<n. free_ids t (heap_top s + slab_t_size + 2 * of_nat i) = of_nat i) \<and>
     (\<forall>b. \<not> in_page (heap_top s) b \<longrightarrow> free_ids t b = free_ids s b) \<and>
     heap_top t = heap_top s + PGSIZE \<and> caches t = caches s \<and> kmem_caches t = kmem_caches s \<and> pgd_kern t = pgd_kern s \<and>
     same_users s t"

lemma more_heap:
  "vmm.more t = vmm.more s \<Longrightarrow> slabs t = slabs s \<and> caches t = caches s \<and> free_ids t = free_ids s \<and>
     heap_top t = heap_top s \<and> kmem_caches t = kmem_caches s" for s t :: kheap
  by (cases s; cases t) simp

lemma apply_slab_one:
  assumes ok: "heap_ok s M" and M: "2 \<le> size M" and fit: "slab_fits (heap_top s) z n 1"
  shows "\<exists>t M'. apply_slab swap 1 (of_nat n) s = kret (heap_top s) t \<and> slab_result s n M t M'"
proof -
  have "M \<noteq> {#}" using M by auto
  then obtain k M1 u where u: "alloc_pages swap 1 s = kret (PG k) u" "heap_ok u M1" "M1 \<subseteq># M" "size M \<le> 2 * size M1 + 1"
      "PG k \<in># M" "PG k \<notin># M1" "FindPageIndex (start_addr (phy_pages u (PG k))) u = int k" "same_frames s u"
    using heap_alloc_one [OF ok] by metis
  have "M1 \<noteq> {#}" using u(4) M by auto
  from heap_map [OF u(2) this u(7,6)] obtain v M2 where
    v: "map_page swap (pgd_kern u) (PTE_P OR PTE_W) (start_addr (phy_pages u (PG k))) (heap_top u) u = kret (PG k) v"
      "map_result u (pgd_kern u) ((start_addr (phy_pages u (PG k)) AND PAGE_MASK) OR PTE_P OR PTE_W) (heap_top u) k M1 v M2"
      "heap_ok v M2" by metis
  have us: "pgd_kern u = pgd_kern s" "slabs u = slabs s" "caches u = caches s" "free_ids u = free_ids s"
      "heap_top u = heap_top s" "kmem_caches u = kmem_caches s" "pte_of u = pte_of s"
      "start_addr (phy_pages u p) = start_addr (phy_pages s p)" for p
    using u(8) more_rest [of u s] more_heap [of u s] words_same_frames [OF u(8)] by (simp_all add: same_frames_def)
  have vs: "pgd_kern v = pgd_kern u" "slabs v = slabs u" "caches v = caches u" "free_ids v = free_ids u"
      "heap_top v = heap_top u" "kmem_caches v = kmem_caches u" "M2 \<subseteq># M1" "size M1 \<le> 2 * size M2 + 1"
    and pte: "pte_of v (pgd_kern u) w = (if same_page w (heap_top u)
        then (start_addr (phy_pages u (PG k)) AND PAGE_MASK) OR PTE_P OR PTE_W else pte_of u (pgd_kern u) w)" for w
    using v(2) more_heap [of v u] by (simp_all add: map_result_def mapped_def)
  define t where "t = v\<lparr>heap_top := heap_top s + PGSIZE,
    slabs := (slabs s)(heap_top s := new_slab (heap_top s) (PG k) 1 (of_nat n)),
    free_ids := fold (\<lambda>i m. m(heap_top s + slab_t_size + 2 * of_nat i := of_nat i)) [0..<n] (free_ids s)\<rparr>"
  have n: "unat (of_nat n :: uint) = n" by (rule new_slab_nat(3) [OF fit])
  have "sint (1 :: uint) = 1" by simp
  then have "apply_slab swap 1 (of_nat n) s = kret (heap_top s) t"
    using u(1) v(1) n by (simp add: apply_slab_def us vs upd_slab_def t_def new_slab_def Let_def)
  moreover have "heap_ok t M2" using v(3) heap_ok_cong [of t v M2] by (simp add: t_def)
  moreover have "pte_of t = pte_of v" using table_cong [of t v] by (simp add: t_def)
  moreover have "free_ids t (heap_top s + slab_t_size + 2 * of_nat i) = of_nat i" if "i < n" for i
    using free_list_filled [OF fit that] by (simp add: t_def)
  moreover have "free_ids t b = free_ids s b" if "\<not> in_page (heap_top s) b" for b
  proof -
    have "b \<noteq> heap_top s + slab_t_size + 2 * of_nat i" if "i < n" for i
      using slot_in_page [OF fit that] \<open>\<not> in_page (heap_top s) b\<close> by auto
    then show ?thesis by (auto simp: t_def intro!: fold_miss)
  qed
  moreover have "same_users s t"
    using u(8) more_rest [of u s] more_users [of u s] v(2) more_users [of v u]
    by (simp add: same_frames_def map_result_def same_users_def t_def)
  moreover have "PG k \<notin># M2" using u(6) vs(7) by (auto dest: mset_subset_eqD)
  moreover have "M2 \<subseteq># M" using vs(7) u(3) by (rule subset_mset.order_trans)
  moreover have "size M \<le> 4 * size M2 + 3" using u(4) vs(8) by simp
  ultimately have "slab_result s n M t M2"
    using u(5) pte unfolding slab_result_def us vs by (auto simp: t_def us vs)
  with \<open>apply_slab swap 1 (of_nat n) s = kret (heap_top s) t\<close> show ?thesis by blast
qed

section \<open>Allocation from a cache\<close>

definition core :: "slab \<Rightarrow> uint \<times> uint \<times> int \<times> uint \<times> addr \<times> addr" where
  "core l = (obj l, free_list l, active l, obj_num l, sl_next l, sl_prev l)"

lemma slab_pool_frame:
  assumes "slab_pool a z n s H" "core (slabs t a) = core (slabs s a)"
    and "\<And>i. i < n \<Longrightarrow> free_ids t (free_list (slabs s a) + 2 * of_nat i) = free_ids s (free_list (slabs s a) + 2 * of_nat i)"
  shows "slab_pool a z n t H"
proof -
  have "unat (obj_num (slabs s a)) = n" using assms(1) by (simp add: slab_pool_def slab_wf_def)
  then have "ids_from t a = ids_from s a" using assms(2,3) by (simp add: ids_from_def core_def fun_eq_iff)
  moreover have "obj_at t a = obj_at s a" using assms(2) by (simp add: obj_at_def core_def fun_eq_iff)
  ultimately show ?thesis using assms(1,2) by (simp add: slab_pool_def slab_wf_def core_def)
qed

lemma slab_pool_caches [simp]: "slab_pool a z n (upd_cache c f s) H = slab_pool a z n s H"
  by (rule iffI; erule slab_pool_frame; simp)

lemma obj_at_caches [simp]: "obj_at (upd_cache c f s) = obj_at s" "next_id (upd_cache c f s) = next_id s"
  by (simp_all add: obj_at_def next_id_def fun_eq_iff)

definition take_obj :: "addr \<Rightarrow> addr \<Rightarrow> kheap \<Rightarrow> kheap" where
  "take_obj c a s = upd_slab a (\<lambda>l. l\<lparr>active := active l + 1, sl_ref_num := sl_ref_num l + 1\<rparr>)
     (upd_cache c (\<lambda>c. c\<lparr>ref_cnt := ref_cnt c + 1\<rparr>) s)"

lemma cache_alloc_partial:
  assumes c: "partial_slabs (caches s c) = a" "a \<noteq> NULL" "csize (caches s c) = z"
    and pool: "slab_pool a z n s H" "length H < n"
  defines "p \<equiv> obj_at s a z (next_id s a (length H))"
  shows "init_kmem_cache_alloc swap c s = kret p (take_obj c a s)" "slab_pool a z n (take_obj c a s) (p # H)"
proof -
  let ?s = "upd_cache c (\<lambda>c. c\<lparr>ref_cnt := ref_cnt c + 1\<rparr>) s"
  have pool': "slab_pool a z n ?s H" using pool(1) by simp
  note get = GetObj_takes [OF pool' pool(2), simplified, folded p_def]
  show "slab_pool a z n (take_obj c a s) (p # H)" using get(3) by (simp add: take_obj_def)
  have "p \<noteq> NULL" using so.held [OF get(3)] by auto
  then show "init_kmem_cache_alloc swap c s = kret p (take_obj c a s)"
    using c get(2) by (simp add: init_kmem_cache_alloc_def Let_def take_obj_def)
qed

text \<open>The slab that fills up first has no list to go to: the loop reads through a null pointer.\<close>

lemma cache_alloc_full:
  assumes c: "partial_slabs (caches s c) = a" "a \<noteq> NULL" "csize (caches s c) = z" "full_slabs (caches s c) = NULL"
    and pool: "slab_pool a z n s H" "length H = n"
  shows "init_kmem_cache_alloc swap c s = kstop (Undefined ''NULL'')"
proof -
  have pool': "slab_pool a z n (upd_cache c (\<lambda>c. c\<lparr>ref_cnt := ref_cnt c + 1\<rparr>) s) H" using pool(1) by simp
  show ?thesis using c GetObj_full [OF pool' pool(2)]
    by (simp add: init_kmem_cache_alloc_def append_full_def deref_def Let_def)
qed

definition empty_cache :: "uint \<Rightarrow> nat \<Rightarrow> kmem_cache \<Rightarrow> bool" where
  "empty_cache z n c \<longleftrightarrow> csize c = z \<and> obj_per_slab c = of_nat n \<and> order c = 0 \<and>
     free_slabs c = NULL \<and> partial_slabs c = NULL \<and> full_slabs c = NULL"

definition fresh_alloc :: "kheap \<Rightarrow> addr \<Rightarrow> uint \<Rightarrow> nat \<Rightarrow> pgptr multiset \<Rightarrow> addr \<Rightarrow> kheap \<Rightarrow> pgptr multiset \<Rightarrow> bool" where
  "fresh_alloc s c z n M p t M' \<longleftrightarrow> slab_pool (heap_top s) z n t [p] \<and> heap_ok t M' \<and> M' \<subseteq># M \<and> size M \<le> 4 * size M' + 3 \<and>
     heap_top t = heap_top s + PGSIZE \<and> kmem_caches t = kmem_caches s \<and> pgd_kern t = pgd_kern s \<and> same_users s t \<and>
     caches t = (caches s)(c := (caches s c)\<lparr>ref_cnt := ref_cnt (caches s c) + 1, partial_slabs := heap_top s\<rparr>) \<and>
     (\<exists>k. PG k \<in># M \<and> PG k \<notin># M' \<and> (\<forall>w. pte_of t (pgd_kern s) w =
        (if same_page w (heap_top s) then (start_addr (phy_pages s (PG k)) AND PAGE_MASK) OR PTE_P OR PTE_W
         else pte_of s (pgd_kern s) w))) \<and>
     (\<forall>b. b \<noteq> heap_top s \<longrightarrow> slabs t b = slabs s b) \<and>
     (\<exists>k. slabs t (heap_top s) =
        (new_slab (heap_top s) (PG k) 1 (of_nat n))\<lparr>active := 1, sl_ref_num := 2\<rparr>) \<and>
     (\<forall>b. \<not> in_page (heap_top s) b \<longrightarrow> free_ids t b = free_ids s b)"

lemma cache_alloc_first:
  assumes c: "empty_cache z n (caches s c)" and n: "0 < n"
    and heap: "heap_ok s M" "2 \<le> size M" "slab_fits (heap_top s) z n 1" "heap_top s \<noteq> NULL"
  defines "p \<equiv> heap_top s + slab_t_size + 2 * of_nat n"
  shows "\<exists>t M'. init_kmem_cache_alloc swap c s = kret p t \<and> fresh_alloc s c z n M p t M'"
proof -
  let ?s = "upd_cache c (\<lambda>c. c\<lparr>ref_cnt := ref_cnt c + 1\<rparr>) s"
  let ?a = "heap_top s"
  have "heap_ok ?s M" using heap(1) heap_ok_cong [of ?s s M] by (simp add: upd_cache_def)
  then obtain u M' where u: "apply_slab swap 1 (of_nat n) ?s = kret ?a u" "slab_result ?s n M u M'"
    using apply_slab_one [of ?s M z n swap] heap by auto
  then obtain k where r: "heap_ok u M'" "slabs u = (slabs s)(?a := new_slab ?a (PG k) 1 (of_nat n))"
      "heap_top u = ?a + PGSIZE" "caches u = caches ?s" "pgd_kern u = pgd_kern ?s"
      "\<And>i. i < n \<Longrightarrow> free_ids u (?a + slab_t_size + 2 * of_nat i) = of_nat i"
    unfolding slab_result_def by auto
  define v where "v = upd_slab ?a (\<lambda>l. l\<lparr>sl_ref_num := sl_ref_num l + 1\<rparr>)
    (upd_cache c (\<lambda>c. c\<lparr>partial_slabs := ?a, free_slabs := NULL\<rparr>) (upd_cache c (\<lambda>c. c\<lparr>free_slabs := ?a\<rparr>) u))"
  have refill: "refill swap c ?s = kret () v"
    using c u(1) r(2,3,4) by (simp add: refill_def empty_cache_def Let_def v_def new_slab_def pow2_def pow2_loop.simps)
  have "slab_pool ?a z n u []" using new_slab_pool [OF heap(3), of u "PG k" 1] r(2,6) by simp
  then have "slab_pool ?a z n v []" by (rule slab_pool_frame) (simp_all add: v_def core_def)
  then have pool: "slab_pool ?a z n v []" .
  have "next_id v ?a 0 = 0" using r(2) r(6) [OF n] by (simp add: next_id_def v_def new_slab_def)
  then have p: "obj_at v ?a z (next_id v ?a 0) = p" using r(2) by (simp add: obj_at_def v_def new_slab_def p_def)
  define t where "t = upd_slab ?a (\<lambda>l. l\<lparr>active := active l + 1, sl_ref_num := sl_ref_num l + 1\<rparr>) v"
  have get: "GetObj ?a z v = kret p t" "slab_pool ?a z n t [p]"
    using GetObj_takes(2,3) [OF pool] n p by (simp_all add: t_def)
  have "p \<noteq> NULL" using so.held [OF get(2)] by auto
  then have "init_kmem_cache_alloc swap c s = kret p t"
    using c heap(4) refill get(1) r(4) by (simp add: init_kmem_cache_alloc_def empty_cache_def Let_def v_def)
  moreover have "heap_ok t M'" using r(1) heap_ok_cong [of t u M'] by (simp add: t_def v_def upd_slab_def upd_cache_def)
  moreover have "pte_of t = pte_of u" using table_cong [of t u] by (simp add: t_def v_def upd_slab_def upd_cache_def)
  moreover have "pte_of ?s = pte_of s" using table_cong [of ?s s] by (simp add: upd_cache_def)
  moreover have "caches t = (caches s)(c := (caches s c)\<lparr>ref_cnt := ref_cnt (caches s c) + 1, partial_slabs := ?a\<rparr>)"
    using c r(4) by (auto simp: t_def v_def empty_cache_def fun_eq_iff)
  moreover have "phy_pages ?s = phy_pages s" "pgd_kern ?s = pgd_kern s" "pgd_kern t = pgd_kern u"
    by (simp_all add: upd_cache_def t_def v_def upd_slab_def)
  moreover have "same_users s t"
    using u(2) by (simp add: slab_result_def same_users_def t_def v_def upd_slab_def upd_cache_def)
  moreover have "slabs t ?a = (new_slab ?a (PG k) 1 (of_nat n))\<lparr>active := 1, sl_ref_num := 2\<rparr>"
    using r(2) by (simp add: t_def v_def new_slab_def)
  ultimately show ?thesis
    using get(2) u(2) r(2,5) unfolding slab_result_def fresh_alloc_def
    by (intro exI [of _ t] exI [of _ M']) (auto simp: t_def v_def)
qed

end
