(* ===== verification/Slab_Heap.thy ===== *)
theory Slab_Heap
  imports Slab_Cache
begin

text \<open>
  The heap as a whole: the size classes, the chain of caches that \<open>init_slab\<close> builds, and what
  \<open>kmalloc\<close> and \<open>kfree\<close> do on it.
\<close>

section \<open>Size classes\<close>

definition class_bytes :: "nat list" where
  "class_bytes = [32, 64, 128, 192, 256, 512, 1024, 2048, 4096, 8192, 16384, 32768, 65536, 131072]"

definition class_order :: "nat list" where
  "class_order = [0, 0, 0, 0, 0, 0, 0, 0, 1, 2, 3, 4, 5, 6]"

lemma bytes_of_info: "map CalculateBytes kmem_cache_info = map int class_bytes"
  by (simp add: kmem_cache_info_def class_bytes_def CalculateBytes_def IsDigit_def)

lemma pages_of_info: "map CalculatePages kmem_cache_info = map (\<lambda>k. 2 ^ k) class_order"
  by (simp add: kmem_cache_info_def class_order_def CalculatePages_def CalculateBytes_def IsDigit_def)

lemma class_lengths [simp]: "length kmem_cache_info = 14" "length class_bytes = 14" "length class_order = 14"
  by (simp_all add: kmem_cache_info_def class_bytes_def class_order_def)

lemma class_bytes_nth: "i < 14 \<Longrightarrow> CalculateBytes (kmem_cache_info ! i) = int (class_bytes ! i)"
  using nth_map [of i kmem_cache_info CalculateBytes] nth_map [of i class_bytes int] bytes_of_info by simp

lemma pages_nth: "i < 14 \<Longrightarrow> CalculatePages (kmem_cache_info ! i) = 2 ^ (class_order ! i)"
  using nth_map [of i kmem_cache_info CalculatePages] nth_map [of i class_order "\<lambda>k. 2 ^ k :: int"] pages_of_info
  by simp

text \<open>The class of a request: the first one with more bytes than asked for.\<close>

definition class_of :: "nat \<Rightarrow> nat" where
  "class_of sz = length (takeWhile (\<lambda>b. b \<le> sz) class_bytes)"

lemma class_of_bounds:
  assumes "sz < 131072"
  shows "class_of sz < 14" "sz < class_bytes ! class_of sz" "j < class_of sz \<Longrightarrow> class_bytes ! j \<le> sz"
proof -
  have "\<exists>b\<in>set class_bytes. \<not> b \<le> sz" using assms by (auto simp: class_bytes_def)
  then have "length (takeWhile (\<lambda>b. b \<le> sz) class_bytes) < length class_bytes"
    by (metis length_takeWhile_le order_neq_le_trans takeWhile_eq_all_conv takeWhile_eq_take take_all_iff linorder_not_le)
  then show c: "class_of sz < 14" by (simp add: class_of_def class_bytes_def)
  show "sz < class_bytes ! class_of sz"
    using nth_length_takeWhile [of "\<lambda>b. b \<le> sz" class_bytes] c by (simp add: class_of_def class_bytes_def)
  show "class_bytes ! j \<le> sz" if "j < class_of sz"
    using that nth_mem [of j "takeWhile (\<lambda>b. b \<le> sz) class_bytes"] takeWhile_nth [of j "\<lambda>b. b \<le> sz" class_bytes]
    by (auto simp: class_of_def dest: set_takeWhileD)
qed

section \<open>Chains of caches\<close>

fun chain :: "(addr \<Rightarrow> kmem_cache) \<Rightarrow> addr \<Rightarrow> addr list \<Rightarrow> bool" where
  "chain h p [] \<longleftrightarrow> p = NULL"
| "chain h p (c # cs) \<longleftrightarrow> p = c \<and> c \<noteq> NULL \<and> chain h (c_next (h c)) cs"

definition head_of :: "addr list \<Rightarrow> addr" where
  "head_of cs = (case cs of [] \<Rightarrow> NULL | c # _ \<Rightarrow> c)"

lemma chain_head: "chain h p cs \<Longrightarrow> p = head_of cs"
  by (cases cs) (simp_all add: head_of_def)

lemma chain_cong: "(\<And>c. c \<in> set cs \<Longrightarrow> c_next (h c) = c_next (g c)) \<Longrightarrow> chain h p cs = chain g p cs"
  by (induction cs arbitrary: p) auto

lemma chain_suffix: "chain h p (xs @ ys) \<Longrightarrow> chain h (head_of ys) ys"
  by (induction xs arbitrary: p) (auto dest: chain_head)

lemma chain_unique: "chain h p xs \<Longrightarrow> chain h p ys \<Longrightarrow> xs = ys"
proof (induction xs arbitrary: p ys)
  case Nil
  then show ?case by (cases ys) auto
next
  case (Cons x xs)
  then show ?case by (cases ys) auto
qed

lemma chain_distinct: "chain h p cs \<Longrightarrow> distinct cs"
proof (induction cs arbitrary: p)
  case (Cons c cs)
  have "c \<notin> set cs"
  proof
    assume "c \<in> set cs"
    then obtain us vs where cs: "cs = us @ c # vs" by (metis split_list)
    with Cons.prems have "chain h c (c # us @ c # vs)" by simp
    moreover from this have "chain h c (c # vs)" using chain_suffix [of h c "c # us" "c # vs"] by (simp add: head_of_def)
    ultimately have "c # us @ c # vs = c # vs" by (rule chain_unique)
    then have "length us + length (c # vs) = length vs" by (metis length_append list.inject)
    then show False by simp
  qed
  with Cons show ?case by auto
qed simp

text \<open>The loop of \<open>kmalloc\<close> ends, at the first cache with more bytes than asked for.\<close>

lemma kmalloc_cache_chain:
  "chain h p cs \<Longrightarrow>
   kmalloc_cache h sz p = Some (head_of (dropWhile (\<lambda>c. word_of_int (CalculateBytes (cname (h c))) \<le> sz) cs))"
proof (induction cs arbitrary: p)
  case Nil
  then show ?case by (simp add: kmalloc_cache.simps [of h sz 0] head_of_def)
next
  case (Cons c cs)
  then show ?case by (subst kmalloc_cache.simps) (auto simp: head_of_def not_le)
qed

lemma find_cache_chain:
  "chain h p cs \<Longrightarrow> find_cache h nm p = Some (head_of (dropWhile (\<lambda>c. cname (h c) \<noteq> nm) cs))"
proof (induction cs arbitrary: p)
  case Nil
  then show ?case by (simp add: find_cache.simps [of h nm 0] head_of_def)
next
  case (Cons c cs)
  then show ?case by (subst find_cache.simps) (auto simp: head_of_def)
qed

lemma head_dropWhile:
  "k < length cs \<Longrightarrow> length (takeWhile P cs) = k \<Longrightarrow> head_of (dropWhile P cs) = cs ! k"
  by (induction cs arbitrary: k) (auto simp: head_of_def split: if_splits)

lemma kmalloc_class:
  assumes ch: "chain (caches s) (c_next (caches s (kmem_caches s))) cs"
    and names: "map (\<lambda>c. cname (caches s c)) cs = kmem_cache_info"
  shows "kmalloc swap sz s =
    (if unat sz < 131072 then init_kmem_cache_alloc swap (cs ! class_of (unat sz)) s
     else kstop (Panic (line ''error while in kmalloc'')))"
proof -
  define h where "h = caches s"
  let ?b = "\<lambda>c. word_of_int (CalculateBytes (cname (h c))) :: uint"
  have len: "length cs = 14" using arg_cong [OF names, of length] by (simp add: kmem_cache_info_def)
  have b: "unat (?b (cs ! i)) = class_bytes ! i" if "i < 14" for i
  proof -
    have "cname (h (cs ! i)) = kmem_cache_info ! i" using that len names by (metis h_def length_map nth_map)
    moreover have "class_bytes ! i < 2 ^ 32" using that nth_mem [of i class_bytes] by (auto simp: class_bytes_def)
    ultimately show ?thesis using class_bytes_nth [OF that] by (simp add: unat_of_nat)
  qed
  have bs: "map (\<lambda>c. unat (?b c)) cs = class_bytes"
    using b len by (intro nth_equalityI) (auto simp: class_bytes_def)
  have tw: "length (takeWhile (\<lambda>c. ?b c \<le> sz) cs) = class_of (unat sz)"
    by (simp add: class_of_def takeWhile_map comp_def word_le_nat_alt flip: bs)
  have loop: "kmalloc_cache h sz (c_next (h (kmem_caches s))) = Some (head_of (dropWhile (\<lambda>c. ?b c \<le> sz) cs))"
    using kmalloc_cache_chain [OF ch [folded h_def]] .
  show ?thesis
  proof (cases "unat sz < 131072")
    case True
    then have "class_of (unat sz) < length cs" using class_of_bounds(1) len by simp
    then have "head_of (dropWhile (\<lambda>c. ?b c \<le> sz) cs) = cs ! class_of (unat sz)" "cs ! class_of (unat sz) \<in> set cs"
      using head_dropWhile tw by auto
    moreover have "chain g p xs \<Longrightarrow> NULL \<notin> set xs" for g p xs by (induction xs arbitrary: p) auto
    with ch have "NULL \<notin> set cs" by blast
    ultimately show ?thesis using loop True by (auto simp: kmalloc_def h_def)
  next
    case False
    then have "?b c \<le> sz" if "c \<in> set cs" for c
    proof -
      have "unat (?b c) \<in> set class_bytes" using that bs by (metis image_eqI set_map)
      then show ?thesis using False by (auto simp: class_bytes_def word_le_nat_alt)
    qed
    then have all: "dropWhile (\<lambda>c. ?b c \<le> sz) cs = []" by simp
    have "kmalloc_cache h sz (c_next (h (kmem_caches s))) = Some NULL" unfolding loop all by (simp add: head_of_def)
    then show ?thesis using False by (simp add: kmalloc_def h_def)
  qed
qed

section \<open>Caches with at most one slab\<close>

text \<open>
  A cache of single pages: no slab yet, or one slab that serves it. \<open>H\<close> are the objects that are out.
\<close>

definition slab_at :: "kheap \<Rightarrow> addr \<Rightarrow> uint \<Rightarrow> nat \<Rightarrow> addr list \<Rightarrow> bool" where
  "slab_at s a z n H \<longleftrightarrow> a \<noteq> NULL \<and> 4096 dvd unat a \<and> unat a + 4096 \<le> unat (heap_top s) \<and> slab_fits a z n 1 \<and>
     free_list (slabs s a) = a + slab_t_size \<and> obj (slabs s a) = a + slab_t_size + 2 * of_nat n \<and>
     sl_next (slabs s a) = NULL \<and> sl_prev (slabs s a) = NULL \<and> slab_pool a z n s H"

definition cache_state :: "kheap \<Rightarrow> addr \<Rightarrow> uint \<Rightarrow> nat \<Rightarrow> addr list \<Rightarrow> bool" where
  "cache_state s c z n H \<longleftrightarrow> empty_cache z n ((caches s c)\<lparr>partial_slabs := NULL\<rparr>) \<and>
     (if partial_slabs (caches s c) = NULL then H = [] else slab_at s (partial_slabs (caches s c)) z n H)"

definition heap_inv :: "kheap \<Rightarrow> pgptr multiset \<Rightarrow> (addr \<times> uint \<times> nat) list \<Rightarrow> (addr \<Rightarrow> addr list) \<Rightarrow> bool" where
  "heap_inv s M cl P \<longleftrightarrow> heap_ok s M \<and> 4096 dvd unat (heap_top s) \<and> heap_top s \<noteq> NULL \<and> distinct (map fst cl) \<and>
     (\<forall>(c, z, n) \<in> set cl. cache_state s c z n (P c)) \<and>
     (\<forall>c\<in>fst ` set cl. \<forall>d\<in>fst ` set cl. c \<noteq> d \<longrightarrow> partial_slabs (caches s c) \<noteq> NULL \<longrightarrow>
        partial_slabs (caches s c) \<noteq> partial_slabs (caches s d))"

lemma slab_at_frame:
  assumes at: "slab_at s a z n H" and c: "core (slabs t a) = core (slabs s a)" and top: "unat (heap_top s) \<le> unat (heap_top t)"
    and ids: "\<And>b. in_page a b \<Longrightarrow> free_ids t b = free_ids s b"
  shows "slab_at t a z n H"
proof -
  have fit: "slab_fits a z n 1" and fl: "free_list (slabs s a) = a + slab_t_size" and pool: "slab_pool a z n s H"
    using at by (auto simp: slab_at_def)
  have "slab_pool a z n t H"
    by (rule slab_pool_frame [OF pool c]) (simp add: fl ids slot_in_page [OF fit])
  then show ?thesis using at c top by (simp add: slab_at_def core_def)
qed

text \<open>The fields of a cache that its allocation uses.\<close>

definition ckey :: "kmem_cache \<Rightarrow> uint \<times> uint \<times> uint \<times> addr \<times> addr \<times> addr" where
  "ckey c = (csize c, obj_per_slab c, order c, free_slabs c, partial_slabs c, full_slabs c)"

lemma cache_state_frame:
  assumes "cache_state s c z n H" "unat (heap_top s) \<le> unat (heap_top t)" "ckey (caches t c) = ckey (caches s c)"
    and "partial_slabs (caches s c) \<noteq> NULL \<Longrightarrow> core (slabs t (partial_slabs (caches s c))) = core (slabs s (partial_slabs (caches s c))) \<and>
      (\<forall>b. in_page (partial_slabs (caches s c)) b \<longrightarrow> free_ids t b = free_ids s b)"
  shows "cache_state t c z n H"
  using assms slab_at_frame [of s "partial_slabs (caches s c)" z n H t]
  by (auto simp: cache_state_def empty_cache_def ckey_def split: if_splits)

lemma heap_invD:
  assumes "heap_inv s M cl P" "(c, z, n) \<in> set cl"
  shows "cache_state s c z n (P c)"
    "\<And>d. d \<in> fst ` set cl \<Longrightarrow> c \<noteq> d \<Longrightarrow> partial_slabs (caches s c) \<noteq> NULL \<Longrightarrow>
       partial_slabs (caches s c) \<noteq> partial_slabs (caches s d)"
proof -
  show "cache_state s c z n (P c)" using assms by (auto simp: heap_inv_def)
  have "c \<in> fst ` set cl" using assms(2) by force
  then show "\<And>d. d \<in> fst ` set cl \<Longrightarrow> c \<noteq> d \<Longrightarrow> partial_slabs (caches s c) \<noteq> NULL \<Longrightarrow>
       partial_slabs (caches s c) \<noteq> partial_slabs (caches s d)" using assms(1) unfolding heap_inv_def by blast
qed

lemma cache_unique: "heap_inv s M cl P \<Longrightarrow> (c, z, n) \<in> set cl \<Longrightarrow> (c, z', n') \<in> set cl \<Longrightarrow> z' = z \<and> n' = n"
  unfolding heap_inv_def by (metis eq_key_imp_eq_value fst_conv snd_conv prod.inject)

lemma heap_invI:
  assumes inv: "heap_inv s M cl P" and c: "(c, z, n) \<in> set cl"
    and ok: "heap_ok t M'" "4096 dvd unat (heap_top t)" "heap_top t \<noteq> NULL" "unat (heap_top s) \<le> unat (heap_top t)"
    and at: "slab_at t a z n (p # P c)" and cc: "ckey (caches t c) = ckey ((caches s c)\<lparr>partial_slabs := a\<rparr>)"
    and oth: "\<And>d. d \<noteq> c \<Longrightarrow> caches t d = caches s d" "\<And>b. b \<noteq> a \<Longrightarrow> slabs t b = slabs s b"
      "\<And>b. \<not> in_page a b \<Longrightarrow> free_ids t b = free_ids s b"
    and new: "partial_slabs (caches s c) = a \<or> a = heap_top s"
  shows "heap_inv t M' cl (P(c := p # P c))"
proof -
  have "cache_state s c z n (P c)" by (rule heap_invD(1) [OF inv c])
  then have cst: "cache_state t c z n (p # P c)"
    using at cc by (auto simp: cache_state_def empty_cache_def ckey_def slab_at_def split: if_splits)
  have diff: "partial_slabs (caches s d) \<noteq> a \<and> (\<forall>b. in_page (partial_slabs (caches s d)) b \<longrightarrow> \<not> in_page a b)"
    if d: "(d, z', n') \<in> set cl" "d \<noteq> c" "partial_slabs (caches s d) \<noteq> NULL" for d z' n'
  proof -
    let ?b = "partial_slabs (caches s d)"
    have b: "slab_at s ?b z' n' (P d)" using heap_invD(1) [OF inv d(1)] d(3) by (simp add: cache_state_def)
    have ne: "?b \<noteq> a" using new
    proof
      assume "partial_slabs (caches s c) = a"
      then show ?thesis using heap_invD(2) [OF inv d(1), of c] d c by force
    next
      assume "a = heap_top s"
      then show ?thesis using b by (auto simp: slab_at_def)
    qed
    have al: "4096 dvd unat ?b" "4096 dvd unat a" using b at by (auto simp: slab_at_def)
    have "in_page ?b x \<Longrightarrow> \<not> in_page a x" for x
    proof
      assume "in_page ?b x" "in_page a x"
      then have "unat ?b div 4096 = unat a div 4096"
        using al by (auto simp: in_page_def elim!: dvdE)
      then have "unat ?b = unat a" using al by (metis dvd_mult_div_cancel)
      with ne show False by (simp add: word_unat_eq_iff)
    qed
    with ne show ?thesis by blast
  qed
  have "cache_state t d z' n' (P d)" if d: "(d, z', n') \<in> set cl" "d \<noteq> c" for d z' n'
    using heap_invD(1) [OF inv d(1)] ok(4)
  proof (rule cache_state_frame)
    show "ckey (caches t d) = ckey (caches s d)" using oth(1) d(2) by simp
    show "core (slabs t (partial_slabs (caches s d))) = core (slabs s (partial_slabs (caches s d))) \<and>
      (\<forall>b. in_page (partial_slabs (caches s d)) b \<longrightarrow> free_ids t b = free_ids s b)" if "partial_slabs (caches s d) \<noteq> NULL"
      using diff [OF d that] oth(2,3) by auto
  qed
  then have all: "\<forall>(d, z', n') \<in> set cl. cache_state t d z' n' ((P(c := p # P c)) d)"
    using cst cache_unique [OF inv c] by (auto split: if_splits)
  have part: "partial_slabs (caches t d) = (if d = c then a else partial_slabs (caches s d))" for d
    using cc oth(1) by (auto simp: ckey_def)
  have na: "a \<noteq> NULL" using at by (simp add: slab_at_def)
  have ne: "partial_slabs (caches s d) \<noteq> a" if "d \<in> fst ` set cl" "d \<noteq> c" for d
  proof (cases "partial_slabs (caches s d) = NULL")
    case False
    obtain z' n' where "(d, z', n') \<in> set cl" using \<open>d \<in> fst ` set cl\<close> by force
    with diff False that(2) show ?thesis by blast
  qed (use na in simp)
  have "\<forall>d\<in>fst ` set cl. \<forall>e\<in>fst ` set cl. d \<noteq> e \<longrightarrow> partial_slabs (caches t d) \<noteq> NULL \<longrightarrow>
      partial_slabs (caches t d) \<noteq> partial_slabs (caches t e)"
  proof (intro ballI impI)
    fix d e
    assume de: "d \<in> fst ` set cl" "e \<in> fst ` set cl" "d \<noteq> e" "partial_slabs (caches t d) \<noteq> NULL"
    obtain z' n' where d: "(d, z', n') \<in> set cl" using de(1) by force
    show "partial_slabs (caches t d) \<noteq> partial_slabs (caches t e)"
      using de ne [OF de(1)] ne [OF de(2)] heap_invD(2) [OF inv d de(2)] unfolding part by (auto split: if_splits)
  qed
  moreover have "distinct (map fst cl)" using inv by (simp add: heap_inv_def)
  ultimately show ?thesis using ok(1-3) all unfolding heap_inv_def by blast
qed

lemma slab_take:
  assumes at: "slab_at s a z n H" "length H < n"
  defines "p \<equiv> obj_at s a z (next_id s a (length H))"
  shows "slab_at (take_obj c a s) a z n (p # H)"
proof -
  have pool: "slab_pool a z n (upd_cache c (\<lambda>c. c\<lparr>ref_cnt := ref_cnt c + 1\<rparr>) s) H" using at by (simp add: slab_at_def)
  have "slab_pool a z n (take_obj c a s) (p # H)"
    using GetObj_takes(3) [OF pool at(2)] by (simp add: take_obj_def p_def)
  then show ?thesis using at(1) by (simp add: slab_at_def take_obj_def)
qed

text \<open>An allocation from a cache with room: either it has a slab, or it gets its first one.\<close>

lemma heap_inv_alloc:
  assumes inv: "heap_inv s M cl P" and c: "(c, z, n) \<in> set cl" and room: "length (P c) < n"
    and mem: "partial_slabs (caches s c) = NULL \<Longrightarrow> 2 \<le> size M \<and> unat (heap_top s) + 4096 < 2 ^ 32 \<and> slab_fits (heap_top s) z n 1"
  obtains p t M' where "init_kmem_cache_alloc swap c s = kret p t" "heap_inv t M' cl (P(c := p # P c))"
    "size M \<le> 4 * size M' + 3" "kmem_caches t = kmem_caches s"
    "\<And>d. ckey (caches t d) = ckey ((caches s d)\<lparr>partial_slabs := partial_slabs (caches t d)\<rparr>)"
    "\<And>d. c_next (caches t d) = c_next (caches s d) \<and> c_prev (caches t d) = c_prev (caches s d) \<and> cname (caches t d) = cname (caches s d)"
    "\<And>d. d \<noteq> c \<Longrightarrow> caches t d = caches s d"
    "if partial_slabs (caches s c) = NULL then heap_top t = heap_top s + PGSIZE \<and> partial_slabs (caches t c) = heap_top s
     else heap_top t = heap_top s \<and> M' = M \<and> partial_slabs (caches t c) = partial_slabs (caches s c)"
    "same_users s t"
proof (cases "partial_slabs (caches s c) = NULL")
  case False
  let ?a = "partial_slabs (caches s c)"
  have cs: "cache_state s c z n (P c)" by (rule heap_invD(1) [OF inv c])
  then have at: "slab_at s ?a z n (P c)" and z: "csize (caches s c) = z"
    using False by (auto simp: cache_state_def empty_cache_def)
  define p where "p = obj_at s ?a z (next_id s ?a (length (P c)))"
  let ?t = "take_obj c ?a s"
  have "slab_pool ?a z n s (P c)" using at by (simp add: slab_at_def)
  then have al: "init_kmem_cache_alloc swap c s = kret p ?t"
    using cache_alloc_partial(1) [OF refl False z _ room] by (simp add: p_def)
  have "heap_inv ?t M cl (P(c := p # P c))"
  proof (rule heap_invI [OF inv c])
    show "heap_ok ?t M" using inv heap_ok_cong [of ?t s M]
      by (simp add: heap_inv_def take_obj_def upd_slab_def upd_cache_def)
    show "slab_at ?t ?a z n (p # P c)" using slab_take [OF at room] by (simp add: p_def)
  qed (use inv in \<open>simp_all add: take_obj_def heap_inv_def ckey_def\<close>)
  with al show ?thesis
    by (rule that)
      (use False in \<open>simp_all add: take_obj_def ckey_def\<close>, simp add: same_users_def upd_slab_def upd_cache_def)
next
  case True
  have cs: "cache_state s c z n (P c)" by (rule heap_invD(1) [OF inv c])
  then have e: "empty_cache z n (caches s c)" "P c = []" using True by (auto simp: cache_state_def empty_cache_def)
  have ok: "heap_ok s M" "heap_top s \<noteq> NULL" "4096 dvd unat (heap_top s)" using inv by (auto simp: heap_inv_def)
  have m: "2 \<le> size M" "unat (heap_top s) + 4096 < 2 ^ 32" "slab_fits (heap_top s) z n 1" using mem [OF True] by auto
  let ?a = "heap_top s"
  define p where "p = ?a + slab_t_size + 2 * of_nat n"
  obtain t M' where t: "init_kmem_cache_alloc swap c s = kret p t" "fresh_alloc s c z n M p t M'"
    using cache_alloc_first [OF e(1) _ ok(1) _ _ ok(2), of swap] room m unfolding p_def by fastforce
  have top: "unat (heap_top t) = unat ?a + 4096"
    using t(2) m(2) by (simp add: fresh_alloc_def PGSIZE_def unat_plus_if')
  have at: "slab_at t ?a z n (p # P c)"
    using t(2) top ok(2,3) m(3) e(2) by (auto simp: slab_at_def fresh_alloc_def new_slab_def)
  have "heap_inv t M' cl (P(c := p # P c))"
  proof (rule heap_invI [OF inv c _ _ _ _ at])
    show "4096 dvd unat (heap_top t)" using ok(3) top by simp
    show "heap_top t \<noteq> NULL" using top by auto
  qed (use t(2) top in \<open>auto simp: fresh_alloc_def ckey_def\<close>)
  with t(1) show ?thesis
    by (rule that) (use t(2) True in \<open>auto simp: fresh_alloc_def ckey_def\<close>)
qed

text \<open>Objects stay in the page of their slab, behind its header, and no two objects overlap.\<close>

lemma obj_in_slab:
  assumes "slab_at s a z n H" "p \<in> set H"
  obtains i where "i < n" "p = obj_at s a z i" "unat p = unat a + 40 + 2 * n + unat z * i" "unat p + unat z \<le> unat a + 4096"
proof -
  have fit: "slab_fits a z n 1" and wf: "slab_wf a z n (slabs s a)" and o: "obj (slabs s a) = a + slab_t_size + 2 * of_nat n"
    and pool: "slab_pool a z n s H" using assms(1) by (auto simp: slab_at_def slab_pool_def)
  obtain ids where "H = map (obj_at s a z) ids" "\<And>i. i \<in> set ids \<Longrightarrow> i < n" using pool_ids [OF pool] by blast
  then obtain i where i: "i < n" "p = obj_at s a z i" using assms(2) by auto
  have p: "unat p = unat a + 40 + 2 * n + unat z * i"
    using obj_at_nat [OF wf i(1)] new_slab_nat(2) [OF fit] by (simp add: i(2) o)
  have "unat z * i + unat z \<le> unat z * n" using mult_le_mono2 [of "Suc i" n "unat z"] i(1) by simp
  moreover have "40 + 2 * n + unat z * n \<le> 4096" using fit by (simp add: slab_fits_def algebra_simps)
  ultimately have "unat p + unat z \<le> unat a + 4096" using p by simp
  with that i p show ?thesis by blast
qed

lemma pages_apart:
  assumes "4096 dvd x" "4096 dvd y" "x \<noteq> y"
  shows "x + 4096 \<le> y \<or> y + 4096 \<le> (x :: nat)"
  using assms by (auto elim!: dvdE)

lemma heap_inv_apart:
  assumes inv: "heap_inv s M cl P" and c: "(c, z, n) \<in> set cl" "p \<in> set (P c)"
    and d: "(d, z', n') \<in> set cl" "q \<in> set (P d)" and ne: "c \<noteq> d \<or> p \<noteq> q"
  shows "unat p + unat z \<le> unat q \<or> unat q + unat z' \<le> unat p"
proof -
  let ?a = "partial_slabs (caches s c)" and ?b = "partial_slabs (caches s d)"
  have a: "slab_at s ?a z n (P c)" and b: "slab_at s ?b z' n' (P d)"
    using heap_invD(1) [OF inv c(1)] heap_invD(1) [OF inv d(1)] c(2) d(2) by (auto simp: cache_state_def split: if_splits)
  obtain i where i: "unat p = unat ?a + 40 + 2 * n + unat z * i" "unat p + unat z \<le> unat ?a + 4096"
    using obj_in_slab [OF a c(2)] by blast
  obtain j where j: "unat q = unat ?b + 40 + 2 * n' + unat z' * j" "unat q + unat z' \<le> unat ?b + 4096"
    using obj_in_slab [OF b d(2)] by blast
  show ?thesis
  proof (cases "c = d")
    case True
    then have zz: "z' = z" "n' = n" using cache_unique [OF inv c(1)] d(1) by blast+
    then have "i \<noteq> j" using ne True i(1) j(1) by (auto simp: word_unat_eq_iff)
    then have "unat z * Suc i \<le> unat z * j \<or> unat z * Suc j \<le> unat z * i"
      by (metis Suc_leI linorder_neqE_nat mult_le_mono2)
    then show ?thesis using i j zz True by auto
  next
    case False
    have "?a \<noteq> NULL" using a by (simp add: slab_at_def)
    moreover have "d \<in> fst ` set cl" using d(1) by force
    ultimately have "unat ?a \<noteq> unat ?b" using heap_invD(2) [OF inv c(1) _ False] by (simp add: word_unat_eq_iff)
    then have "unat ?a + 4096 \<le> unat ?b \<or> unat ?b + 4096 \<le> unat ?a"
      using a b by (intro pages_apart) (auto simp: slab_at_def)
    then show ?thesis using i j by auto
  qed
qed

end
