(* ===== verification/Slab_Init.thy ===== *)
theory Slab_Init
  imports Slab_Heap
begin

text \<open>
  \<open>init_slab\<close>: the static cache, the cache of caches it serves, and the fourteen caches of
  \<open>kmalloc\<close>. The result is the state \<open>kmalloc_ready\<close> that \<open>kmalloc\<close> needs and keeps.
\<close>

section \<open>New caches\<close>

definition cache_objs :: "nat \<Rightarrow> nat" where
  "cache_objs z = 4056 div (2 + z)"

lemma heap_inv_add:
  assumes inv: "heap_inv s M cl P" and c: "c \<notin> fst ` set cl" "empty_cache z n (caches s c)" "P c = []"
  shows "heap_inv s M ((c, z, n) # cl) P"
proof -
  have "cache_state s c z n (P c)" "partial_slabs (caches s c) = NULL"
    using c(2,3) by (simp_all add: cache_state_def empty_cache_def)
  moreover have "cache_state s d z' n' (P d)" if "(d, z', n') \<in> set cl" for d z' n' using heap_invD(1) [OF inv that] .
  moreover have "\<forall>d\<in>fst ` set cl. \<forall>e\<in>fst ` set cl. d \<noteq> e \<longrightarrow> partial_slabs (caches s d) \<noteq> NULL \<longrightarrow>
      partial_slabs (caches s d) \<noteq> partial_slabs (caches s e)" using inv by (simp add: heap_inv_def)
  ultimately show ?thesis using inv c(1) unfolding heap_inv_def by (auto simp: image_iff)
qed

text \<open>Changes of caches outside \<open>cl\<close>, and of fields the allocation does not use.\<close>

lemma heap_inv_caches:
  assumes inv: "heap_inv s M cl P" and same: "vmm.truncate t = vmm.truncate s" "slabs t = slabs s" "free_ids t = free_ids s"
    "heap_top t = heap_top s" and c: "\<And>c. c \<in> fst ` set cl \<Longrightarrow> ckey (caches t c) = ckey (caches s c)"
  shows "heap_inv t M cl P"
proof -
  have eq: "phy_pages t = phy_pages s" "buddy_table t = buddy_table s" "phy_page_num t = phy_page_num s"
      "words t = words s" "pgd_kern t = pgd_kern s"
    using same(1) by (simp_all add: vmm.truncate_def)
  have "cache_state t d z n (P d)" if "(d, z, n) \<in> set cl" for d z n
  proof (rule cache_state_frame [OF heap_invD(1) [OF inv that]])
    have "d \<in> fst ` set cl" using that by force
    then show "ckey (caches t d) = ckey (caches s d)" by (rule c)
  qed (simp_all add: same)
  moreover have "partial_slabs (caches t d) = partial_slabs (caches s d)" if "d \<in> fst ` set cl" for d
    using c [OF that] by (simp add: ckey_def)
  ultimately show ?thesis using inv same heap_ok_cong [OF eq] unfolding heap_inv_def by auto
qed

lemma upd_cache_truncate [simp]: "vmm.truncate (upd_cache c f s) = vmm.truncate s"
  by (simp add: upd_cache_def vmm.truncate_def)

definition made :: "string \<Rightarrow> kmem_cache \<Rightarrow> bool" where
  "made nm c \<longleftrightarrow> cname c = nm \<and> ckey c = (word_of_int (CalculateBytes nm),
     (PGSIZE * word_of_int (CalculatePages nm) - slab_t_size) div (2 + word_of_int (CalculateBytes nm)),
     word_of_int (the (log2 (CalculatePages nm))), NULL, NULL, NULL)"

lemma create_boot_cache_spec:
  assumes "log2 (sint pg_num) = Some k"
  shows "\<exists>f. create_boot_cache cache nm sz pg_num s = kret () (upd_cache cache f s) \<and>
    (\<forall>c. cname (f c) = nm \<and> c_next (f c) = NULL \<and>
       ckey (f c) = (sz, (PGSIZE * pg_num - slab_t_size) div (2 + sz), word_of_int k, NULL, NULL, NULL))"
  using assms by (auto simp: create_boot_cache_def ckey_def intro!: exI)

lemma create_made:
  assumes "nm \<in> set kmem_cache_info"
  shows "\<exists>f. create_boot_cache c nm (word_of_int (CalculateBytes nm)) (word_of_int (CalculatePages nm)) s =
      kret () (upd_cache c f s) \<and> (\<forall>c. made nm (f c) \<and> c_next (f c) = NULL)"
proof -
  obtain i where i: "i < 14" "nm = kmem_cache_info ! i" using assms by (auto simp: in_set_conv_nth)
  have k: "class_order ! i < 7" using nth_mem [of i class_order] i(1) by (auto simp: class_order_def)
  have "CalculatePages nm = 2 ^ (class_order ! i)" using pages_nth i by simp
  moreover have "(2::nat) ^ (class_order ! i) < 2 ^ 31" using k by (intro power_strict_increasing) auto
  ultimately have "sint (word_of_int (CalculatePages nm) :: uint) = CalculatePages nm"
    using sint_of_nat [of "2 ^ (class_order ! i)"] by simp
  moreover have "log2 (CalculatePages nm) = Some (int (class_order ! i))"
    using pages_nth [OF i(1)] i(2) k by simp
  ultimately show ?thesis
    using create_boot_cache_spec [of "word_of_int (CalculatePages nm)" "int (class_order ! i)" c nm "word_of_int (CalculateBytes nm)" s]
    by (auto simp: made_def)
qed

section \<open>The loop over the size classes\<close>

lemma chain_snoc:
  assumes "chain h p (cs @ [c])" "e \<noteq> NULL" "c_next (g c) = e" "c_next (g e) = NULL" "e \<notin> set (cs @ [c])" "distinct (cs @ [c])"
    and "\<And>d. d \<in> set cs \<Longrightarrow> c_next (g d) = c_next (h d)"
  shows "chain g p (cs @ [c, e])"
  using assms by (induction cs arbitrary: p) auto

definition root_low :: "kheap \<Rightarrow> addr \<Rightarrow> bool" where
  "root_low s root \<longleftrightarrow> unat root < unat (heap_top s) \<and>
     (partial_slabs (caches s root) \<noteq> NULL \<longrightarrow> unat root < unat (partial_slabs (caches s root)))"

definition growing :: "kheap \<Rightarrow> pgptr multiset \<Rightarrow> addr \<Rightarrow> addr list \<Rightarrow> string list \<Rightarrow> bool" where
  "growing s M root cs nms \<longleftrightarrow> heap_inv s M [(root, 44, 88)] ((\<lambda>_. [])(root := rev cs)) \<and> root_low s root \<and>
     chain (caches s) root (root # cs) \<and> list_all2 made nms (map (caches s) cs)"

lemma pool_props:
  assumes inv: "heap_inv s M [(root, 44, 88)] ((\<lambda>_. [])(root := rev cs))" and low: "root_low s root"
  shows "distinct (root # cs)" "NULL \<notin> set cs" "cs \<noteq> [] \<Longrightarrow> partial_slabs (caches s root) \<noteq> NULL"
proof -
  have cs: "cache_state s root 44 88 (rev cs)" using heap_invD(1) [OF inv, of root 44 88] by simp
  then show part: "cs \<noteq> [] \<Longrightarrow> partial_slabs (caches s root) \<noteq> NULL" by (auto simp: cache_state_def split: if_splits)
  have "distinct (root # cs) \<and> NULL \<notin> set cs"
  proof (cases "cs = []")
    case False
    with part cs have at: "slab_at s (partial_slabs (caches s root)) 44 88 (rev cs)" by (simp add: cache_state_def)
    then have "slab_pool (partial_slabs (caches s root)) 44 88 s (rev cs)" by (simp add: slab_at_def)
    then have "distinct (rev cs) \<and> NULL \<notin> set (rev cs)" using so.held by blast
    moreover have "unat root < unat c" if c: "c \<in> set cs" for c
    proof -
      have "unat root < unat (partial_slabs (caches s root))" using low part False by (simp add: root_low_def)
      moreover obtain i where "unat c = unat (partial_slabs (caches s root)) + 40 + 2 * 88 + unat (44::uint) * i"
        using obj_in_slab [OF at, of c] c by auto
      ultimately show ?thesis by linarith
    qed
    then have "root \<notin> set cs" by auto
    ultimately show ?thesis by simp
  qed simp
  then show "distinct (root # cs)" "NULL \<notin> set cs" by simp_all
qed

definition root_mem :: "kheap \<Rightarrow> pgptr multiset \<Rightarrow> addr \<Rightarrow> bool" where
  "root_mem s M root \<longleftrightarrow> (partial_slabs (caches s root) = NULL \<longrightarrow> 2 \<le> size M \<and> unat (heap_top s) + 4096 < 2 ^ 32)"

lemma slab_fits_44: "unat a + 4096 \<le> 2 ^ 32 \<Longrightarrow> slab_fits a 44 88 1"
  by (simp add: slab_fits_def)

lemma create_step:
  assumes g: "growing s M root cs nms" and mem: "root_mem s M root" and room: "length cs < 88"
    and nm: "nm \<in> set kmem_cache_info"
  obtains c t M' where "create_caches swap (nm # rest) root (last (root # cs)) s = create_caches swap rest root c t"
    "growing t M' root (cs @ [c]) (nms @ [nm])" "size M \<le> 4 * size M' + 3"
    "partial_slabs (caches s root) \<noteq> NULL \<Longrightarrow> M' = M \<and> heap_top t = heap_top s" "kmem_caches t = kmem_caches s"
    "unat (heap_top t) \<le> unat (heap_top s) + 4096" "unat (heap_top s) \<le> unat (heap_top t)" "same_users s t"
proof -
  let ?l = "last (root # cs)"
  have inv: "heap_inv s M [(root, 44, 88)] ((\<lambda>_. [])(root := rev cs))" and low: "root_low s root"
    and ch: "chain (caches s) root (root # cs)" and md: "list_all2 made nms (map (caches s) cs)"
    using g by (auto simp: growing_def)
  obtain c u M' where u: "init_kmem_cache_alloc swap root s = kret c u"
      "heap_inv u M' [(root, 44, 88)] ((\<lambda>_. [])(root := rev (cs @ [c])))" "size M \<le> 4 * size M' + 3"
      "kmem_caches u = kmem_caches s" "same_users s u"
    and key: "\<And>d. c_next (caches u d) = c_next (caches s d)" "\<And>d. d \<noteq> root \<Longrightarrow> caches u d = caches s d"
    and top: "if partial_slabs (caches s root) = NULL then heap_top u = heap_top s + PGSIZE \<and> partial_slabs (caches u root) = heap_top s
      else heap_top u = heap_top s \<and> M' = M \<and> partial_slabs (caches u root) = partial_slabs (caches s root)"
    by (rule heap_inv_alloc [OF inv, of root 44 88 swap]) (use room mem slab_fits_44 in \<open>auto simp: root_mem_def\<close>)
  have tops: "unat (heap_top s) \<le> unat (heap_top u)" "unat (heap_top u) \<le> unat (heap_top s) + 4096"
    using top mem by (auto simp: root_mem_def PGSIZE_def unat_plus_if' split: if_splits)
  have lowu: "root_low u root" using low top tops by (auto simp: root_low_def split: if_splits)
  note pp = pool_props [OF u(2) lowu]
  obtain f where f: "create_boot_cache c nm (word_of_int (CalculateBytes nm)) (word_of_int (CalculatePages nm))
      (kmem_cache_ctor c u) = kret () (upd_cache c f (kmem_cache_ctor c u))" "\<And>x. made nm (f x) \<and> c_next (f x) = NULL"
    using create_made [OF nm] by blast
  define t where "t = upd_cache c (\<lambda>d. d\<lparr>c_prev := ?l\<rparr>) (upd_cache ?l (\<lambda>d. d\<lparr>c_next := c\<rparr>) (upd_cache c f (kmem_cache_ctor c u)))"
  have run: "create_caches swap (nm # rest) root ?l s = create_caches swap rest root c t"
    using u(1) f(1) by (simp add: t_def)
  obtain L where L: "root # cs = L @ [?l]" using append_butlast_last_id [of "root # cs"] by (metis list.distinct(1))
  have l: "?l \<noteq> c" "c \<notin> set (L @ [?l])" "distinct (L @ [?l])" "c \<noteq> NULL"
  proof -
    have d: "distinct (root # cs)" "c \<notin> set (root # cs)" using pp(1) by auto
    show "distinct (L @ [?l])" by (rule iffD1 [OF arg_cong [OF L, of distinct] d(1)])
    show c: "c \<notin> set (L @ [?l])" using d(2) L by metis
    show "?l \<noteq> c" using c by auto
    show "c \<noteq> NULL" using pp(2) by auto
  qed
  have ct: "caches t d = (if d = c then (f (caches (kmem_cache_ctor c u) c))\<lparr>c_prev := ?l\<rparr>
      else if d = ?l then (caches u d)\<lparr>c_next := c\<rparr> else caches u d)" for d
    using l(1) by (simp add: t_def kmem_cache_ctor_def)
  have frame: "vmm.truncate t = vmm.truncate u" "slabs t = slabs u" "free_ids t = free_ids u" "heap_top t = heap_top u"
      "kmem_caches t = kmem_caches u" "same_users s t"
    using u(5) by (simp_all add: t_def kmem_cache_ctor_def) (simp add: same_users_def upd_cache_def)
  have keyt: "ckey (caches t d) = ckey (caches u d)" "cname (caches t d) = cname (caches u d)" if "d \<noteq> c" for d
    using that by (simp_all add: ct ckey_def)
  have "heap_inv t M' [(root, 44, 88)] ((\<lambda>_. [])(root := rev (cs @ [c])))"
    using heap_inv_caches [OF u(2) frame(1-4)] keyt(1) [of root] pp(1) by auto
  moreover have "root_low t root" using lowu keyt(1) [of root] pp(1) frame(4) by (auto simp: root_low_def ckey_def)
  moreover have "chain (caches t) root (root # cs @ [c])"
  proof -
    have "chain (caches s) root (L @ [?l])" by (rule iffD1 [OF arg_cong [OF L, of "chain (caches s) root"] ch])
    moreover have "c_next (caches t d) = c_next (caches s d)" if "d \<in> set L" for d
      using l(3) that key(1) l(2) by (auto simp: ct)
    moreover have "c_next (caches t ?l) = c" "c_next (caches t c) = NULL" using l(1) f(2) by (simp_all add: ct)
    ultimately have "chain (caches t) root (L @ [?l, c])"
      using l(2) l(3,4) by (intro chain_snoc [of "caches s"])
    moreover have "L @ [?l, c] = root # cs @ [c]" using L by (metis append_Cons append_assoc append_Nil)
    ultimately show ?thesis by (simp only:)
  qed
  moreover have "list_all2 made (nms @ [nm]) (map (caches t) (cs @ [c]))"
  proof -
    have "made x (caches t d)" if "made x (caches s d)" "d \<in> set cs" for x d
    proof -
      have "d \<noteq> c" "d \<noteq> root" using that(2) pp(1) by auto
      with keyt key(2) that(1) show ?thesis by (simp add: made_def)
    qed
    then have "list_all2 made nms (map (caches t) cs)"
      unfolding list_all2_map2 by (intro list.rel_mono_strong [OF md [unfolded list_all2_map2]]) blast
    moreover have "made nm (caches t c)" using f(2) by (simp add: ct made_def ckey_def)
    ultimately show ?thesis by (simp add: list_all2_appendI)
  qed
  ultimately have "growing t M' root (cs @ [c]) (nms @ [nm])" by (simp add: growing_def)
  then show ?thesis using run u(3,4) top tops frame by (intro that [of c t M']) (auto split: if_splits)
qed

lemma create_caches_grow:
  assumes "growing s M root cs nms" "root_mem s M root" "length cs + length rest \<le> 88" "set rest \<subseteq> set kmem_cache_info"
  shows "\<exists>cs' t M'. create_caches swap rest root (last (root # cs)) s = kret () t \<and>
    growing t M' root cs' (nms @ rest) \<and> size M \<le> 4 * size M' + 3 \<and> kmem_caches t = kmem_caches s \<and>
    unat (heap_top t) \<le> unat (heap_top s) + 4096 \<and> same_users s t \<and>
    (partial_slabs (caches s root) \<noteq> NULL \<longrightarrow> M' = M \<and> heap_top t = heap_top s)"
  using assms
proof (induction rest arbitrary: s M cs nms)
  case (Cons nm rest)
  obtain c t M' where t: "create_caches swap (nm # rest) root (last (root # cs)) s = create_caches swap rest root c t"
      "growing t M' root (cs @ [c]) (nms @ [nm])" "size M \<le> 4 * size M' + 3"
      "partial_slabs (caches s root) \<noteq> NULL \<Longrightarrow> M' = M \<and> heap_top t = heap_top s" "kmem_caches t = kmem_caches s"
      "unat (heap_top t) \<le> unat (heap_top s) + 4096" "same_users s t"
    by (rule create_step [OF Cons.prems(1,2), of nm swap rest]) (use Cons.prems(3,4) in \<open>simp_all del: create_caches.simps last.simps\<close>)
  have part: "partial_slabs (caches t root) \<noteq> NULL"
    using t(2) pool_props(3) [of t M' root "cs @ [c]"] by (simp add: growing_def)
  have "last (root # cs @ [c]) = c" by simp
  moreover from part have "root_mem t M' root" by (simp add: root_mem_def)
  ultimately obtain cs' u where "create_caches swap rest root c t = kret () u" "growing u M' root cs' (nms @ nm # rest)"
      "kmem_caches u = kmem_caches t" "heap_top u = heap_top t" "same_users t u"
    using Cons.IH [OF t(2)] Cons.prems(3,4) part by fastforce
  moreover from this t have "same_users s u" by (simp add: same_users_def)
  ultimately show ?case using t
    by (intro exI [of _ cs'] exI [of _ u] exI [of _ M']) (simp del: create_caches.simps last.simps)
next
  case Nil
  then show ?case by (intro exI [of _ cs] exI [of _ s] exI [of _ M]) (simp add: same_users_def)
qed

section \<open>The heap after start-up\<close>

definition small_classes :: "addr list \<Rightarrow> (addr \<times> uint \<times> nat) list" where
  "small_classes cs = map (\<lambda>i. (cs ! i, of_nat (class_bytes ! i), cache_objs (class_bytes ! i))) [0..<8]"

text \<open>The caches of the larger classes have no slab yet; small requests leave them alone.\<close>

definition large_idle :: "kheap \<Rightarrow> addr list \<Rightarrow> bool" where
  "large_idle s cs \<longleftrightarrow> (\<forall>c\<in>set (drop 8 cs). full_slabs (caches s c) = NULL \<and> partial_slabs (caches s c) = NULL)"

definition kmalloc_ready :: "kheap \<Rightarrow> pgptr multiset \<Rightarrow> addr list \<Rightarrow> (addr \<Rightarrow> addr list) \<Rightarrow> bool" where
  "kmalloc_ready s M cs P \<longleftrightarrow>
     heap_inv s M (small_classes cs @ [(kmem_caches s, 44, 88)]) P \<and> P (kmem_caches s) = rev cs \<and>
     chain (caches s) (kmem_caches s) (kmem_caches s # cs) \<and> map (\<lambda>c. cname (caches s c)) cs = kmem_cache_info \<and>
     large_idle s cs"

lemma made_empty:
  assumes "made (kmem_cache_info ! i) c" "i < 8"
  shows "empty_cache (of_nat (class_bytes ! i)) (cache_objs (class_bytes ! i)) c"
proof -
  have "i \<in> {0, 1, 2, 3, 4, 5, 6, 7}" using assms(2) by auto
  then show ?thesis
    using assms class_bytes_nth [of i] pages_nth [of i] log2_of_power [of 0]
    by (auto simp: made_def empty_cache_def ckey_def cache_objs_def class_bytes_def class_order_def PGSIZE_def slab_t_size_def)
qed

lemma add_classes:
  assumes inv: "heap_inv s M cl P" and cs: "distinct cs" "length cs = 14" "\<And>c. c \<in> set cs \<Longrightarrow> c \<notin> fst ` set cl \<and> P c = []"
    and md: "\<And>i. i < 14 \<Longrightarrow> made (kmem_cache_info ! i) (caches s (cs ! i))" and k: "k \<le> 8"
  shows "heap_inv s M (map (\<lambda>i. (cs ! i, of_nat (class_bytes ! i), cache_objs (class_bytes ! i))) [8 - k..<8] @ cl) P"
  using k
proof (induction k)
  case (Suc k)
  let ?i = "8 - Suc k"
  have "Suc ?i = 8 - k" using Suc.prems by simp
  then have "[?i..<8] = ?i # [8 - k..<8]" using Suc.prems upt_conv_Cons [of ?i 8] by simp
  moreover have "cs ! ?i \<notin> fst ` set (map (\<lambda>i. (cs ! i, of_nat (class_bytes ! i), cache_objs (class_bytes ! i))) [8 - k..<8] @ cl)"
  proof -
    have "cs ! ?i \<noteq> cs ! j" if "j \<in> {8 - k..<8}" for j
      using cs(1,2) Suc.prems that by (subst nth_eq_iff_index_eq) auto
    moreover have "cs ! ?i \<notin> fst ` set cl" using cs(2,3) by simp
    ultimately show ?thesis by (force simp: image_Un)
  qed
  ultimately show ?case
    using heap_inv_add [OF Suc.IH, of "cs ! ?i"] Suc.prems made_empty [OF md, of ?i] cs(2,3) by simp
qed (use inv in simp)

theorem init_slab_ready:
  assumes ok: "heap_ok s M" "16 \<le> size M"
    and top: "4096 dvd unat (heap_top s)" "unat (heap_top s) + 8192 < 2 ^ 32"
    and boot: "boot \<noteq> NULL" "unat boot < unat (heap_top s)"
  shows "\<exists>cs t M'. init_slab swap boot s = kret () t \<and> kmalloc_ready t M' cs ((\<lambda>_. [])(kmem_caches t := rev cs)) \<and>
    size M \<le> 16 * size M' + 15 \<and> unat (heap_top t) \<le> unat (heap_top s) + 8192 \<and> same_users s t"
proof -
  have l1: "log2 (sint (1::uint)) = Some 0" using log2_of_power [of 0] by simp
  obtain f where f: "create_boot_cache boot ''kmem_cache'' kmem_cache_t_size 1 s = kret () (upd_cache boot f s)"
      "\<And>c. ckey (f c) = (44, 88, 0, NULL, NULL, NULL)"
    using create_boot_cache_spec [OF l1, of boot "''kmem_cache''" 44 s]
    by (auto simp: kmem_cache_t_size_def PGSIZE_def slab_t_size_def)
  let ?s = "upd_cache boot f s"
  have nz: "heap_top s \<noteq> NULL" using boot(2) by auto
  have e: "empty_cache 44 88 (caches ?s boot)" using f(2) by (simp add: empty_cache_def ckey_def)
  have "heap_ok ?s M" using ok(1) heap_ok_cong [of ?s s M] by (simp add: upd_cache_def)
  then have "heap_inv ?s M [] (\<lambda>_. [])" using top(1) nz by (simp add: heap_inv_def)
  then have inv1: "heap_inv ?s M [(boot, 44, 88)] (\<lambda>_. [])" using e by (intro heap_inv_add) auto
  obtain root u M1 where u: "init_kmem_cache_alloc swap boot ?s = kret root u"
      "heap_inv u M1 [(boot, 44, 88)] ((\<lambda>_. [])(boot := [root]))" "size M \<le> 4 * size M1 + 3" "same_users ?s u"
    and tu: "if partial_slabs (caches ?s boot) = NULL
      then heap_top u = heap_top ?s + PGSIZE \<and> partial_slabs (caches u boot) = heap_top ?s
      else heap_top u = heap_top ?s \<and> M1 = M \<and> partial_slabs (caches u boot) = partial_slabs (caches ?s boot)"
    by (rule heap_inv_alloc [OF inv1, of boot 44 88 swap]) (use ok(2) top slab_fits_44 in auto)
  have topu: "unat (heap_top u) = unat (heap_top s) + 4096" "partial_slabs (caches u boot) = heap_top s"
    using tu e top(2) by (auto simp: empty_cache_def PGSIZE_def unat_plus_if')
  have "cache_state u boot 44 88 [root]" using heap_invD(1) [OF u(2), of boot 44 88] by simp
  then have at: "slab_at u (heap_top s) 44 88 [root]" using topu(2) nz by (simp add: cache_state_def)
  obtain i where root: "unat root = unat (heap_top s) + 40 + 2 * 88 + unat (44::uint) * i"
      "unat root + unat (44::uint) \<le> unat (heap_top s) + 4096"
    by (metis obj_in_slab [OF at] list.set_intros(1))
  obtain g where g: "create_boot_cache root ''cache_cache'' kmem_cache_t_size 1 (kmem_cache_ctor root u) =
        kret () (upd_cache root g (kmem_cache_ctor root u))"
      "\<And>c. ckey (g c) = (44, 88, 0, NULL, NULL, NULL)" "\<And>c. c_next (g c) = NULL"
    using create_boot_cache_spec [OF l1, of root "''cache_cache''" 44 "kmem_cache_ctor root u"]
    by (auto simp: kmem_cache_t_size_def PGSIZE_def slab_t_size_def)
  define v where "v = (upd_cache root g (kmem_cache_ctor root u))\<lparr>kmem_caches := root\<rparr>"
  have cv: "caches v root = g (caches (kmem_cache_ctor root u) root)" "heap_top v = heap_top u" "kmem_caches v = root"
    by (simp_all add: v_def kmem_cache_ctor_def)
  have ev: "empty_cache 44 88 (caches v root)" using g(2) by (simp add: cv empty_cache_def ckey_def)
  have "heap_ok v M1"
    using u(2) heap_ok_cong [of v u M1] by (simp add: heap_inv_def v_def upd_cache_def kmem_cache_ctor_def)
  then have "heap_inv v M1 [] (\<lambda>_. [])" using u(2) by (simp add: heap_inv_def cv)
  then have "heap_inv v M1 [(root, 44, 88)] (\<lambda>_. [])" using ev by (intro heap_inv_add) auto
  moreover have "root \<noteq> NULL" using root(1) by auto
  moreover have "partial_slabs (caches v root) = NULL" using ev by (simp add: empty_cache_def)
  ultimately have gr: "growing v M1 root [] []"
    using g(3) root topu(1) by (simp add: growing_def root_low_def cv fun_upd_idem)
  have "root_mem v M1 root" using u(3) ok(2) top(2) topu(1) by (simp add: root_mem_def cv)
  from create_caches_grow [OF gr this, of kmem_cache_info swap] obtain cs t M' where
    t: "create_caches swap kmem_cache_info root root v = kret () t" "growing t M' root cs kmem_cache_info"
      "size M1 \<le> 4 * size M' + 3" "kmem_caches t = root" "unat (heap_top t) \<le> unat (heap_top u) + 4096"
      "same_users v t"
    by (auto simp: cv)
  have run: "init_slab swap boot s = kret () t"
    using f(1) u(1) g(1) t(1)
    by (simp add: init_slab_def init_create_kmalloc_cache_def v_def)
  have inv: "heap_inv t M' [(root, 44, 88)] ((\<lambda>_. [])(root := rev cs))" and low: "root_low t root"
    and ch: "chain (caches t) root (root # cs)" and md: "list_all2 made kmem_cache_info (map (caches t) cs)"
    using t(2) by (auto simp: growing_def)
  have len: "length cs = 14" using list_all2_lengthD [OF md] by simp
  have mi: "made (kmem_cache_info ! i) (caches t (cs ! i))" if "i < 14" for i
    using list_all2_nthD [OF md, of i] that len by simp
  note pp = pool_props [OF inv low]
  have "heap_inv t M' (small_classes cs @ [(root, 44, 88)]) ((\<lambda>_. [])(root := rev cs))"
  proof -
    have "distinct cs" "\<And>c. c \<in> set cs \<Longrightarrow> c \<notin> fst ` set [(root, 44 :: uint, 88 :: nat)] \<and> ((\<lambda>_. [])(root := rev cs)) c = []"
      using pp(1) by auto
    from add_classes [OF inv this(1) len this(2) mi, of 8] show ?thesis by (simp add: small_classes_def fun_upd_def)
  qed
  moreover have "map (\<lambda>c. cname (caches t c)) cs = kmem_cache_info"
    using mi len by (intro nth_equalityI) (auto simp: made_def)
  moreover have "large_idle t cs"
  proof -
    have "full_slabs (caches t c) = NULL \<and> partial_slabs (caches t c) = NULL" if c: "c \<in> set cs" for c
    proof -
      obtain i where "i < 14" "c = cs ! i" using c len by (auto simp: in_set_conv_nth)
      then show ?thesis using mi [of i] by (simp add: made_def ckey_def)
    qed
    then show ?thesis unfolding large_idle_def by (meson in_set_dropD)
  qed
  ultimately have "kmalloc_ready t M' cs ((\<lambda>_. [])(kmem_caches t := rev cs))"
    using ch t(4) by (simp add: kmalloc_ready_def)
  moreover have "size M \<le> 16 * size M' + 15" using u(3) t(3) by linarith
  moreover have "unat (heap_top t) \<le> unat (heap_top s) + 8192" using t(5) topu(1) by simp
  moreover have "same_users s t"
    using u(4) t(6) by (simp add: same_users_def v_def upd_cache_def kmem_cache_ctor_def)
  ultimately show ?thesis using run by blast
qed

section \<open>Requests of less than two kilobytes\<close>

lemma small_class:
  assumes "kmalloc_ready s M cs P" "unat sz < 2048"
  defines "i \<equiv> class_of (unat sz)"
  shows "i < 8" "(cs ! i, of_nat (class_bytes ! i), cache_objs (class_bytes ! i)) \<in> set (small_classes cs @ [(kmem_caches s, 44, 88)])"
    "cs ! i \<noteq> kmem_caches s" "kmalloc swap sz s = init_kmem_cache_alloc swap (cs ! i) s"
    "length cs = 14"
proof -
  have "\<not> 7 < i"
  proof
    assume "7 < i"
    then have "class_bytes ! 7 \<le> unat sz" using assms(2) by (intro class_of_bounds(3)) (simp_all add: i_def)
    then show False using assms(2) by (simp add: class_bytes_def)
  qed
  then show i: "i < 8" by simp
  have names: "map (\<lambda>c. cname (caches s c)) cs = kmem_cache_info" using assms(1) by (simp add: kmalloc_ready_def)
  show len: "length cs = 14" using arg_cong [OF names, of length] by simp
  show "(cs ! i, of_nat (class_bytes ! i), cache_objs (class_bytes ! i)) \<in> set (small_classes cs @ [(kmem_caches s, 44, 88)])"
    using i by (auto simp: small_classes_def)
  have d: "distinct (map fst (small_classes cs @ [(kmem_caches s, 44, 88)]))"
    using assms(1) by (simp add: kmalloc_ready_def heap_inv_def)
  have "map fst (small_classes cs) ! i = cs ! i" using i by (simp add: small_classes_def del: upt_rec_numeral)
  moreover have "map fst (small_classes cs) ! i \<in> set (map fst (small_classes cs))"
    using i by (intro nth_mem) (simp add: small_classes_def del: upt_rec_numeral)
  moreover have "kmem_caches s \<notin> set (map fst (small_classes cs))" using d by simp
  ultimately show "cs ! i \<noteq> kmem_caches s" by metis
  show "kmalloc swap sz s = init_kmem_cache_alloc swap (cs ! i) s"
    using kmalloc_class [of s cs swap sz] assms by (simp add: kmalloc_ready_def)
qed

lemma class_fits:
  assumes "i < 8" "4096 dvd unat a" "unat a + 4096 \<le> 2 ^ 32"
  shows "slab_fits a (of_nat (class_bytes ! i)) (cache_objs (class_bytes ! i)) 1"
proof -
  have "i \<in> {0, 1, 2, 3, 4, 5, 6, 7}" using assms(1) by auto
  then show ?thesis using assms(3) by (auto simp: slab_fits_def cache_objs_def class_bytes_def)
qed

lemma kmalloc_serves:
  assumes ready: "kmalloc_ready s M cs P" and sz: "unat sz < 2048"
    and room: "length (P (cs ! class_of (unat sz))) < cache_objs (class_bytes ! class_of (unat sz))"
    and mem: "P (cs ! class_of (unat sz)) = [] \<Longrightarrow> 2 \<le> size M \<and> unat (heap_top s) + 4096 < 2 ^ 32"
  shows "\<exists>p t M'. kmalloc swap sz s = kret p t \<and> size M \<le> 4 * size M' + 3 \<and> same_users s t \<and>
    kmalloc_ready t M' cs (P(cs ! class_of (unat sz) := p # P (cs ! class_of (unat sz))))"
proof -
  let ?c = "cs ! class_of (unat sz)"
  note sc = small_class [OF ready sz]
  have inv: "heap_inv s M (small_classes cs @ [(kmem_caches s, 44, 88)]) P" using ready by (simp add: kmalloc_ready_def)
  have "4096 dvd unat (heap_top s)" using inv by (simp add: heap_inv_def)
  then have fit: "slab_fits (heap_top s) (of_nat (class_bytes ! class_of (unat sz))) (cache_objs (class_bytes ! class_of (unat sz))) 1"
    if "P ?c = []" using class_fits [OF sc(1)] mem [OF that] by simp
  have none: "P ?c = []" if "partial_slabs (caches s ?c) = NULL"
    using heap_invD(1) [OF inv sc(2)] that by (simp add: cache_state_def)
  obtain p t M' where t: "init_kmem_cache_alloc swap ?c s = kret p t" "size M \<le> 4 * size M' + 3"
      "heap_inv t M' (small_classes cs @ [(kmem_caches s, 44, 88)]) (P(?c := p # P ?c))" "kmem_caches t = kmem_caches s"
      "same_users s t"
    and same: "\<And>d. c_next (caches t d) = c_next (caches s d) \<and> c_prev (caches t d) = c_prev (caches s d) \<and> cname (caches t d) = cname (caches s d)"
      "\<And>d. d \<noteq> ?c \<Longrightarrow> caches t d = caches s d"
    by (rule heap_inv_alloc [OF inv sc(2) room, of swap]) (use mem fit none in auto)
  have "?c \<notin> set (drop 8 cs)"
  proof -
    have "distinct cs" using chain_distinct [of "caches s" "kmem_caches s" "kmem_caches s # cs"] ready
      by (simp add: kmalloc_ready_def del: chain.simps)
    then have "set (take 8 cs) \<inter> set (drop 8 cs) = {}" by (rule set_take_disj_set_drop_if_distinct) simp
    moreover have "?c \<in> set (take 8 cs)" using sc(1) sc(5) by (auto simp: in_set_conv_nth)
    ultimately show ?thesis by blast
  qed
  then have "caches t d = caches s d" if "d \<in> set (drop 8 cs)" for d using same(2) [of d] that by metis
  then have idle: "large_idle t cs" using ready by (simp add: kmalloc_ready_def large_idle_def)
  have ch: "chain (caches s) (kmem_caches s) (kmem_caches s # cs)" using ready by (simp add: kmalloc_ready_def)
  have "chain (caches t) (kmem_caches s) (kmem_caches s # cs)"
    by (rule iffD1 [OF chain_cong ch]) (simp add: same(1))
  then have "kmalloc_ready t M' cs (P(?c := p # P ?c))"
    using ready t(3,4) same(1) sc(3) idle by (simp add: kmalloc_ready_def del: chain.simps)
  with t(1,2,5) sc(4) show ?thesis by auto
qed

lemma ready_distinct:
  assumes ready: "kmalloc_ready s M cs P" and c: "(c, z, n) \<in> set (small_classes cs @ [(kmem_caches s, 44, 88)])"
  shows "distinct (P c)"
proof -
  have inv: "heap_inv s M (small_classes cs @ [(kmem_caches s, 44, 88)]) P" using ready by (simp add: kmalloc_ready_def)
  have st: "cache_state s c z n (P c)" by (rule heap_invD(1) [OF inv c])
  show ?thesis
  proof (cases "partial_slabs (caches s c) = NULL")
    case False
    with st have "slab_pool (partial_slabs (caches s c)) z n s (P c)" by (simp add: cache_state_def slab_at_def)
    then show ?thesis using so.held by blast
  qed (use st in \<open>simp add: cache_state_def\<close>)
qed

text \<open>The blocks that are out lie apart, and each has more bytes than were asked for.\<close>

lemma kmalloc_serves_class:
  assumes "kmalloc_ready s M cs P" "unat sz < 2048" "class_of (unat sz) = i" "P (cs ! i) = H"
    and "length H < cache_objs (class_bytes ! i)" "H = [] \<Longrightarrow> 2 \<le> size M \<and> unat (heap_top s) + 4096 < 2 ^ 32"
  obtains p t M' where "kmalloc swap sz s = kret p t" "kmalloc_ready t M' cs (P(cs ! i := p # H))"
    "size M \<le> 4 * size M' + 3" "same_users s t"
  using kmalloc_serves [OF assms(1,2)] assms(3-) by blast

lemma kmalloc_apart:
  assumes ready: "kmalloc_ready s M cs P" and i: "i < 8" "j < 8" and p: "p \<in> set (P (cs ! i))" "q \<in> set (P (cs ! j))"
    and ne: "i \<noteq> j \<or> p \<noteq> q"
  shows "unat p + class_bytes ! i \<le> unat q \<or> unat q + class_bytes ! j \<le> unat p"
proof -
  have inv: "heap_inv s M (small_classes cs @ [(kmem_caches s, 44, 88)]) P" using ready by (simp add: kmalloc_ready_def)
  have mem: "(cs ! k, of_nat (class_bytes ! k), cache_objs (class_bytes ! k)) \<in> set (small_classes cs @ [(kmem_caches s, 44, 88)])"
    if "k < 8" for k using that by (auto simp: small_classes_def)
  have b: "unat (of_nat (class_bytes ! k) :: uint) = class_bytes ! k" if "k < 8" for k
  proof -
    have "k \<in> {0, 1, 2, 3, 4, 5, 6, 7}" using that by auto
    then show ?thesis by (auto simp: class_bytes_def)
  qed
  have "cs ! i \<noteq> cs ! j" if "i \<noteq> j"
  proof -
    have "distinct (map fst (small_classes cs))" using inv by (simp add: heap_inv_def)
    then have "distinct (map (\<lambda>i. cs ! i) [0..<8])" by (simp add: small_classes_def comp_def del: upt_rec_numeral)
    then have "inj_on (\<lambda>i. cs ! i) {0..<8}" by (simp add: distinct_map del: upt_rec_numeral)
    then show ?thesis using that i inj_onD [of "\<lambda>i. cs ! i" "{0..<8}" i j] by auto
  qed
  then have "cs ! i \<noteq> cs ! j \<or> p \<noteq> q" using ne by blast
  from heap_inv_apart [OF inv mem [OF i(1)] p(1) mem [OF i(2)] p(2) this] show ?thesis by (simp add: b i)
qed

lemma kmalloc_full:
  assumes ready: "kmalloc_ready s M cs P" and sz: "unat sz < 2048"
    and full: "length (P (cs ! class_of (unat sz))) = cache_objs (class_bytes ! class_of (unat sz))"
  shows "kmalloc swap sz s = kstop (Undefined ''NULL'')"
proof -
  let ?c = "cs ! class_of (unat sz)" and ?n = "cache_objs (class_bytes ! class_of (unat sz))"
  note sc = small_class [OF ready sz]
  have inv: "heap_inv s M (small_classes cs @ [(kmem_caches s, 44, 88)]) P" using ready by (simp add: kmalloc_ready_def)
  have "class_of (unat sz) \<in> {0, 1, 2, 3, 4, 5, 6, 7}" using sc(1) by auto
  then have "0 < ?n" by (auto simp: cache_objs_def class_bytes_def)
  then have "P ?c \<noteq> []" using full by auto
  moreover have "cache_state s ?c (of_nat (class_bytes ! class_of (unat sz))) ?n (P ?c)" by (rule heap_invD(1) [OF inv sc(2)])
  ultimately have st: "slab_at s (partial_slabs (caches s ?c)) (of_nat (class_bytes ! class_of (unat sz))) ?n (P ?c)"
      "partial_slabs (caches s ?c) \<noteq> NULL" "csize (caches s ?c) = of_nat (class_bytes ! class_of (unat sz))"
      "full_slabs (caches s ?c) = NULL"
    by (auto simp: cache_state_def empty_cache_def split: if_splits)
  have "slab_pool (partial_slabs (caches s ?c)) (of_nat (class_bytes ! class_of (unat sz))) ?n s (P ?c)"
    using st(1) by (simp add: slab_at_def)
  then show ?thesis using cache_alloc_full [OF refl st(2-4) _ full, of swap] sc(4) by simp
qed

end
