(* ===== verification/Samples.thy ===== *)
theory Samples
  imports Buddy_Init Segments Slab_Init
begin

text \<open>
  Small concrete states on which the properties are instantiated: a machine with four free frames
  in one block, a kernel with one running and two ready threads, and memory images.
\<close>

section \<open>Four frames in one block\<close>

definition frame_at :: "uint \<Rightarrow> pgptr \<Rightarrow> pgptr \<Rightarrow> phy_page" where
  "frame_at a n p = \<lparr>ref_num = 0, flags = 0, start_addr = a, va = 0, pg_next = n, pg_prev = p\<rparr>"

definition four_pages :: "pgptr \<Rightarrow> phy_page" where
  "four_pages = (\<lambda>_. frame_at 0 Pnull Pnull)
     (PG 0 := frame_at 0x101000 (PG 1) Pnull, PG 1 := frame_at 0x102000 (PG 2) (PG 0),
      PG 2 := frame_at 0x103000 (PG 3) (PG 1), PG 3 := frame_at 0x104000 Pnull (PG 2))"

definition four_frames :: pmm where
  "four_frames = \<lparr>phy_pages = four_pages,
     buddy_table = (\<lambda>i. \<lparr>page_blk_list = Pnull, blk_num = 0\<rparr>)(2 := \<lparr>page_blk_list = PG 0, blk_num = 1\<rparr>),
     phy_page_num = 4, klog = []\<rparr>"

definition one_block :: blocks where
  "one_block = (\<lambda>_. [])(2 := [PG 0, PG 1, PG 2, PG 3])"

lemma pages_of_one_block: "pages_of one_block = mset [PG 0, PG 1, PG 2, PG 3]"
  using pages_of_upd [of 2 "\<lambda>_. []" "[PG 0, PG 1, PG 2, PG 3]"]
  by (simp add: one_block_def pages_of_def)

lemma pages_of_none [simp]: "pages_of (\<lambda>_. []) = {#}"
  by (simp add: pages_of_def)

lemma one_each_four: "one_each (mset [PG 0, PG 1, PG 2, PG 3])"
  unfolding one_each_distinct by simp

lemma four_frames_rel: "buddy_rel four_frames one_block"
  unfolding buddy_rel_def pages_of_one_block using one_each_four
  by (auto simp: frame_ok_def class_rel_def four_frames_def four_pages_def frame_at_def
      one_block_def lst_def num_def nxt_def prv_def)

lemma four_frames_pool: "buddy_pool four_frames (mset [PG 0, PG 1, PG 2, PG 3])"
  using four_frames_rel pages_of_one_block
  by (auto simp: buddy_pool_def four_frames_def four_pages_def frame_at_def)

text \<open>The same frames, all of them handed out as one block.\<close>

definition all_taken :: pmm where
  "all_taken = upd_num 2 0 (upd_lst 2 Pnull four_frames)"

lemma all_taken_rel: "buddy_rel all_taken (\<lambda>_. [])"
  by (auto simp: buddy_rel_def one_each_def class_rel_def all_taken_def four_frames_def
      lst_def num_def upd_lst_def upd_num_def)

lemma all_taken_owned: "owned all_taken (\<lambda>_. []) 2 [PG 0, PG 1, PG 2, PG 3]"
  using one_each_four
  by (simp add: owned_def frame_ok_def all_taken_def four_frames_def four_pages_def frame_at_def
      nxt_def prv_def upd_lst_def upd_num_def)

definition sample_map :: "nat \<Rightarrow> mmap_entry" where
  "sample_map i = \<lparr>mmap_size = 20, base_addr_low = (if i = 1 then 0x100000 else 0), base_addr_high = 0,
     length_low = 0x10000, length_high = 0, mmap_type = 1\<rparr>"

section \<open>One running and two ready threads\<close>

definition sample_thread :: "proc_state \<Rightarrow> uchar \<Rightarrow> proc_struct" where
  "sample_thread st n = zero_proc\<lparr>p_state := st, ticks := n, prio := n\<rparr>"

definition sample_procs :: "addr \<Rightarrow> proc_struct" where
  "sample_procs = (\<lambda>_. zero_proc)(0x1000 := sample_thread PROC_RUNNING 3,
     0x2000 := sample_thread PROC_READY 2, 0x3000 := sample_thread PROC_READY 4,
     0x4000 := sample_thread PROC_BLOCKED 5)"

text \<open>The console lock is at \<open>0x9000\<close>, the lock of the keyboard buffer at \<open>0xA000\<close>, a semaphore at \<open>0xB000\<close>.\<close>

definition sample_lists :: list_heap where
  "sample_lists =
     (let h = \<lparr>l_next = (\<lambda>_. NULL), l_prev = (\<lambda>_. NULL)\<rparr>;
          h = list_init (waiters (lock_sem 0x9000)) h;
          h = list_init (waiters (lock_sem 0xA000)) h;
          h = list_add_tail (waiters 0xB000) (node 0x4000) (list_init (waiters 0xB000) h);
          h = list_init (node 0x8000) h;
          h = list_add_tail (node 0x8000) (node 0x2000) h
      in list_add_tail (node 0x8000) (node 0x3000) h)"

definition sample_kernel :: kst where
  "sample_kernel = \<lparr>lists = sample_lists, procs = sample_procs, current = 0x1000, idle = 0x1000, now_pid = 4,
     proc_ready_list = 0x8000, proc_block_list = 0x8100, proc_hanging_list = 0x8200,
     stack_words = (\<lambda>_. 0), intr_on = True, tick = 0, sem_value = (\<lambda>a. if a = 0xB000 then 0 else 1),
     lock_holder = (\<lambda>_. NULL), holder_repeat_times = (\<lambda>_. 0), ports = [], interrupt_handlers = (\<lambda>_. None),
     text_video_mem = (\<lambda>_. blank), cursor_X = 0, cursor_Y = 0,
     kbd_buf = \<lparr>producer = NULL, consumer = NULL, iobuf = (\<lambda>_. 0), io_head = 0, io_tail = 0\<rparr>,
     ctrl_status = 0, shift_status = 0, alt_status = 0, capslock_status = 0, ext_status = 0\<rparr>"

lemmas sample_defs = sample_kernel_def sample_procs_def sample_thread_def zero_proc_def sample_lists_def
  list_init_def list_add_tail_def waiters_def lock_sem_def node_def node_offset_def

lemma sample_ready: "ready sample_kernel [0x2000, 0x3000]"
  by (simp add: ready_def clist_def sample_defs)

lemma sample_terminated: "terminated (proc_name (procs sample_kernel p))"
  by (auto simp: terminated_def list_ex_iff sample_defs intro: exI [of _ 0])

lemma sample_unlocked: "unlocked 0x9000 sample_kernel" "unlocked 0xA000 sample_kernel"
  by (simp_all add: unlocked_def sample_defs)

lemma sample_waiting: "clist (lists sample_kernel) (waiters 0xB000) [node 0x4000]"
  by (simp add: clist_def sample_defs)

lemma sample_reads [simp]:
  "current sample_kernel = 0x1000" "proc_ready_list sample_kernel = 0x8000" "on_screen sample_kernel"
  "sem_value sample_kernel 0xB000 = 0" "lock_holder sample_kernel l = NULL"
  "procs sample_kernel = sample_procs"
  by (simp_all add: sample_kernel_def on_screen_def)

lemma sample_rr: "kp.rr 0x9000 sample_kernel [0x2000, 0x3000]"
  using sample_ready sample_unlocked sample_terminated
  by (simp add: kp.rr_def queueable_def) (simp add: sample_defs)

lemma sample_idle_queue: "idle_queue sample_kernel []"
  by (simp add: idle_queue_def ioq_holds_def sample_kernel_def)

section \<open>Memory images\<close>

fun image :: "addr \<Rightarrow> uchar list \<Rightarrow> mem \<Rightarrow> mem" where
  "image p [] m = m"
| "image p (x # xs) m = image (p + 1) xs (m(p := x))"

lemma region_apart:
  assumes "unat p + n \<le> unat q" "unat q + k \<le> 2 ^ 32"
  shows "region p n \<inter> region q k = {}" "region q k \<inter> region p n = {}"
proof -
  have "unat (p + of_nat i) = unat p + i" if "i < n" for i
    using that assms unat_less32 [of q] by (simp add: unat_of_nat unat_plus_if' take_bit_nat_eq_self)
  moreover have "unat (q + of_nat j) = unat q + j" if "j < k" for j
    using that assms by (simp add: unat_of_nat unat_plus_if')
  ultimately have "p + of_nat i \<noteq> q + of_nat j" if "i < n" "j < k" for i j
    using that assms by (intro notI) (drule arg_cong [of _ _ unat], simp)
  then show "region p n \<inter> region q k = {}" by (auto simp: region_def)
  then show "region q k \<inter> region p n = {}" by blast
qed

text \<open>The format string \<open>"n=%d, %x%c"\<close> at \<open>0x1000\<close>, and two strings at \<open>0x2000\<close> and \<open>0x3000\<close>.\<close>

definition sample_mem :: mem where
  "sample_mem = image 0x1000 [0x6E, 0x3D, 0x25, 0x64, 0x2C, 0x25, 0x78] (image 0x2000 [0x41, 0x42] (image 0x3000 [0x41] (\<lambda>_. 0)))"

lemma sample_strings:
  "cstr sample_mem 0x1000 [0x6E, 0x3D, 0x25, 0x64, 0x2C, 0x25, 0x78]" "cstr sample_mem 0x2000 [0x41, 0x42]"
  "cstr sample_mem 0x3000 [0x41]"
  by (simp_all add: sample_mem_def)

end
