(* ===== verification/Slab_Free.thy ===== *)
theory Slab_Free
  imports Slab_Init
begin

text \<open>
  Where the slab allocator departs from what it means to do: the frames a slab of several pages
  gets, the slab that \<open>kfree\<close> loses, and the frames it does not give back.
\<close>

section \<open>Slabs of several pages\<close>

text \<open>The frames are numbered in the order of their addresses, from \<open>b\<close> on.\<close>

definition frames_in_row :: "'a pmm_scheme \<Rightarrow> uint \<Rightarrow> nat \<Rightarrow> bool" where
  "frames_in_row s b N \<longleftrightarrow> (\<forall>j<N. start_addr (phy_pages s (PG j)) = b + 4096 * of_nat j \<and>
     FindPageIndex (b + 4096 * of_nat j) s = int j)"

text \<open>
  Step \<open>i\<close> maps the frame at \<open>pg_list->start_addr + i * PGSIZE\<close>, and \<open>map\<close> moves \<open>pg_list\<close> to that
  frame: the steps add up.
\<close>

definition frame_of_step :: "nat \<Rightarrow> nat \<Rightarrow> nat" where
  "frame_of_step k i = k + i * (i + 1) div 2"

lemma frame_of_step_Suc: "frame_of_step k (Suc i) = frame_of_step k i + Suc i"
  by (simp add: frame_of_step_def)

lemma frame_of_step_mono: "i \<le> j \<Longrightarrow> frame_of_step k i \<le> frame_of_step k j"
  unfolding frame_of_step_def by (intro add_left_mono div_le_mono mult_le_mono) simp_all

lemma same_page_step:
  assumes "4096 dvd unat a" "unat a + 4096 * Suc m \<le> 2 ^ 32" "j \<le> m" "0 < j"
  shows "\<not> same_page (a + 4096 * of_nat j) a"
proof -
  obtain q where q: "unat a = 4096 * q" using assms(1) by (elim dvdE)
  have "a + 4096 * of_nat j = of_nat (4096 * (q + j))" proof -
    have "a = of_nat (unat a)" by simp
    then have "a = of_nat (4096 * q)" by (simp only: q)
    then show ?thesis by (simp add: algebra_simps)
  qed
  also have "unat \<dots> = 4096 * (q + j)" using assms(2,3) q by (simp only: unat_of_nat) simp
  finally have u: "unat (a + 4096 * of_nat j) = 4096 * (q + j)" .
  have "unat (drop_bit 12 (a + 4096 * of_nat j)) = q + j" "unat (drop_bit 12 a) = q"
    unfolding unat_drop_bit_eq u q by (simp_all add: drop_bit_eq_div)
  then show ?thesis using assms(4) by (metis add_left_cancel add.right_neutral less_irrefl same_page_def)
qed

lemma apply_loop_frames:
  fixes s :: kheap
  assumes "tables_ok s (pgd_kern s)" "frames_in_row s b N" "start_addr (phy_pages s (PG p)) = b + 4096 * of_nat p"
    and "frame_of_step k (i + m - 1) < N" "p + i = frame_of_step k i"
    and "4096 dvd unat (heap_top s)" "unat (heap_top s) + 4096 * m \<le> 2 ^ 32"
    and "\<And>j. j < m \<Longrightarrow> table s (pgd_kern s) (heap_top s + 4096 * of_nat j) \<noteq> 0"
  shows "\<exists>t pg. apply_loop swap m (of_nat i) (PG p) s = kret pg t \<and>
    heap_top t = heap_top s + 4096 * of_nat m \<and> (0 < m \<longrightarrow> pg = PG (frame_of_step k (i + m - 1))) \<and>
    (\<forall>j<m. pte_of t (pgd_kern s) (heap_top s + 4096 * of_nat j) =
       ((b + 4096 * of_nat (frame_of_step k (i + j))) AND PAGE_MASK) OR PTE_P OR PTE_W) \<and>
    (\<forall>w. (\<forall>j<m. \<not> same_page w (heap_top s + 4096 * of_nat j)) \<longrightarrow> pte_of t (pgd_kern s) w = pte_of s (pgd_kern s) w)"
  using assms
proof (induction m arbitrary: s i p)
  case (Suc m)
  let ?a = "heap_top s" and ?f = "frame_of_step k i" and ?d = "pgd_kern s"
  let ?e = "((b + 4096 * of_nat ?f) AND PAGE_MASK) OR PTE_P OR PTE_W"
  have f: "?f < N" using Suc.prems(4) frame_of_step_mono [of i "i + Suc m - 1" k] by simp
  have addr: "start_addr (phy_pages s (PG p)) + of_nat i * PGSIZE = b + 4096 * of_nat ?f"
    using Suc.prems(3) by (simp add: PGSIZE_def algebra_simps flip: Suc.prems(5))
  have find: "FindPageIndex (b + 4096 * of_nat ?f) s = int ?f"
    and start: "start_addr (phy_pages s (PG ?f)) = b + 4096 * of_nat ?f"
    using Suc.prems(2) f by (simp_all add: frames_in_row_def)
  have tab: "table s ?d ?a \<noteq> 0" using Suc.prems(8) [of 0] by simp
  define u where "u = enter_page (pte_slot s ?d ?a) ?e ?a ?f s"
  have mp: "map_page swap ?d (PTE_P OR PTE_W) (b + 4096 * of_nat ?f) ?a s = kret (PG ?f) u"
    unfolding u_def by (rule map_page_present [OF Suc.prems(1) tab find])
  have mapd: "mapped s ?d ?e ?a ?f u" unfolding u_def by (rule enter_page_mapped [OF Suc.prems(1) tab])
  have tu: "table u ?d w = table s ?d w" for w unfolding u_def by (rule enter_page_tables [OF Suc.prems(1) tab])
  have u: "pgd_kern u = ?d" "heap_top u = ?a" using more_heap [of u s] by (simp_all add: u_def)
  have st: "start_addr (phy_pages u q) = start_addr (phy_pages s q)" for q using mapd by (simp add: mapped_def)
  define v where "v = u\<lparr>heap_top := ?a + PGSIZE\<rparr>"
  have vw: "words v = words u" "phy_pages v = phy_pages u" "pgd_kern v = ?d" "heap_top v = ?a + 4096"
    by (simp_all add: v_def u PGSIZE_def)
  have tv: "table v = table u" "pte_of v = pte_of u" "tables_ok v = tables_ok u" using table_cong [OF vw(1)] by auto
  have row: "frames_in_row v b N"
    using Suc.prems(2) FindPageIndex_cong [of v s] st vw(2) by (simp add: frames_in_row_def)
  have step: "apply_loop swap (Suc m) (of_nat i) (PG p) s = apply_loop swap m (of_nat (Suc i)) (PG ?f) v"
  proof -
    have "of_nat (Suc i) = (of_nat i + 1 :: uint)" by simp
    then show ?thesis using mp by (simp add: addr v_def u del: of_nat_Suc)
  qed
  have next_page: "?a + 4096 + 4096 * of_nat j = ?a + 4096 * of_nat (Suc j)" for j by (simp add: algebra_simps)
  have top: "unat (heap_top v) = unat ?a + 4096 \<or> m = 0"
    using Suc.prems(7) by (cases m) (auto simp: vw unat_plus_if')
  have "\<exists>t pg. apply_loop swap m (of_nat (Suc i)) (PG ?f) v = kret pg t \<and>
    heap_top t = heap_top v + 4096 * of_nat m \<and> (0 < m \<longrightarrow> pg = PG (frame_of_step k (Suc i + m - 1))) \<and>
    (\<forall>j<m. pte_of t (pgd_kern v) (heap_top v + 4096 * of_nat j) =
       ((b + 4096 * of_nat (frame_of_step k (Suc i + j))) AND PAGE_MASK) OR PTE_P OR PTE_W) \<and>
    (\<forall>w. (\<forall>j<m. \<not> same_page w (heap_top v + 4096 * of_nat j)) \<longrightarrow> pte_of t (pgd_kern v) w = pte_of v (pgd_kern v) w)"
  proof (cases "m = 0")
    case False
    show ?thesis
    proof (rule Suc.IH [of v ?f "Suc i"])
      show "tables_ok v (pgd_kern v)" using mapd by (simp add: vw tv mapped_def)
      show "start_addr (phy_pages v (PG ?f)) = b + 4096 * of_nat ?f" using start st by (simp add: vw)
      show "frame_of_step k (Suc i + m - 1) < N" using Suc.prems(4) by simp
      show "?f + Suc i = frame_of_step k (Suc i)" by (simp add: frame_of_step_Suc)
      show "4096 dvd unat (heap_top v)" "unat (heap_top v) + 4096 * m \<le> 2 ^ 32" using top False Suc.prems(6,7) by auto
      show "table v (pgd_kern v) (heap_top v + 4096 * of_nat j) \<noteq> 0" if "j < m" for j
        using Suc.prems(8) [of "Suc j"] that by (simp only: vw tv tu next_page) simp
    qed (rule row)
  qed simp
  then obtain t pg where t: "apply_loop swap m (of_nat (Suc i)) (PG ?f) v = kret pg t"
      "heap_top t = heap_top v + 4096 * of_nat m" "0 < m \<Longrightarrow> pg = PG (frame_of_step k (Suc i + m - 1))"
      "\<And>j. j < m \<Longrightarrow> pte_of t ?d (heap_top v + 4096 * of_nat j) =
         ((b + 4096 * of_nat (frame_of_step k (Suc i + j))) AND PAGE_MASK) OR PTE_P OR PTE_W"
      "\<And>w. (\<And>j. j < m \<Longrightarrow> \<not> same_page w (heap_top v + 4096 * of_nat j)) \<Longrightarrow> pte_of t ?d w = pte_of v ?d w"
    unfolding vw by blast
  have top_pte: "pte_of v ?d w = (if same_page w ?a then ?e else pte_of s ?d w)" for w
    using mapd by (simp add: tv mapped_def)
  have away: "\<not> same_page ?a (heap_top v + 4096 * of_nat j)" if "j < m" for j
    using same_page_step [of ?a m "Suc j"] Suc.prems(6,7) that by (simp only: vw next_page) (auto simp: same_page_def)
  have "pte_of t ?d (?a + 4096 * of_nat j) = ((b + 4096 * of_nat (frame_of_step k (i + j))) AND PAGE_MASK) OR PTE_P OR PTE_W"
    if "j < Suc m" for j
  proof (cases j)
    case 0
    then show ?thesis using t(5) [OF away] by (simp add: top_pte same_page_def)
  next
    case (Suc j')
    then show ?thesis using t(4) [of j'] that next_page [of j'] by (simp add: vw del: of_nat_Suc)
  qed
  moreover have "pte_of t ?d w = pte_of s ?d w" if "\<And>j. j < Suc m \<Longrightarrow> \<not> same_page w (?a + 4096 * of_nat j)" for w
  proof -
    have "pte_of t ?d w = pte_of v ?d w" using that [of "Suc _"] by (intro t(5)) (simp only: vw next_page, simp)
    then show ?thesis using that [of 0] by (simp add: top_pte)
  qed
  moreover have "pg = PG (frame_of_step k (i + Suc m - 1))"
    using t(1,3) by (cases "m = 0") simp_all
  moreover have "heap_top t = ?a + 4096 * of_nat (Suc m)" using t(2) by (simp add: vw algebra_simps)
  ultimately show ?case using t(1) step by auto
qed simp

section \<open>Freeing a block\<close>

text \<open>A cache none of whose slabs holds the address.\<close>

definition foreign :: "kheap \<Rightarrow> addr \<Rightarrow> addr \<Rightarrow> bool" where
  "foreign s p c \<longleftrightarrow> full_slabs (caches s c) = NULL \<and>
     (partial_slabs (caches s c) = NULL \<or>
      sl_next (slabs s (partial_slabs (caches s c))) = NULL \<and>
      (\<exists>n. slab_wf (partial_slabs (caches s c)) (csize (caches s c)) n (slabs s (partial_slabs (caches s c))) \<and>
         unat (csize (caches s c)) * n \<le> unat (p - obj (slabs s (partial_slabs (caches s c))))))"

lemma foreign_touch [simp]:
  "foreign (upd_cache d (\<lambda>c. c\<lparr>ref_cnt := ref_cnt c - 1\<rparr>) s) p c = foreign s p c"
  by (simp add: foreign_def)

lemma free_walk_null [simp]: "free_walk p z NULL s = kret NULL s"
  by (simp add: free_walk.simps [of p z 0])

lemma free_walk_foreign:
  assumes "a \<noteq> NULL" "sl_next (slabs s a) = NULL" "slab_wf a z n (slabs s a)" "unat z * n \<le> unat (p - obj (slabs s a))"
  shows "free_walk p z a s = kret NULL s"
  using assms(1,2) FreeObj_foreign [OF assms(3,4)] by (subst free_walk.simps) simp

lemma free_foreign:
  assumes "foreign s p c"
  shows "free_obj_kmem_cache p c s = kret 0 (upd_cache c (\<lambda>c. c\<lparr>ref_cnt := ref_cnt c - 1\<rparr>) s)"
proof -
  let ?s = "upd_cache c (\<lambda>c. c\<lparr>ref_cnt := ref_cnt c - 1\<rparr>) s"
  have "free_walk p (csize (caches s c)) (partial_slabs (caches s c)) ?s = kret NULL ?s"
  proof (cases "partial_slabs (caches s c) = NULL")
    case False
    with assms obtain n where n: "sl_next (slabs s (partial_slabs (caches s c))) = NULL"
        "slab_wf (partial_slabs (caches s c)) (csize (caches s c)) n (slabs s (partial_slabs (caches s c)))"
        "unat (csize (caches s c)) * n \<le> unat (p - obj (slabs s (partial_slabs (caches s c))))"
      by (auto simp: foreign_def)
    show ?thesis by (rule free_walk_foreign [OF False, of ?s _ n]) (simp_all add: n)
  qed simp
  then show ?thesis using assms by (simp add: free_obj_kmem_cache_def foreign_def Let_def)
qed

definition touch :: "addr list \<Rightarrow> kheap \<Rightarrow> kheap" where
  "touch cs s = fold (\<lambda>c. upd_cache c (\<lambda>c. c\<lparr>ref_cnt := ref_cnt c - 1\<rparr>)) cs s"

lemma touch_simps [simp]: "touch [] s = s"
  "touch (c # cs) s = touch cs (upd_cache c (\<lambda>c. c\<lparr>ref_cnt := ref_cnt c - 1\<rparr>) s)"
  by (simp_all add: touch_def)

lemma touch_same:
  "slabs (touch cs s) = slabs s" "free_ids (touch cs s) = free_ids s" "heap_top (touch cs s) = heap_top s"
  "kmem_caches (touch cs s) = kmem_caches s" "foreign (touch cs s) p c = foreign s p c"
  "ckey (caches (touch cs s) c) = ckey (caches s c)" "c_next (caches (touch cs s) c) = c_next (caches s c)"
  by (induction cs arbitrary: s) (auto simp: ckey_def)

lemma kfree_skip:
  assumes "chain (caches s) q (cs @ ds)" "\<And>c. c \<in> set cs \<Longrightarrow> foreign s p c"
  shows "kfree_loop p q s = kfree_loop p (head_of ds) (touch cs s)"
  using assms
proof (induction cs arbitrary: q s)
  case Nil
  then show ?case using chain_head [of "caches s" q ds] by simp
next
  case (Cons c cs)
  let ?s = "upd_cache c (\<lambda>c. c\<lparr>ref_cnt := ref_cnt c - 1\<rparr>) s"
  have ch: "chain (caches ?s) (c_next (caches s c)) (cs @ ds)"
    using Cons.prems(1) chain_cong [of "cs @ ds" "caches ?s" "caches s"] by simp
  have "kfree_loop p q s = kfree_loop p (c_next (caches s c)) ?s"
    using Cons.prems free_foreign [of s p c] by (subst kfree_loop.simps) simp
  also have "\<dots> = kfree_loop p (head_of ds) (touch cs ?s)"
    using Cons.IH [OF ch] Cons.prems(2) by simp
  finally show ?case by simp
qed

lemma kfree_nowhere:
  assumes "chain (caches s) (kmem_caches s) cs" "\<And>c. c \<in> set cs \<Longrightarrow> foreign s p c"
  shows "kfree p s = kstop (Panic (line ''error,obj not in slab management''))"
  using kfree_skip [of s "kmem_caches s" cs "[]" p] assms
  by (simp add: kfree_def head_of_def kfree_loop.simps [of p 0])

text \<open>A slab that stays in use leaves the list of its cache all the same.\<close>

definition after_free :: "addr \<Rightarrow> addr \<Rightarrow> kheap \<Rightarrow> kheap \<Rightarrow> bool" where
  "after_free c a s t \<longleftrightarrow> (\<forall>d. d \<noteq> c \<longrightarrow> caches t d = caches s d) \<and>
     caches t c = (caches s c)\<lparr>ref_cnt := ref_cnt (caches s c) - 1, partial_slabs := NULL\<rparr> \<and>
     (\<forall>b. b \<noteq> a \<longrightarrow> slabs t b = slabs s b) \<and> (\<forall>b. \<not> in_page a b \<longrightarrow> free_ids t b = free_ids s b) \<and>
     heap_top t = heap_top s \<and> kmem_caches t = kmem_caches s"

lemma free_obj_drops:
  assumes at: "slab_at s a z n H" and c: "partial_slabs (caches s c) = a" "csize (caches s c) = z" "full_slabs (caches s c) = NULL"
    and p: "p \<in> set H" "2 \<le> length H"
  shows "\<exists>t. free_obj_kmem_cache p c s = kret 1 t \<and> after_free c a s t"
proof -
  let ?s = "upd_cache c (\<lambda>c. c\<lparr>ref_cnt := ref_cnt c - 1\<rparr>) s"
  have pool: "slab_pool a z n ?s H" and a: "a \<noteq> NULL" "slab_fits a z n 1" "free_list (slabs s a) = a + slab_t_size"
      "sl_next (slabs s a) = NULL" "sl_prev (slabs s a) = NULL" using at by (auto simp: slab_at_def)
  obtain t where t: "FreeObj p a z ?s = kret 1 t"
      "t = (upd_slab a (\<lambda>l. l\<lparr>active := active l - 1, sl_ref_num := sl_ref_num l - 1\<rparr>) ?s)\<lparr>free_ids := free_ids t\<rparr>"
      "\<And>b. b \<noteq> free_list (slabs s a) + 2 * of_nat (length H - 1) \<Longrightarrow> free_ids t b = free_ids s b"
    using FreeObj_returns [OF pool p(1)] by auto
  have ft: "slabs t = slabs (upd_slab a (\<lambda>l. l\<lparr>active := active l - 1, sl_ref_num := sl_ref_num l - 1\<rparr>) ?s)"
      "caches t = caches ?s" "heap_top t = heap_top s" "kmem_caches t = kmem_caches s"
    by (subst t(2), simp)+
  have "free_walk p z a ?s = kret a t" using a(1) t(1) by (subst free_walk.simps) simp
  moreover have "active (slabs t a) \<noteq> 0" using pool p(2) by (simp add: ft slab_pool_def)
  moreover have "sl_prev (slabs t a) = NULL" "sl_next (slabs t a) = NULL" using a by (simp_all add: ft)
  ultimately have run: "free_obj_kmem_cache p c s = kret 1 (upd_cache c (\<lambda>c. c\<lparr>partial_slabs := NULL\<rparr>) t)"
    using c a(1) by (simp add: free_obj_kmem_cache_def move_slab_off_partial_def Let_def)
  have "length H \<le> n" using pool by (simp add: slab_pool_def)
  then have "in_page a (free_list (slabs s a) + 2 * of_nat (length H - 1))"
    using slot_in_page [OF a(2), of "length H - 1"] p(2) by (simp add: a(3))
  then have "free_ids t b = free_ids s b" if "\<not> in_page a b" for b using t(3) that by metis
  then have "after_free c a s (upd_cache c (\<lambda>c. c\<lparr>partial_slabs := NULL\<rparr>) t)"
    by (auto simp: after_free_def ft)
  with run show ?thesis by blast
qed

lemma foreign_page:
  assumes b: "slab_at s b z n H" and p: "in_page a p" "4096 dvd unat a" "a \<noteq> b"
  shows "slab_wf b z n (slabs s b) \<and> unat z * n \<le> unat (p - obj (slabs s b))"
proof -
  have wf: "slab_wf b z n (slabs s b)" and fit: "slab_fits b z n 1" and al: "4096 dvd unat b"
    and o: "obj (slabs s b) = b + slab_t_size + 2 * of_nat n"
    using b by (auto simp: slab_at_def slab_pool_def)
  have top: "unat (obj (slabs s b)) = unat b + 40 + 2 * n" "unat b + 40 + 2 * n + unat z * n \<le> unat b + 4096"
    using new_slab_nat(2) [OF fit] fit by (simp_all add: o slab_fits_def algebra_simps)
  have fin: "unat b + 4096 \<le> 2 ^ 32" using fit by (simp add: slab_fits_def)
  have "unat a \<noteq> unat b" using p(3) by (simp add: word_unat_eq_iff)
  then consider "unat p < unat b" | "unat b + 4096 \<le> unat p"
    using pages_apart [OF p(2) al] p(1) by (auto simp: in_page_def)
  then have "unat z * n \<le> unat (p - obj (slabs s b))"
  proof cases
    case 1
    then have "unat (p - obj (slabs s b)) = 2 ^ 32 + unat p - unat (obj (slabs s b))"
      using top by (simp add: unat_sub_if')
    then show ?thesis using top fin 1 by linarith
  next
    case 2
    then have "unat (p - obj (slabs s b)) = unat p - unat (obj (slabs s b))" using top by (simp add: unat_sub_if')
    then show ?thesis using top 2 by linarith
  qed
  with wf show ?thesis by blast
qed

lemma ready_cases:
  assumes ready: "kmalloc_ready s M cs P" and d: "d \<in> set (kmem_caches s # cs)"
  obtains z n where "(d, z, n) \<in> set (small_classes cs @ [(kmem_caches s, 44, 88)])" | "d \<in> set (drop 8 cs)"
proof -
  have names: "map (\<lambda>c. cname (caches s c)) cs = kmem_cache_info" using ready by (simp add: kmalloc_ready_def)
  have len: "length cs = 14" using arg_cong [OF names, of length] by simp
  have "set cs = set (take 8 cs) \<union> set (drop 8 cs)" by (metis append_take_drop_id set_append)
  then consider "d = kmem_caches s" | "d \<in> set (take 8 cs)" | "d \<in> set (drop 8 cs)" using d by auto
  then show ?thesis
  proof cases
    case 2
    then obtain i where i: "i < 8" "d = cs ! i" using len by (auto simp: in_set_conv_nth)
    then have "(d, of_nat (class_bytes ! i), cache_objs (class_bytes ! i)) \<in> set (small_classes cs)"
      by (auto simp: small_classes_def simp del: upt_rec_numeral)
    then show ?thesis using that(1) by auto
  qed (use that in auto)
qed

lemma ready_foreign:
  assumes ready: "kmalloc_ready s M cs P" and d: "d \<in> set (kmem_caches s # cs)"
    and p: "in_page a p" "4096 dvd unat a" "partial_slabs (caches s d) \<noteq> a"
  shows "foreign s p d"
  using ready d
proof (cases rule: ready_cases)
  case (1 z n)
  have inv: "heap_inv s M (small_classes cs @ [(kmem_caches s, 44, 88)]) P" using ready by (simp add: kmalloc_ready_def)
  have cst: "cache_state s d z n (P d)" by (rule heap_invD(1) [OF inv 1])
  show ?thesis
  proof (cases "partial_slabs (caches s d) = NULL")
    case False
    then have b: "slab_at s (partial_slabs (caches s d)) z n (P d)" using cst by (simp add: cache_state_def)
    have "csize (caches s d) = z" "full_slabs (caches s d) = NULL"
      using cst by (simp_all add: cache_state_def empty_cache_def)
    moreover have "sl_next (slabs s (partial_slabs (caches s d))) = NULL" using b by (simp add: slab_at_def)
    ultimately show ?thesis using foreign_page [OF b p(1,2)] p(3) by (auto simp: foreign_def)
  qed (use cst in \<open>simp add: cache_state_def empty_cache_def foreign_def\<close>)
next
  case 2
  then show ?thesis using ready by (simp add: kmalloc_ready_def large_idle_def foreign_def)
qed

lemma after_free_foreign:
  assumes aft: "after_free c a s t" and fc: "full_slabs (caches s c) = NULL"
    and oth: "d \<noteq> c \<Longrightarrow> foreign s q d \<and> partial_slabs (caches s d) \<noteq> a"
  shows "foreign t q d"
proof (cases "d = c")
  case True
  then show ?thesis using aft fc by (simp add: after_free_def foreign_def)
next
  case False
  moreover have "caches t d = caches s d" "slabs t (partial_slabs (caches s d)) = slabs s (partial_slabs (caches s d))"
    using aft False oth by (simp_all add: after_free_def)
  ultimately show ?thesis using oth by (simp add: foreign_def)
qed

lemma obj_in_page: "slab_at s a z n H \<Longrightarrow> p \<in> set H \<Longrightarrow> in_page a p"
proof -
  assume at: "slab_at s a z n H" and p: "p \<in> set H"
  have "0 < unat z" using at by (simp add: slab_at_def slab_fits_def)
  with obj_in_slab [OF at p] show "in_page a p" unfolding in_page_def by (metis add_lessD1 le_add1 le_trans less_add_same_cancel1 less_le_trans)
qed

lemma kfree_loses_slab:
  assumes ready: "kmalloc_ready s M cs P" and i: "i < 8"
    and p: "p \<in> set (P (cs ! i))" "q \<in> set (P (cs ! i))" "p \<noteq> q"
  shows "\<exists>t. kfree p s = kret () t \<and> kfree q t = kstop (Panic (line ''error,obj not in slab management''))"
proof -
  let ?c = "cs ! i" and ?z = "of_nat (class_bytes ! i) :: uint" and ?n = "cache_objs (class_bytes ! i)"
  let ?a = "partial_slabs (caches s ?c)"
  have inv: "heap_inv s M (small_classes cs @ [(kmem_caches s, 44, 88)]) P" using ready by (simp add: kmalloc_ready_def)
  have c: "(?c, ?z, ?n) \<in> set (small_classes cs @ [(kmem_caches s, 44, 88)])"
    using i by (auto simp: small_classes_def simp del: upt_rec_numeral)
  have names: "map (\<lambda>c. cname (caches s c)) cs = kmem_cache_info" using ready by (simp add: kmalloc_ready_def)
  have len: "length cs = 14" using arg_cong [OF names, of length] by simp
  have cst: "cache_state s ?c ?z ?n (P ?c)" by (rule heap_invD(1) [OF inv c])
  then have at: "slab_at s ?a ?z ?n (P ?c)" and cf: "csize (caches s ?c) = ?z" "full_slabs (caches s ?c) = NULL"
    using p(1) by (auto simp: cache_state_def empty_cache_def split: if_splits)
  have a: "?a \<noteq> NULL" "4096 dvd unat ?a" using at by (auto simp: slab_at_def)
  have page: "in_page ?a x" if "x \<in> set (P ?c)" for x by (rule obj_in_page [OF at that])
  have two: "2 \<le> length (P ?c)" using p by (cases "P ?c" rule: remdups_adj.cases) auto
  have uniq: "partial_slabs (caches s d) \<noteq> ?a" if d: "d \<in> set (kmem_caches s # cs)" "d \<noteq> ?c" for d
    using ready d(1)
  proof (cases rule: ready_cases)
    case (1 z n)
    then have "d \<in> fst ` set (small_classes cs @ [(kmem_caches s, 44, 88)])" by force
    then show ?thesis using heap_invD(2) [OF inv c _ _ a(1), of d] d(2) by metis
  next
    case 2
    then show ?thesis using ready a(1) by (simp add: kmalloc_ready_def large_idle_def)
  qed
  have idx: "i < length cs" using i len by simp
  let ?xs = "take i cs" and ?ys = "drop (Suc i) cs" and ?r = "kmem_caches s"
  have cs: "cs = ?xs @ ?c # ?ys" by (rule id_take_nth_drop [OF idx])
  have ch0: "chain (caches s) ?r (?r # cs)" using ready by (simp add: kmalloc_ready_def)
  then have ch: "chain (caches s) ?r ((?r # ?xs) @ ?c # ?ys)" using cs by (metis append_Cons)
  have "distinct ((?r # ?xs) @ ?c # ?ys)" by (rule chain_distinct [OF ch])
  then have new: "?c \<notin> set (?r # ?xs)" by auto
  have mem: "?c \<in> set (?r # cs)" using idx by simp
  have sub: "d \<in> set (?r # cs)" if "d \<in> set (?r # ?xs)" for d using that by (auto dest: in_set_takeD)
  have fo: "foreign s x d" if "x \<in> set (P ?c)" "d \<in> set (?r # cs)" "d \<noteq> ?c" for x d
    by (rule ready_foreign [OF ready that(2) page [OF that(1)] a(2) uniq [OF that(2,3)]])
  define s1 where "s1 = touch (?r # ?xs) s"
  have skip: "kfree_loop p ?r s = kfree_loop p ?c s1"
  proof -
    have "foreign s p d" if d: "d \<in> set (?r # ?xs)" for d
    proof -
      have "d \<noteq> ?c" using d new by metis
      then show ?thesis by (rule fo [OF p(1) sub [OF d]])
    qed
    from kfree_skip [OF ch this] show ?thesis by (simp add: head_of_def s1_def del: touch_simps)
  qed
  have at1: "slab_at s1 ?a ?z ?n (P ?c)"
    by (rule slab_at_frame [OF at]) (simp_all add: s1_def touch_same del: touch_simps)
  have key1: "ckey (caches s1 d) = ckey (caches s d)" "c_next (caches s1 d) = c_next (caches s d)" for d
    by (simp_all add: s1_def touch_same del: touch_simps)
  obtain t where t: "free_obj_kmem_cache p ?c s1 = kret 1 t" "after_free ?c ?a s1 t"
    using free_obj_drops [OF at1, of ?c p] key1(1) [of ?c] cf p(1) two by (auto simp: ckey_def)
  have "?c \<noteq> NULL" using chain_suffix [OF ch] by (simp add: head_of_def)
  then have "kfree p s = kret () t" using skip t(1) by (simp add: kfree_def kfree_loop.simps [of p ?c])
  moreover have "kfree q t = kstop (Panic (line ''error,obj not in slab management''))"
  proof (rule kfree_nowhere)
    have "c_next (caches t d) = c_next (caches s d)" for d
      using t(2) key1(2) by (cases "d = ?c") (auto simp: after_free_def)
    then show "chain (caches t) (kmem_caches t) (?r # cs)"
      using ch0 t(2) chain_cong [of "?r # cs" "caches t" "caches s" ?r]
      by (simp add: after_free_def s1_def touch_same del: touch_simps chain.simps)
    show "foreign t q d" if "d \<in> set (?r # cs)" for d
    proof (rule after_free_foreign [OF t(2)])
      show "full_slabs (caches s1 ?c) = NULL" using key1(1) [of ?c] cf by (simp add: ckey_def)
      show "foreign s1 q d \<and> partial_slabs (caches s1 d) \<noteq> ?a" if "d \<noteq> ?c"
        using fo [OF p(2) \<open>d \<in> set (?r # cs)\<close> that] uniq [OF \<open>d \<in> set (?r # cs)\<close> that] key1(1) [of d]
        by (simp add: s1_def touch_same ckey_def del: touch_simps)
    qed
  qed
  ultimately show ?thesis by blast
qed

section \<open>The last slab of the heap\<close>

text \<open>
  When the slab at the end of the heap is empty its page is unmapped and the heap shrinks.
  \<open>free_buddy\<close> is called while the page is still mapped, refuses it, and the frame never returns to
  the allocator.
\<close>

lemma check_free_buddy_keeps_frame:
  fixes s :: kheap
  assumes slab: "pg_list (slabs s a) = PG k" "slab_size (slabs s a) = 1" "free_list (slabs s a) = a + slab_t_size"
    and top: "heap_top s = a + PGSIZE" "unat a + 4096 < 2 ^ 32"
    and used: "ref_num (phy_pages s (PG k)) = 1"
    and ok: "tables_ok s (pgd_kern s)" "table s (pgd_kern s) a \<noteq> 0"
      "FindPageIndex (pte_of s (pgd_kern s) a AND PAGE_MASK) s = int k"
    and pool: "buddy_pool s M" "PG k \<notin># M"
  shows "\<exists>t. check_free_buddy a s = kret 1 t \<and> heap_top t = a \<and> buddy_pool t M \<and> ref_num (phy_pages t (PG k)) = 0 \<and>
    (\<forall>w. pte_of t (pgd_kern s) w = (if same_page w a then 0 else pte_of s (pgd_kern s) w))"
proof -
  let ?u = "s\<lparr>klog := klog s @ [line ''free buddy failed'']\<rparr>"
  have "check_free_pages s (PG k) = Some 0" using used by (subst check_free_pages.simps) simp
  then have fb: "free_buddy (PG k) s = kret () ?u" by (simp add: free_buddy_def)
  have w: "words ?u = words s" by simp
  have uok: "tables_ok ?u (pgd_kern ?u)" "table ?u (pgd_kern ?u) a \<noteq> 0"
    "FindPageIndex (pte_of ?u (pgd_kern ?u) a AND PAGE_MASK) ?u = int k"
    using ok table_cong [OF w] FindPageIndex_cong [of ?u s] by simp_all
  obtain t where t: "unmap (pgd_kern ?u) a ?u = kret () t" "ref_num (phy_pages t (PG k)) = 0"
      "\<And>w. pte_of t (pgd_kern s) w = (if same_page w a then 0 else pte_of ?u (pgd_kern s) w)"
      "\<And>p. p \<noteq> PG k \<Longrightarrow> phy_pages t p = phy_pages s p" "nxt t = nxt s" "prv t = prv s"
      "start_addr (phy_pages t (PG k)) = start_addr (phy_pages s (PG k))"
      "buddy_table t = buddy_table s" "phy_page_num t = phy_page_num s" "vmm.more t = vmm.more s"
    using unmap_clears [OF uok] used by (auto simp: nxt_def prv_def fun_eq_iff)
  have ht: "heap_top t = heap_top s" using more_heap [OF t(10)] by simp
  have "unat (a + PGSIZE) = unat a + 4096" "unat (a + slab_t_size + PGSIZE - slab_t_size) = unat a + 4096"
    using top(2) by (simp_all add: PGSIZE_def slab_t_size_def unat_plus_if')
  then have "check_free_buddy a s = kret 1 (t\<lparr>heap_top := a\<rparr>)"
    using slab top fb t(1) ht by (simp add: check_free_buddy_def Let_def)
  moreover have "buddy_pool t M"
  proof (rule buddy_pool_cong [OF pool(1)])
    show "nxt t p = nxt s p \<and> prv t p = prv s p \<and> start_addr (phy_pages t p) = start_addr (phy_pages s p)" for p
      using t(4-7) by (cases "p = PG k") auto
    show "ref_num (phy_pages t p) = ref_num (phy_pages s p)" if "p \<in># M" for p
      using t(4) [of p] pool(2) that by (cases "p = PG k") auto
  qed (simp_all add: t(8,9))
  then have "buddy_pool (t\<lparr>heap_top := a\<rparr>) M" by (rule buddy_pool_cong) (simp_all add: nxt_def prv_def)
  moreover have "pte_of (t\<lparr>heap_top := a\<rparr>) = pte_of t" "pte_of ?u = pte_of s" using table_cong [of "t\<lparr>heap_top := a\<rparr>" t] table_cong [OF w] by simp_all
  ultimately show ?thesis using t(2,3) by (intro exI [of _ "t\<lparr>heap_top := a\<rparr>"]) simp
qed

end
