(* ===== verification/Swap.thy ===== *)
theory Swap
  imports Slab Kstdio_Correct
begin

text \<open>
  src/vmm/swapmm.c and src/fs/tmpide.c: the clock list of swappable pages, eviction and the way
  back, on a disk whose reads and writes are commented out. \<open>printk\<close> appends its text to the log.
\<close>

section \<open>Text\<close>

definition hex :: "uint \<Rightarrow> string" where
  "hex x = map (\<lambda>c. char_of (unat c)) (hexadecimal (unat x))"

definition say :: "string \<Rightarrow> kheap \<Rightarrow> kheap" where
  "say txt s = s\<lparr>klog := klog s @ [txt]\<rparr>"

section \<open>The disk\<close>

definition SECTSIZE :: uint where "SECTSIZE = 512"
definition PAGE_NSECT :: uint where "PAGE_NSECT = PGSIZE div SECTSIZE"
definition SWAP_NO :: uint where "SWAP_NO = 1"

definition ide_init :: "kheap \<Rightarrow> kheap" where
  "ide_init s = s"

definition ide_read_secs :: "uint \<Rightarrow> uint \<Rightarrow> addr \<Rightarrow> uint \<Rightarrow> kheap \<Rightarrow> int \<times> kheap" where
  "ide_read_secs disk_no sec_start buf sec_num s = (0, s)"

definition ide_write_secs :: "uint \<Rightarrow> uint \<Rightarrow> addr \<Rightarrow> uint \<Rightarrow> kheap \<Rightarrow> int \<times> kheap" where
  "ide_write_secs disk_no sec_start buf sec_num s = (0, s)"

section \<open>The clock\<close>

definition PAGE_A :: uint where "PAGE_A = 0x800"

definition clock_swap_init :: "kheap \<Rightarrow> int \<times> kheap" where
  "clock_swap_init s = (let s = ide_init s in (0, s\<lparr>intr_on := True\<rparr>))"

definition clock_swap_init_mm :: "addr \<Rightarrow> kheap \<Rightarrow> int \<times> kheap" where
  "clock_swap_init_mm mm s = (0, s\<lparr>clock_point := Pnull\<rparr>)"

definition clock_map_swappable :: "addr \<Rightarrow> uint \<Rightarrow> pgptr \<Rightarrow> kheap \<Rightarrow> int heap_run" where
  "clock_map_swappable mm v page s =
     (let s = upd_page page (\<lambda>g. g\<lparr>flags := flags g AND NOT PAGE_A\<rparr>) s in
      if clock_point s = Pnull then kret 0 (s\<lparr>clock_point := page\<rparr>)
      else
        kbind (klift (tail_of (nxt s) (clock_point s)) s) (\<lambda>p s.
          let s = upd_next p page s in kret 0 (upd_prev page p s)))"

text \<open>
  The condition is \<open>clock_point->flags ^ PAGE_A == 0\<close>, where \<open>==\<close> binds tighter than \<open>^\<close>. The
  result is the return value and what is stored through \<open>page\<close>.
\<close>

partial_function (option) clock_swap_out_victim :: "addr \<Rightarrow> kheap \<Rightarrow> (int \<times> pgptr) heap_run" where
  [code]: "clock_swap_out_victim mm s =
     (if clock_point s \<noteq> Pnull then
        if flags (phy_pages s (clock_point s)) XOR (if PAGE_A = 0 then 1 else 0) \<noteq> 0 then
          let page = clock_point s
          in kret (0, page) (upd_page page (\<lambda>g. g\<lparr>flags := flags g OR PAGE_A\<rparr>) s)
        else clock_swap_out_victim mm (s\<lparr>clock_point := nxt s (clock_point s)\<rparr>)
      else kstop (Panic (line ''no pages can be swap out'')))"

record swap_manager =
  sw_name :: string
  sw_init :: "kheap \<Rightarrow> int \<times> kheap"
  sw_init_mm :: "addr \<Rightarrow> kheap \<Rightarrow> int \<times> kheap"
  sw_map_swappable :: "addr \<Rightarrow> uint \<Rightarrow> pgptr \<Rightarrow> kheap \<Rightarrow> int heap_run"
  sw_swap_out_victim :: "addr \<Rightarrow> kheap \<Rightarrow> (int \<times> pgptr) heap_run"

definition sw_manager :: swap_manager where
  "sw_manager = \<lparr>sw_name = ''clock_algorithm'', sw_init = clock_swap_init, sw_init_mm = clock_swap_init_mm,
     sw_map_swappable = clock_map_swappable, sw_swap_out_victim = clock_swap_out_victim\<rparr>"

definition swap_init :: "addr \<Rightarrow> kheap \<Rightarrow> unit heap_run" where
  "swap_init mm s =
     (let (r, s) = sw_init sw_manager s in
      if r \<noteq> 0 then kstop (Panic (line ''swap init failed''))
      else
        let s = s\<lparr>swap_init_ok := 1\<rparr>
        in kret () (say (line (''SWAP:'' @ sw_name sw_manager @ '' init OK!!'')) s))"

section \<open>Eviction\<close>

text \<open>
  \<open>init_vmm\<close> maps the physical pages at \<open>PAGE_OFFSET\<close> except page 0, so an entry of a page table
  at physical address 0 cannot be read: the kernel faults in the kernel.
\<close>

definition readable_pte :: "addr \<Rightarrow> kheap \<Rightarrow> unit heap_run" where
  "readable_pte ptep s = kguard (ptep AND PAGE_MASK \<noteq> PAGE_OFFSET) ''page fault'' s"

text \<open>
  The write to the disk answers 0. Were it to fail, \<open>map_swappable\<close> would be called with a page
  where it takes the address of a page pointer.
\<close>

fun swap_out_loop :: "nat \<Rightarrow> addr \<Rightarrow> kheap \<Rightarrow> int heap_run" where
  "swap_out_loop 0 mm s = kret 0 s"
| "swap_out_loop (Suc n) mm s =
     kbind (sw_swap_out_victim sw_manager mm s) (\<lambda>(r, page) s.
       if r \<noteq> 0 then kret 0 (say (line ''swap out failed'') s)
       else
         let s = say (line (''swap out page start addr: 0x'' @ hex (start_addr (phy_pages s page)) @ '',va: 0x'' @
                   hex (va (phy_pages s page)))) s;
             v = va (phy_pages s page);
             (ptep, flag) = getpte (mm_pgd (mms s mm)) v s
         in kbind (readable_pte ptep s) (\<lambda>_ s.
              let pte = rd32 s ptep in
              kbind (kassert (pte AND (if PTE_P \<noteq> 0 then 1 else 0) \<noteq> 0) (line ''page not exist'') s) (\<lambda>_ s.
                let pa = pte AND PAGE_MASK in
                if flag \<noteq> 0 then
                  let (l, s) = ide_write_secs SWAP_NO (drop_bit 12 pa * PAGE_NSECT) v PAGE_NSECT s in
                  if l \<noteq> 0 then kstop (Undefined ''map_swappable'')
                  else
                    let s = wr32 ptep (rd32 s ptep AND NOT PTE_P) s;
                        s = (if ref_num (phy_pages s page) > 0 then
                               upd_page page (\<lambda>g. g\<lparr>ref_num := ref_num g - 1\<rparr>) s else s)
                    in kbind (free_buddy page s) (\<lambda>_ s. kret 1 (say (line ''swap out done'') s))
                else swap_out_loop n mm s)))"

definition swap_out :: "addr \<Rightarrow> int \<Rightarrow> kheap \<Rightarrow> int heap_run" where
  "swap_out mm n s = swap_out_loop (nat n) mm s"

text \<open>What the page allocator calls when it has no pages: \<open>swap_out(check_mm_struct, 1)\<close>.\<close>

definition swap_one :: "kheap \<Rightarrow> int heap_run" where
  "swap_one s = swap_out (check_mm_struct s) 1 s"

section \<open>The way back\<close>

text \<open>The result is the return value and what is stored through \<open>page\<close>, if anything.\<close>

definition swap_in :: "addr \<Rightarrow> uint \<Rightarrow> uint \<Rightarrow> kheap \<Rightarrow> (int \<times> pgptr option) heap_run" where
  "swap_in mm v fl s =
     (let v = v div PGSIZE * PGSIZE;
          pgd_idx = PGD_IDX v
      in kbind (alloc_pages swap_one 1 s) (\<lambda>pg s.
         kbind (kassert (pg \<noteq> Pnull) (line ''alloc page error'') s) (\<lambda>_ s.
           let pa = start_addr (phy_pages s pg);
               (pte, flag) = getpte (mm_pgd (mms s mm)) v s
           in kbind
                (if flag = 0 then
                   kbind (alloc_pages swap_one 1 s) (\<lambda>tab s.
                     let s = upd_page tab (\<lambda>g. g\<lparr>ref_num := ref_num g + 1\<rparr>) s;
                         s = upd_page tab (\<lambda>g. g\<lparr>va := start_addr g + PAGE_OFFSET\<rparr>) s;
                         pte = start_addr (phy_pages s tab);
                         s = wr32 (mm_pgd (mms s mm) + 4 * pgd_idx) (pte OR PTE_P OR PTE_W) s
                     in kret () (zero_page (pte + PAGE_OFFSET) s))
                 else kret () s)
                (\<lambda>_ s.
                  kbind (map_page swap_one (mm_pgd (mms s mm)) fl pa v s) (\<lambda>pg s.
                    let (l, s) = ide_read_secs SWAP_NO (drop_bit 12 pa * PAGE_NSECT) v PAGE_NSECT s
                    in if l = 0 then kret (1, Some pg) s else kret (0, None) s)))))"

end
