(* ===== verification/Regions.thy ===== *)
theory Regions
  imports Swap
begin

text \<open>
  The second half of src/vmm/vmm.c: regions of virtual addresses, the memory map of the kernel and
  the page fault handler, which asks the regions, the page allocator, the page tables and the swap
  manager.
\<close>

definition upd_vma :: "addr \<Rightarrow> (vma_region \<Rightarrow> vma_region) \<Rightarrow> kheap \<Rightarrow> kheap" where
  "upd_vma a f s = s\<lparr>vmas := (vmas s)(a := f (vmas s a))\<rparr>"

definition upd_mm :: "addr \<Rightarrow> (mm_struct \<Rightarrow> mm_struct) \<Rightarrow> kheap \<Rightarrow> kheap" where
  "upd_mm a f s = s\<lparr>mms := (mms s)(a := f (mms s a))\<rparr>"

section \<open>Regions\<close>

definition check_vma_overlap :: "addr \<Rightarrow> addr \<Rightarrow> kheap \<Rightarrow> unit heap_run" where
  "check_vma_overlap p n s =
     kbind (kassert (vm_start (vmas s p) < vm_end (vmas s p)) (line ''vma overlapped'') s) (\<lambda>_ s.
     kbind (kassert (vm_end (vmas s p) \<le> vm_end (vmas s n)) (line ''vma overlapped'') s) (\<lambda>_ s.
       kassert (vm_start (vmas s n) < vm_end (vmas s n)) (line ''vma overlapped'') s))"

partial_function (option) insert_loop :: "addr \<Rightarrow> addr \<Rightarrow> addr \<Rightarrow> kheap \<Rightarrow> unit heap_run" where
  [code]: "insert_loop vma mm vm_p s =
     (if vm_next (vmas s vm_p) \<noteq> NULL then
        if vm_end (vmas s vma) \<le> vm_start (vmas s vm_p) then
          if vm_p = vma_list (mms s mm) then
            kbind (check_vma_overlap vma vm_p s) (\<lambda>_ s.
              let s = upd_mm mm (\<lambda>m. m\<lparr>vma_list := vma\<rparr>) s;
                  s = upd_vma (vma_list (mms s mm)) (\<lambda>r. r\<lparr>vm_next := vm_p\<rparr>) s
              in kret () (upd_vma vm_p (\<lambda>r. r\<lparr>vm_prev := vma_list (mms s mm)\<rparr>) s))
          else
            kbind (check_vma_overlap vma vm_p s) (\<lambda>_ s.
              let s = upd_vma (vm_prev (vmas s vm_p)) (\<lambda>r. r\<lparr>vm_next := vma\<rparr>) s;
                  s = upd_vma vma (\<lambda>r. r\<lparr>vm_prev := vm_prev (vmas s vm_p)\<rparr>) s;
                  s = upd_vma vm_p (\<lambda>r. r\<lparr>vm_prev := vma\<rparr>) s
              in kret () (upd_vma vma (\<lambda>r. r\<lparr>vm_next := vm_p\<rparr>) s))
        else insert_loop vma mm (vm_next (vmas s vm_p)) s
      else kret () s)"

definition insert_vma_mm :: "addr \<Rightarrow> addr \<Rightarrow> kheap \<Rightarrow> unit heap_run" where
  "insert_vma_mm vma mm s =
     (let s = (if vma_list (mms s mm) = NULL then
                 let s = upd_mm mm (\<lambda>m. m\<lparr>vma_list := vma\<rparr>) s
                 in upd_mm mm (\<lambda>m. m\<lparr>vma_cnt := vma_cnt m + 1\<rparr>) s
               else s)
      in kbind (insert_loop vma mm (vma_list (mms s mm)) s) (\<lambda>_ s.
           let s = upd_mm mm (\<lambda>m. m\<lparr>vma_cnt := vma_cnt m + 1\<rparr>) s
           in kret () (upd_vma vma (\<lambda>r. r\<lparr>vm_mm := mm\<rparr>) s)))"

partial_function (option) find_vma_loop :: "addr \<Rightarrow> uint \<Rightarrow> addr \<Rightarrow> kheap \<Rightarrow> addr heap_run" where
  [code]: "find_vma_loop mm v vm_p s =
     (if vm_p \<noteq> NULL then
        if vm_start (vmas s vm_p) \<le> v \<and> vm_end (vmas s vm_p) \<ge> v then
          kret vm_p (upd_mm mm (\<lambda>m. m\<lparr>mmap_cache := vm_p\<rparr>) s)
        else find_vma_loop mm v (vm_next (vmas s vm_p)) s
      else kret NULL s)"

definition FindVMA :: "addr \<Rightarrow> uint \<Rightarrow> kheap \<Rightarrow> addr heap_run" where
  "FindVMA mm v s =
     (if mm \<noteq> NULL then
        let c = vmas s (mmap_cache (mms s mm)) in
        if vm_start c \<le> v \<and> vm_end c \<ge> v then kret (mmap_cache (mms s mm)) s
        else find_vma_loop mm v (vma_list (mms s mm)) s
      else kret NULL s)"

definition mm_ctor :: "kheap \<Rightarrow> addr heap_run" where
  "mm_ctor s =
     kbind (kmalloc swap_one mm_struct_t_size s) (\<lambda>mm s.
       kbind
         (if mm \<noteq> NULL then
            let s = upd_mm mm (\<lambda>m. m\<lparr>vma_list := NULL\<rparr>) s;
                s = upd_mm mm (\<lambda>m. m\<lparr>mmap_cache := NULL\<rparr>) s;
                s = upd_mm mm (\<lambda>m. m\<lparr>mm_pgd := NULL\<rparr>) s;
                s = upd_mm mm (\<lambda>m. m\<lparr>vma_cnt := 0\<rparr>) s
            in if swap_init_ok s \<noteq> 0 then swap_init mm s else kret () s
          else kret () s)
         (\<lambda>_ s. kret mm s))"

definition vma_ctor :: "uint \<Rightarrow> uint \<Rightarrow> uint \<Rightarrow> kheap \<Rightarrow> addr heap_run" where
  "vma_ctor va_start va_end va_flags s =
     kbind (kmalloc swap_one vma_region_t_size s) (\<lambda>vma s.
       kret vma
         (if vma \<noteq> NULL then
            let s = upd_vma vma (\<lambda>r. r\<lparr>vm_start := va_start\<rparr>) s;
                s = upd_vma vma (\<lambda>r. r\<lparr>vm_end := va_end\<rparr>) s;
                s = upd_vma vma (\<lambda>r. r\<lparr>vm_flags := va_flags\<rparr>) s;
                s = upd_vma vma (\<lambda>r. r\<lparr>vm_prev := NULL\<rparr>) s;
                s = upd_vma vma (\<lambda>r. r\<lparr>vm_next := NULL\<rparr>) s
            in upd_vma vma (\<lambda>r. r\<lparr>vm_mm := NULL\<rparr>) s
          else s))"

definition init_mm :: "uint \<Rightarrow> kheap \<Rightarrow> unit heap_run" where
  "init_mm kern_end s =
     kbind (mm_ctor s) (\<lambda>mm s.
     kbind (vma_ctor kern_end 0xF0000000 (PTE_W OR PTE_P OR PTE_U) (s\<lparr>check_mm_struct := mm\<rparr>)) (\<lambda>vma s.
     kbind (insert_vma_mm vma (check_mm_struct s) s) (\<lambda>_ s.
       let s = upd_mm (check_mm_struct s) (\<lambda>m. m\<lparr>mm_pgd := pgd_kern s\<rparr>) s
       in swap_init (check_mm_struct s) s)))"

section \<open>The page list of a memory map\<close>

definition FindTail :: "pgptr \<Rightarrow> kheap \<Rightarrow> pgptr option" where
  "FindTail pl s = (if pl = Pnull then Some Pnull else tail_of (nxt s) pl)"

partial_function (option) find_page :: "kheap \<Rightarrow> pgptr \<Rightarrow> pgptr \<Rightarrow> int option" where
  [code]: "find_page s page p =
     (if p \<noteq> Pnull then if p = page then Some 1 else find_page s page (nxt s p) else Some 0)"

definition FindPage :: "addr \<Rightarrow> pgptr \<Rightarrow> kheap \<Rightarrow> int option" where
  "FindPage mm page s = find_page s page (pglist (mms s mm))"

definition mm_insert_page :: "addr \<Rightarrow> pgptr \<Rightarrow> kheap \<Rightarrow> unit heap_run" where
  "mm_insert_page mm page s =
     (let p = pglist (mms s mm) in
      if p = Pnull then kret () (upd_mm mm (\<lambda>m. m\<lparr>pglist := page\<rparr>) s)
      else
        kbind (klift (FindPage mm page s) s) (\<lambda>found s.
          if found = 0 then
            kbind (klift (FindTail p s) s) (\<lambda>p s.
              let s = upd_next p page s in kret () (upd_prev page p s))
          else kret () s))"

text \<open>The loop of \<open>mm_delete_page\<close> never moves its cursor.\<close>

definition mm_delete_page :: "addr \<Rightarrow> pgptr \<Rightarrow> kheap \<Rightarrow> unit heap_run" where
  "mm_delete_page mm page s =
     (let p = pglist (mms s mm) in
      if p = Pnull then kret () (say (line ''page not found in current mm'') s)
      else if nxt s p \<noteq> Pnull then
        if nxt s p = page then
          let s = upd_prev (nxt s page) p s;
              s = upd_next p (nxt s page) s;
              s = upd_next page Pnull s
          in kret () (upd_prev page Pnull s)
        else None
      else kret () (say (line ''page not found in current mm'') s))"

section \<open>Page faults\<close>

definition do_pgfault :: "addr \<Rightarrow> uint \<Rightarrow> kheap \<Rightarrow> int heap_run" where
  "do_pgfault mm v s =
     kbind (FindVMA mm v s) (\<lambda>vma s.
       if vma = NULL \<or> vm_start (vmas s vma) > v then
         let r = vmas s (vma_list (mms s mm))
         in kret (-1) (say (line (''0x'' @ hex (vm_start r) @ '' 0x'' @ hex (vm_end r))) s)
       else
         let perm = PTE_U;
             perm = (if vm_flags (vmas s vma) AND PTE_W \<noteq> 0 then perm OR (PTE_P OR PTE_W) else perm);
             (ptep, flag) = getpte (mm_pgd (mms s mm)) v s
         in kbind (readable_pte ptep s) (\<lambda>_ s.
              if rd32 s ptep = 0 then
                kbind (alloc_pages swap_one 1 s) (\<lambda>p s.
                kbind (map_page swap_one (mm_pgd (mms s mm)) perm (start_addr (phy_pages s p)) v s) (\<lambda>p s.
                  let s = say (line (''New PTE Created paddr:0x'' @ hex (start_addr (phy_pages s p)) @
                            '',its va:0x'' @ hex (va (phy_pages s p)))) s
                  in kbind (sw_map_swappable sw_manager mm v p s) (\<lambda>_ s. kret (-1) s)))
              else if swap_init_ok s \<noteq> 0 then
                kbind (swap_in mm v perm (say (line ''swapping in ...'') s)) (\<lambda>(r, p) s.
                  if r = 1 then
                    kbind (sw_map_swappable sw_manager mm v (case p of Some p \<Rightarrow> p | None \<Rightarrow> Pnull) s) (\<lambda>_ s.
                      kret (-1) (say (line ''swapped in a page'') s))
                  else kret (-1) (say (line ''swap in failed'') s))
              else kstop (Panic (line ''swap system not init''))))"

text \<open>
  \<open>eip\<close> and \<open>err_code\<close> come from the frame the processor pushed, \<open>cr2\<close> is the address it faulted
  at. A fault on a present page ends in an endless loop.
\<close>

definition pgfault_handler :: "uint \<Rightarrow> uint \<Rightarrow> uint \<Rightarrow> kheap \<Rightarrow> unit heap_run" where
  "pgfault_handler eip err_code cr2 s =
     (let s = say (line (''Page fault at 0x'' @ hex eip @ '', virtual faulting address 0x'' @ hex cr2)) s;
          s = say (line (''Error code: '' @ hex err_code)) s
      in if err_code AND 0x1 = 0 then
           let s = say (line ''Because the page wasn't present.'') s
           in kbind (do_pgfault (check_mm_struct s) cr2 s) (\<lambda>_ s. kret () s)
         else
           let s = say (line (if err_code AND 0x2 \<noteq> 0 then ''Write error.'' else ''Read error.'')) s;
               s = say (line (if err_code AND 0x4 \<noteq> 0 then ''In user mode.'' else ''In kernel mode.'')) s;
               s = (if err_code AND 0x8 \<noteq> 0 then say (line ''Reserved bits being overwritten.'') s else s);
               s = (if err_code AND 0x10 \<noteq> 0 then
                      say (line ''The fault occurred during an instruction fetch.'') s else s)
           in None)"

end
