(* ===== verification/Swap_Correct.thy ===== *)
theory Swap_Correct
  imports Regions Slab_Cache
begin

text \<open>
  Page faults and eviction together: the first access to a page of a region gets a frame, the frame
  joins the clock list, and eviction takes the mapping away again and returns the frame to the page
  allocator, unless another page is on the list.
\<close>

section \<open>The clock list\<close>

definition clock_list :: "kheap \<Rightarrow> pgptr list \<Rightarrow> bool" where
  "clock_list s C \<longleftrightarrow> dl s Pnull (clock_point s) C Pnull \<and> distinct C"

text \<open>A page joins at the end, with the pages of its block behind it.\<close>

lemma map_swappable_joins:
  assumes C: "clock_list s C" and B: "dl s Pnull (hd B) B Pnull" "B \<noteq> []" and dist: "distinct B" "set C \<inter> set B = {}"
  obtains t where "clock_map_swappable mm v (hd B) s = kret 0 t" "clock_list t (C @ B)"
    "clock_point t = hd (C @ B)" "\<And>p. p \<notin> set (C @ B) \<Longrightarrow> phy_pages t p = phy_pages s p"
    "\<And>p. start_addr (phy_pages t p) = start_addr (phy_pages s p) \<and> ref_num (phy_pages t p) = ref_num (phy_pages s p) \<and>
       va (phy_pages t p) = va (phy_pages s p) \<and>
       flags (phy_pages t p) = (if p = hd B then flags (phy_pages s p) AND NOT PAGE_A else flags (phy_pages s p))"
    "buddy_table t = buddy_table s" "phy_page_num t = phy_page_num s" "words t = words s" "pgd_kern t = pgd_kern s"
    "mms t = mms s" "vmas t = vmas s" "check_mm_struct t = check_mm_struct s" "swap_init_ok t = swap_init_ok s"
proof -
  let ?u = "upd_page (hd B) (\<lambda>g. g\<lparr>flags := flags g AND NOT PAGE_A\<rparr>) s"
  have same: "nxt ?u q = nxt s q" "prv ?u q = prv s q" for q by (simp_all add: nxt_def prv_def)
  have B': "dl ?u Pnull (hd B) B Pnull" by (rule dl_frame [OF B(1)]) (simp add: same)
  show ?thesis
  proof (cases "C = []")
    case True
    then have c: "clock_point s = Pnull" using C by (simp add: clock_list_def)
    let ?t = "?u\<lparr>clock_point := hd B\<rparr>"
    have "clock_map_swappable mm v (hd B) s = kret 0 ?t"
      using c by (simp add: clock_map_swappable_def upd_page_def)
    moreover have "clock_list ?t (C @ B)"
      using dl_frame [OF B', of ?t] dist(1) by (simp add: clock_list_def True nxt_def prv_def upd_page_def)
    ultimately show ?thesis using B(2) by (intro that [of ?t]) (auto simp: True upd_page_def)
  next
    case False
    have C': "dl s Pnull (clock_point s) C Pnull" "distinct (C @ B)" using C dist by (auto simp: clock_list_def)
    have Cu: "dl ?u Pnull (clock_point s) C Pnull" by (rule dl_frame [OF C'(1)]) (simp add: same)
    have c: "clock_point s \<noteq> Pnull" "clock_point s = hd C"
      using dl_head [OF C'(1) False] by auto
    let ?t = "upd_prev (hd B) (last C) (upd_next (last C) (hd B) ?u)"
    have "dl ?t Pnull (clock_point s) (C @ B) Pnull"
      by (rule dl_join [OF Cu B' False B(2) C'(2)]) auto
    then have "clock_list ?t (C @ B)" using C'(2) by (simp add: clock_list_def upd_next_def upd_prev_def upd_page_def)
    moreover have "tail_of (nxt ?u) (clock_point ?u) = Some (last C)"
      using tail_of_dl [OF Cu False] by (simp add: upd_page_def)
    then have "clock_map_swappable mm v (hd B) s = kret 0 ?t"
      using c by (simp add: clock_map_swappable_def Let_def upd_page_def)
    ultimately show ?thesis
      using False B(2) c by (intro that [of ?t]) (auto simp: upd_next_def upd_prev_def upd_page_def)
  qed
qed

lemma victim_head:
  assumes "clock_point s = p" "p \<noteq> Pnull" "flags (phy_pages s p) \<noteq> 0"
  shows "clock_swap_out_victim mm s = kret (0, p) (upd_page p (\<lambda>g. g\<lparr>flags := flags g OR PAGE_A\<rparr>) s)"
  using assms by (subst clock_swap_out_victim.simps) (simp add: PAGE_A_def)

lemma victim_skips:
  assumes "clock_point s \<noteq> Pnull" "flags (phy_pages s (clock_point s)) = 0"
  shows "clock_swap_out_victim mm s = clock_swap_out_victim mm (s\<lparr>clock_point := nxt s (clock_point s)\<rparr>)"
  using assms by (subst clock_swap_out_victim.simps) (simp add: PAGE_A_def)

lemma victim_none:
  "clock_point s = Pnull \<Longrightarrow> clock_swap_out_victim mm s = kstop (Panic (line ''no pages can be swap out''))"
  by (subst clock_swap_out_victim.simps) simp

section \<open>Regions\<close>

definition covers :: "vma_region \<Rightarrow> uint \<Rightarrow> bool" where
  "covers r v \<longleftrightarrow> vm_start r \<le> v \<and> v \<le> vm_end r"

fun vma_chain :: "(addr \<Rightarrow> vma_region) \<Rightarrow> addr \<Rightarrow> addr list \<Rightarrow> bool" where
  "vma_chain h p [] \<longleftrightarrow> p = NULL"
| "vma_chain h p (x # xs) \<longleftrightarrow> p = x \<and> x \<noteq> NULL \<and> vma_chain h (vm_next (h x)) xs"

lemma find_vma_loop_chain:
  "vma_chain (vmas s) p R \<Longrightarrow> find_vma_loop mm v p s =
     (case find (\<lambda>a. covers (vmas s a) v) R of
        None \<Rightarrow> kret NULL s
      | Some a \<Rightarrow> kret a (upd_mm mm (\<lambda>m. m\<lparr>mmap_cache := a\<rparr>) s))"
proof (induction R arbitrary: p)
  case Nil
  then show ?case by (subst find_vma_loop.simps) simp
next
  case (Cons x R)
  then show ?case by (subst find_vma_loop.simps) (auto simp: covers_def)
qed

text \<open>The region \<open>FindVMA\<close> answers with: the one of the last hit, or the first of the list that covers.\<close>

definition region_for :: "kheap \<Rightarrow> addr \<Rightarrow> addr list \<Rightarrow> uint \<Rightarrow> addr" where
  "region_for s mm R v =
     (if covers (vmas s (mmap_cache (mms s mm))) v then mmap_cache (mms s mm)
      else case find (\<lambda>a. covers (vmas s a) v) R of None \<Rightarrow> NULL | Some a \<Rightarrow> a)"

lemma FindVMA_finds:
  assumes "mm \<noteq> NULL" "vma_chain (vmas s) (vma_list (mms s mm)) R"
  obtains f where "FindVMA mm v s = kret (region_for s mm R v) (upd_mm mm f s)"
    "\<And>m. vma_list (f m) = vma_list m \<and> mm_pgd (f m) = mm_pgd m"
    "region_for s mm R v \<noteq> NULL \<Longrightarrow> covers (vmas s (region_for s mm R v)) v"
proof -
  have none: "upd_mm mm (\<lambda>m. m) s = s" by (simp add: upd_mm_def)
  show ?thesis
  proof (cases "covers (vmas s (mmap_cache (mms s mm))) v")
    case True
    then show ?thesis
      using assms(1) by (intro that [of "\<lambda>m. m"]) (simp_all add: FindVMA_def region_for_def covers_def Let_def none)
  next
    case False
    then have f: "FindVMA mm v s = find_vma_loop mm v (vma_list (mms s mm)) s"
      using assms(1) by (auto simp: FindVMA_def covers_def Let_def)
    show ?thesis
    proof (cases "find (\<lambda>a. covers (vmas s a) v) R")
      case None
      then show ?thesis
        using False by (intro that [of "\<lambda>m. m"]) (simp_all add: f find_vma_loop_chain [OF assms(2)] region_for_def none)
    next
      case (Some a)
      then have "covers (vmas s a) v" by (auto simp: find_Some_iff)
      then show ?thesis
        using False Some by (intro that [of "\<lambda>m. m\<lparr>mmap_cache := a\<rparr>"])
          (simp_all add: f find_vma_loop_chain [OF assms(2)] region_for_def)
    qed
  qed
qed

section \<open>The first access to a page\<close>

lemma say_reads [simp]:
  "phy_pages (say x s) = phy_pages s" "words (say x s) = words s" "vmas (say x s) = vmas s" "mms (say x s) = mms s"
  "clock_point (say x s) = clock_point s" "check_mm_struct (say x s) = check_mm_struct s"
  "swap_init_ok (say x s) = swap_init_ok s" "pgd_kern (say x s) = pgd_kern s" "nxt (say x s) = nxt s" "prv (say x s) = prv s"
  "buddy_table (say x s) = buddy_table s" "phy_page_num (say x s) = phy_page_num s" "rd32 (say x s) = rd32 s"
  by (auto simp: say_def nxt_def prv_def rd32_def fun_eq_iff)

lemma upd_mm_reads [simp]:
  "phy_pages (upd_mm a f s) = phy_pages s" "words (upd_mm a f s) = words s" "vmas (upd_mm a f s) = vmas s"
  "mms (upd_mm a f s) = (mms s)(a := f (mms s a))"
  "clock_point (upd_mm a f s) = clock_point s" "check_mm_struct (upd_mm a f s) = check_mm_struct s"
  "swap_init_ok (upd_mm a f s) = swap_init_ok s" "pgd_kern (upd_mm a f s) = pgd_kern s"
  "buddy_table (upd_mm a f s) = buddy_table s" "phy_page_num (upd_mm a f s) = phy_page_num s"
  by (simp_all add: upd_mm_def)

lemma dl_cong: "phy_pages t = phy_pages s \<Longrightarrow> dl t b p xs e = dl s b p xs e"
  using dl_frame [of s b p xs e t] dl_frame [of t b p xs e s] by (auto simp: nxt_def prv_def)

lemma kept [simp]:
  "heap_ok (say x s) M = heap_ok s M" "heap_ok (upd_mm a f s) M = heap_ok s M"
  "clock_list (say x s) C = clock_list s C" "clock_list (upd_mm a f s) C = clock_list s C"
  "table (say x s) = table s" "table (upd_mm a f s) = table s"
  "pte_of (say x s) = pte_of s" "pte_of (upd_mm a f s) = pte_of s"
  using heap_ok_cong [of "say x s" s M] heap_ok_cong [of "upd_mm a f s" s M] table_cong [of "say x s" s]
    table_cong [of "upd_mm a f s" s] dl_cong [of "say x s" s] dl_cong [of "upd_mm a f s" s]
  by (simp_all add: clock_list_def)

definition fault_perm :: "vma_region \<Rightarrow> uint" where
  "fault_perm r = (if vm_flags r AND PTE_W \<noteq> 0 then PTE_U OR (PTE_P OR PTE_W) else PTE_U)"

lemma region_for_say [simp]: "region_for (say x s) mm R v = region_for s mm R v"
  by (simp add: region_for_def)

text \<open>A block whose first page is mapped at \<open>v\<close> and may be evicted.\<close>

definition resident :: "kheap \<Rightarrow> pgptr list \<Rightarrow> uint \<Rightarrow> bool" where
  "resident s B v \<longleftrightarrow> (\<exists>k<17. length B = 2 ^ k) \<and> (\<forall>p\<in>set B. frame_ok s p) \<and> bit (flags (phy_pages s (hd B))) 0 \<and>
     ref_num (phy_pages s (hd B)) = 1 \<and> (\<forall>p\<in>set (tl B). ref_num (phy_pages s p) = 0) \<and> va (phy_pages s (hd B)) = v"

lemma readable_slot:
  assumes "table s pgd v \<noteq> 0"
  shows "readable_pte (pte_slot s pgd v) t = kret () t"
proof -
  have "pte_slot s pgd v AND PAGE_MASK = table s pgd v + PAGE_OFFSET"
    unfolding pte_slot_def by (rule slot_mask) (simp_all add: idx_less)
  then show ?thesis using assms by (simp add: readable_pte_def)
qed

lemma enter_page_reads [simp]:
  "nxt (enter_page a x v k s) = nxt s" "prv (enter_page a x v k s) = prv s"
  "buddy_table (enter_page a x v k s) = buddy_table s" "phy_page_num (enter_page a x v k s) = phy_page_num s"
  "start_addr (phy_pages (enter_page a x v k s) p) = start_addr (phy_pages s p)"
  "flags (phy_pages (enter_page a x v k s) p) = flags (phy_pages s p)"
  "ref_num (phy_pages (enter_page a x v k s) p) =
     (if p = PG k then ref_num (phy_pages s p) + 1 else ref_num (phy_pages s p))"
  "va (phy_pages (enter_page a x v k s) (PG k)) = v"
  by (auto simp: enter_page_def nxt_def prv_def fun_eq_iff) (simp_all add: wr32_def upd_page_def)

lemma do_pgfault_maps:
  assumes ok: "heap_ok s M" "M \<noteq> {#}" and mm: "mm \<noteq> NULL" "mm_pgd (mms s mm) = pgd_kern s"
    and R: "vma_chain (vmas s) (vma_list (mms s mm)) R" "region_for s mm R v = a" "a \<noteq> NULL"
    and tab: "table s (pgd_kern s) v \<noteq> 0" "table s (pgd_kern s) v + PAGE_OFFSET \<noteq> 0" "pte_of s (pgd_kern s) v = 0"
    and C: "clock_list s C" "set C \<inter> set_mset M = {}"
  shows "\<exists>t B M'. do_pgfault mm v s = kret (-1) t \<and> M = M' + mset B \<and> B \<noteq> [] \<and> heap_ok t M' \<and> resident t B v \<and>
    clock_list t (C @ B) \<and> pgd_kern t = pgd_kern s \<and> mm_pgd (mms t mm) = pgd_kern s \<and>
    check_mm_struct t = check_mm_struct s \<and> table t (pgd_kern s) = table s (pgd_kern s) \<and>
    (\<forall>p. start_addr (phy_pages t p) = start_addr (phy_pages s p)) \<and>
    (\<forall>w. pte_of t (pgd_kern s) w =
       (if same_page w v then start_addr (phy_pages s (hd B)) OR fault_perm (vmas s a) else pte_of s (pgd_kern s) w))"
proof -
  let ?g = "pgd_kern s"
  obtain f where f: "FindVMA mm v s = kret a (upd_mm mm f s)"
      "\<And>m. vma_list (f m) = vma_list m \<and> mm_pgd (f m) = mm_pgd m" "covers (vmas s a) v"
    using FindVMA_finds [OF mm(1) R(1), of v] R(2,3) by metis
  let ?s = "upd_mm mm f s"
  have start: "\<not> vm_start (vmas ?s a) > v" using f(3) by (auto simp: covers_def)
  have ok1: "heap_ok ?s M" using ok(1) by simp
  obtain B k M' u where u: "alloc_pages swap_one 1 ?s = kret (hd B) u" "heap_ok u M'" "M = M' + mset B"
      "size M \<le> 2 * size M' + 1" "B \<noteq> []" "hd B = PG k" "PG k \<notin># M'"
      "FindPageIndex (start_addr (phy_pages u (PG k))) u = int k" "same_frames ?s u"
      "buddy_held u B" "busy u B" "untouched M ?s u"
    by (rule heap_alloc_block [OF ok1 ok(2), of swap_one])
  have frames: "start_addr (phy_pages u p) = start_addr (phy_pages s p)" "phy_page_num u = phy_page_num s" for p
    using u(9) by (simp_all add: same_frames_def)
  have rest: "pgd_kern u = ?g" "vmm.more u = vmm.more ?s" using u(9) more_rest [of u ?s] by (simp_all add: same_frames_def)
  have users: "mms u = mms ?s" "vmas u = vmas s" "check_mm_struct u = check_mm_struct s" "clock_point u = clock_point s"
    using more_users [OF rest(2)] u(9) by (simp_all add: same_users_def same_frames_def)
  have tabs: "table u = table s" "pte_of u = pte_of s" using words_same_frames [OF u(9)] by simp_all
  have uok: "tables_ok u ?g" using u(2) rest(1) by (simp add: heap_ok_def)
  have al: "aligned (start_addr (phy_pages s (hd B)))" 
  proof -
    have "hd B \<in># M" using u(3) hd_in_set [OF u(5)] by simp
    then show ?thesis using ok(1) by (simp add: heap_ok_def spare_frames_def Let_def)
  qed
  let ?e = "start_addr (phy_pages s (hd B)) OR fault_perm (vmas s a)"
  let ?w = "enter_page (pte_slot u ?g v) ?e v k u"
  have "map_page swap_one ?g (fault_perm (vmas s a)) (start_addr (phy_pages u (hd B))) v u = kret (PG k) ?w"
    using map_page_present [OF uok _ u(8) [folded u(6)], of v swap_one "fault_perm (vmas s a)"] tab(1) tabs(1)
      aligned_and [OF al] frames(1) by (simp add: u(6))
  note map = this
  have m: "mapped u ?g ?e v k ?w" by (rule enter_page_mapped [OF uok]) (simp add: tabs tab(1))
  have get: "getpte ?g v ?s = (pte_slot s ?g v, 1)"
    using getpte_slot [of s ?g v] tab(2) by (simp add: getpte_def Let_def rd32_def)
  have rd: "rd32 ?s (pte_slot s ?g v) = 0" using tab(1,3) by (simp add: pte_of_def rd32_def)
  have wt: "table ?w ?g x = table u ?g x" for x by (rule enter_page_tables [OF uok]) (simp add: tabs tab(1))
  have wok: "heap_ok ?w M'"
  proof (rule heap_ok_frame [OF u(2)])
    show "nxt ?w p = nxt u p \<and> prv ?w p = prv u p \<and> ref_num (phy_pages ?w p) = ref_num (phy_pages u p)"
      if "p \<in># M'" for p using that u(7) by auto
  qed (use m wt rest(1) in \<open>simp_all add: mapped_def\<close>)
  let ?x = "say (line (''New PTE Created paddr:0x'' @ hex (start_addr (phy_pages ?w (PG k))) @
    '',its va:0x'' @ hex (va (phy_pages ?w (PG k))))) ?w"
  have Bdl: "dl ?x Pnull (hd B) B Pnull" using u(10) dl_frame [of u Pnull "hd B" B Pnull ?x] by (simp add: buddy_held_def)
  have "one_each M" using ok(1) by (auto simp: heap_ok_def buddy_pool_def buddy_rel_def)
  then have dist: "distinct B" "set C \<inter> set B = {}"
    using u(3) C(2) one_each_sub [of M "mset B"] by (auto simp: one_each_distinct)
  have Cdl: "clock_list ?x C"
  proof -
    have "Pnull \<notin> set C" using C(1) dl_no_null [of s Pnull "clock_point s" C Pnull] by (simp add: clock_list_def)
    then have "nxt u p = nxt s p \<and> prv u p = prv s p" if "p \<in> set C" for p
      using u(12) C(2) that by (auto simp: untouched_def nxt_def prv_def)
    then have "dl ?x Pnull (clock_point s) C Pnull"
      using C(1) dl_frame [of s Pnull "clock_point s" C Pnull ?x] by (simp add: clock_list_def)
    moreover have "clock_point ?x = clock_point s" using users(4) by (simp add: enter_page_def upd_page_def wr32_def)
    ultimately show ?thesis using C(1) by (simp add: clock_list_def)
  qed
  obtain t where t: "clock_map_swappable mm v (hd B) ?x = kret 0 t" "clock_list t (C @ B)"
      "\<And>p. p \<notin> set (C @ B) \<Longrightarrow> phy_pages t p = phy_pages ?x p"
      "\<And>p. start_addr (phy_pages t p) = start_addr (phy_pages ?x p) \<and> ref_num (phy_pages t p) = ref_num (phy_pages ?x p) \<and>
         va (phy_pages t p) = va (phy_pages ?x p) \<and>
         flags (phy_pages t p) = (if p = hd B then flags (phy_pages ?x p) AND NOT PAGE_A else flags (phy_pages ?x p))"
      "buddy_table t = buddy_table ?x" "phy_page_num t = phy_page_num ?x" "words t = words ?x" "pgd_kern t = pgd_kern ?x"
      "mms t = mms ?x" "check_mm_struct t = check_mm_struct ?x"
    by (rule map_swappable_joins [OF Cdl Bdl u(5) dist, of mm v]) blast
  have run: "do_pgfault mm v s = kret (-1) t"
    using f(1) start R(3) mm(2) f(2) u(1) map t(1) get rd readable_slot [OF tab(1), of ?s] users(1)
    by (simp add: do_pgfault_def fault_perm_def Let_def sw_manager_def u(6))
  have tt: "table t ?g = table s ?g" "pte_of t ?g = pte_of ?w ?g" "tables_ok t ?g"
    using table_cong [of t ?w] t(7) wt tabs m by (simp_all add: mapped_def fun_eq_iff)
  have tok: "heap_ok t M'"
  proof (rule heap_ok_frame [OF wok])
    show "nxt t p = nxt ?w p \<and> prv t p = prv ?w p \<and> ref_num (phy_pages t p) = ref_num (phy_pages ?w p)" if "p \<in># M'" for p
    proof -
      have "p \<notin> set (C @ B)" using that u(3) C(2) \<open>one_each M\<close> one_each_apart [of M' B p] by auto
      then have "phy_pages t p = phy_pages ?w p" using t(3) [of p] by simp
      then show ?thesis unfolding nxt_def prv_def by simp
    qed
  qed (use t tt wt tabs rest(1) in simp_all)
  have users_w: "mms ?w = mms u" "check_mm_struct ?w = check_mm_struct u"
    by (simp_all add: enter_page_def upd_page_def wr32_def)
  have g: "pgd_kern t = ?g" "mm_pgd (mms t mm) = ?g" "check_mm_struct t = check_mm_struct s"
    using t(8-10) users users_w rest(1) f(2) mm(2) by simp_all
  have r: "start_addr (phy_pages t p) = start_addr (phy_pages u p)" "va (phy_pages t (PG k)) = v"
      "ref_num (phy_pages t p) = (if p = PG k then ref_num (phy_pages u p) + 1 else ref_num (phy_pages u p))"
      "flags (phy_pages t (PG k)) = flags (phy_pages u (PG k)) AND NOT PAGE_A" for p
    using t(4) [of p] t(4) [of "PG k"] by (simp_all add: u(6))
  have mem: "PG k \<in> set B" "PG k \<notin> set (tl B)" "set (tl B) \<subseteq> set B"
    using dist(1) u(5,6) by (cases B; auto)+
  have "frame_ok t p \<longleftrightarrow> frame_ok u p" for p using r(1) t(6) by (simp add: frame_ok_def)
  moreover have "bit (flags (phy_pages t (PG k))) 0"
    using u(11) mem(1) by (simp add: busy_def r(4) bit_and_iff bit_not_iff PAGE_A_def)
  moreover have "ref_num (phy_pages t p) = 0" if "p \<in> set (tl B)" for p
    using that mem u(10) by (auto simp: r(3) buddy_held_def)
  ultimately have "resident t B v"
    using u(10) mem r(2) r(3) [of "PG k"] by (auto simp: resident_def buddy_held_def u(6))
  note res = this
  have pt: "\<forall>w. pte_of t ?g w = (if same_page w v then ?e else pte_of s ?g w)"
    using m by (simp add: tt(2) mapped_def tabs(2))
  have "\<forall>p. start_addr (phy_pages t p) = start_addr (phy_pages s p)" using r(1) frames(1) by simp
  then show ?thesis using run u(3,5) tok res t(2) g tt(1) pt by blast
qed

section \<open>Eviction\<close>

text \<open>The state in which \<open>swap_out\<close> calls the page allocator.\<close>

definition evicted :: "addr \<Rightarrow> pgptr \<Rightarrow> kheap \<Rightarrow> kheap" where
  "evicted pgd p s =
     (let s = upd_page p (\<lambda>g. g\<lparr>flags := flags g OR PAGE_A\<rparr>) s;
          s = say (line (''swap out page start addr: 0x'' @ hex (start_addr (phy_pages s p)) @ '',va: 0x'' @
                hex (va (phy_pages s p)))) s;
          v = va (phy_pages s p);
          s = wr32 (pte_slot s pgd v) (pte_of s pgd v AND NOT PTE_P) s
      in if ref_num (phy_pages s p) > 0 then upd_page p (\<lambda>g. g\<lparr>ref_num := ref_num g - 1\<rparr>) s else s)"

lemma wr32_reads [simp]:
  "nxt (wr32 a x s) = nxt s" "prv (wr32 a x s) = prv s" "buddy_table (wr32 a x s) = buddy_table s"
  "phy_page_num (wr32 a x s) = phy_page_num s" "pgd_kern (wr32 a x s) = pgd_kern s"
  "vmm.more (wr32 a x s) = vmm.more s"
  by (auto simp: wr32_def nxt_def prv_def fun_eq_iff)

lemma swap_out_calls_free:
  fixes s :: kheap
  assumes p: "clock_point s = p" "p \<noteq> Pnull" "bit (flags (phy_pages s p)) 0" "va (phy_pages s p) = v"
    and pgd: "mm_pgd (mms s mm) = pgd"
    and tab: "table s pgd v \<noteq> 0" "table s pgd v + PAGE_OFFSET \<noteq> 0" "bit (pte_of s pgd v) 0"
  shows "swap_out mm 1 s =
    kbind (free_buddy p (evicted pgd p s)) (\<lambda>_ s. kret 1 (say (line ''swap out done'') s))"
proof -
  let ?s = "upd_page p (\<lambda>g. g\<lparr>flags := flags g OR PAGE_A\<rparr>) s"
  have "flags (phy_pages s p) \<noteq> 0" using p(3) by auto
  then have v: "clock_swap_out_victim mm s = kret (0, p) ?s" by (rule victim_head [OF p(1,2)])
  have m: "mms ?s = mms s" by (simp add: upd_page_def)
  have get: "getpte pgd v (say x ?s) = (pte_slot s pgd v, 1)" for x
    using getpte_slot [of s pgd v] tab(2) by (simp add: getpte_def Let_def)
  have rd: "rd32 s (pte_slot s pgd v) = pte_of s pgd v" using tab(1) by (simp add: pte_of_def)
  have slot: "pte_slot (say x ?s) = pte_slot s" "pte_of (say x ?s) = pte_of s" for x by (simp_all add: pte_slot_def fun_eq_iff)
  have "bit (pte_of s pgd v AND 1) 0" using tab(3) unfolding bit_and_iff by simp
  then have "pte_of s pgd v AND 1 \<noteq> 0" by (metis bit_0_eq bot_apply bot_bool_def)
  then have a: "kassert (pte_of s pgd v AND (if PTE_P \<noteq> 0 then 1 else 0) \<noteq> 0) (line ''page not exist'') t = kret () t" for t :: kheap
    by (simp add: PTE_P_def)
  show ?thesis
    using v pgd a get slot readable_slot [OF tab(1)]
    by (simp add: swap_out_def sw_manager_def evicted_def Let_def m p(4) rd ide_write_secs_def)
qed

lemma evicted_reads:
  assumes ok: "tables_ok s pgd" and v: "table s pgd (va (phy_pages s p)) \<noteq> 0"
  shows "nxt (evicted pgd p s) = nxt s" "prv (evicted pgd p s) = prv s" "clock_point (evicted pgd p s) = clock_point s"
    "buddy_table (evicted pgd p s) = buddy_table s" "phy_page_num (evicted pgd p s) = phy_page_num s"
    "pgd_kern (evicted pgd p s) = pgd_kern s" "start_addr (phy_pages (evicted pgd p s) q) = start_addr (phy_pages s q)"
    "ref_num (phy_pages (evicted pgd p s) q) =
       (if q = p then if ref_num (phy_pages s p) > 0 then ref_num (phy_pages s p) - 1 else 0 else ref_num (phy_pages s q))"
    "table (evicted pgd p s) pgd w = table s pgd w" "tables_ok (evicted pgd p s) pgd"
    "pte_of (evicted pgd p s) pgd w =
       (if same_page w (va (phy_pages s p)) then pte_of s pgd (va (phy_pages s p)) AND NOT PTE_P else pte_of s pgd w)"
proof -
  let ?v = "va (phy_pages s p)" and ?t = "evicted pgd p s"
  show "nxt ?t = nxt s" "prv ?t = prv s"
    by (auto simp: evicted_def Let_def fun_eq_iff nxt_def prv_def)
  show "clock_point ?t = clock_point s" "buddy_table ?t = buddy_table s" "phy_page_num ?t = phy_page_num s"
    "pgd_kern ?t = pgd_kern s" "start_addr (phy_pages ?t q) = start_addr (phy_pages s q)"
    "ref_num (phy_pages ?t q) =
       (if q = p then if ref_num (phy_pages s p) > 0 then ref_num (phy_pages s p) - 1 else 0 else ref_num (phy_pages s q))"
    by (auto simp: evicted_def Let_def say_def upd_page_def wr32_def word_gt_0)
  have slot: "rd32 ?t a = (if a = pte_slot s pgd ?v then pte_of s pgd ?v AND NOT PTE_P else rd32 s a)" for a
  proof -
    have "pte_slot (say x (upd_page p f s)) = pte_slot s" "pte_of (say x (upd_page p f s)) = pte_of s" for x f
      by (simp_all add: pte_slot_def fun_eq_iff)
    then show ?thesis by (simp add: evicted_def Let_def)
  qed
  show "table ?t pgd w = table s pgd w" "tables_ok ?t pgd"
    "pte_of ?t pgd w = (if same_page w ?v then pte_of s pgd ?v AND NOT PTE_P else pte_of s pgd w)"
    using store_pte [OF ok v slot] by blast+
qed

text \<open>With one block on the clock list, its frame goes back to the allocator.\<close>

lemma swap_out_evicts:
  assumes ok: "heap_ok s M" and mm: "mm_pgd (mms s mm) = pgd_kern s"
    and B: "clock_list s B" "B \<noteq> []" "resident s B v" "one_each (M + mset B)" "spare_frames s (pgd_kern s) (mset B)"
    and tab: "table s (pgd_kern s) v \<noteq> 0" "table s (pgd_kern s) v + PAGE_OFFSET \<noteq> 0" "bit (pte_of s (pgd_kern s) v) 0"
  shows "\<exists>t. swap_out mm 1 s = kret 1 t \<and> heap_ok t (M + mset B) \<and>
    (\<forall>w. pte_of t (pgd_kern s) w =
       (if same_page w v then pte_of s (pgd_kern s) v AND NOT PTE_P else pte_of s (pgd_kern s) w))"
proof -
  let ?g = "pgd_kern s" and ?p = "hd B"
  let ?u = "evicted ?g ?p s"
  have dl: "dl s Pnull (clock_point s) B Pnull" "distinct B" using B(1) by (simp_all add: clock_list_def)
  then have cp: "clock_point s = ?p" "?p \<noteq> Pnull" using dl_head [OF dl(1) B(2)] by auto
  have res: "bit (flags (phy_pages s ?p)) 0" "va (phy_pages s ?p) = v" "ref_num (phy_pages s ?p) = 1"
    using B(3) by (simp_all add: resident_def)
  have tok: "tables_ok s ?g" using ok by (simp add: heap_ok_def)
  note e = evicted_reads [OF tok, of ?p, unfolded res(2), OF tab(1)]
  have out: "?p \<notin># M" using one_each_apart [OF B(4), of ?p] B(2) by simp
  have uok: "heap_ok ?u M"
  proof (rule heap_ok_frame [OF ok])
    show "nxt ?u p = nxt s p \<and> prv ?u p = prv s p \<and> ref_num (phy_pages ?u p) = ref_num (phy_pages s p)" if "p \<in># M" for p
    proof -
      have "p \<noteq> ?p" using that out by auto
      then show ?thesis by (simp only: e(1,2,8) if_False simp_thms)
    qed
  qed (rule e)+
  have "buddy_held ?u B"
  proof -
    have "dl ?u Pnull ?p B Pnull" using dl(1) cp dl_frame [of s Pnull ?p B Pnull ?u] by (simp add: e(1,2))
    moreover have "ref_num (phy_pages ?u p) = 0" if "p \<in> set B" for p
    proof -
      have "p = ?p \<or> p \<in> set (tl B)" using that B(2) by (cases B) auto
      then show ?thesis using e(8) [of p] res(3) B(3) by (auto simp: resident_def)
    qed
    ultimately show ?thesis using B(3) by (auto simp: buddy_held_def resident_def frame_ok_def e(5,7))
  qed
  then obtain t where t: "free_buddy ?p ?u = kret () t" "buddy_pool t (M + mset B)" "same_frames ?u t"
    using free_block [OF _ _ B(4), of ?u] uok by (auto simp: heap_ok_def)
  have tt: "table t = table ?u" "pte_of t = pte_of ?u" "tables_ok t = tables_ok ?u" "pgd_kern t = ?g"
    using words_same_frames [OF t(3)] t(3) more_rest [of t ?u] e(6) by (simp_all add: same_frames_def)
  have fr: "start_addr (phy_pages t p) = start_addr (phy_pages s p)" "phy_page_num t = phy_page_num s" for p
    using t(3) e(5,7) by (simp_all add: same_frames_def)
  have "spare_frames t ?g (M + mset B)"
    using ok B(5) by (auto simp: heap_ok_def spare_frames_def Let_def tt fr e(9))
  then have "heap_ok t (M + mset B)"
    using ok t(2) fr tt e(10) by (simp add: heap_ok_def frames_apart_def)
  moreover have "swap_out mm 1 s = kret 1 (say (line ''swap out done'') t)"
    using swap_out_calls_free [OF cp res(1,2) mm tab] t(1) by simp
  ultimately show ?thesis using tt(2) e(11) by (intro exI [of _ "say (line ''swap out done'') t"]) simp
qed

text \<open>With another page in use behind it, the entry is cleared and the frame stays where it was.\<close>

lemma swap_out_shared:
  assumes ok: "heap_ok s M" and mm: "mm_pgd (mms s mm) = pgd_kern s"
    and C: "clock_list s (p # C)" "p \<notin># M" "va (phy_pages s p) = v" "bit (flags (phy_pages s p)) 0"
    and q: "q \<in> set C" "0 < ref_num (phy_pages s q)"
    and tab: "table s (pgd_kern s) v \<noteq> 0" "table s (pgd_kern s) v + PAGE_OFFSET \<noteq> 0" "bit (pte_of s (pgd_kern s) v) 0"
  shows "\<exists>t. swap_out mm 1 s = kret 1 t \<and> heap_ok t M \<and> clock_list t (p # C) \<and>
    (\<forall>w. pte_of t (pgd_kern s) w =
       (if same_page w v then pte_of s (pgd_kern s) v AND NOT PTE_P else pte_of s (pgd_kern s) w))"
proof -
  let ?g = "pgd_kern s"
  let ?u = "evicted ?g p s"
  have dl: "dl s Pnull (clock_point s) (p # C) Pnull" "distinct (p # C)" using C(1) by (simp_all add: clock_list_def)
  then have cp: "clock_point s = p" "p \<noteq> Pnull" by simp_all
  have tok: "tables_ok s ?g" using ok by (simp add: heap_ok_def)
  note e = evicted_reads [OF tok, of p, unfolded C(3), OF tab(1)]
  have uok: "heap_ok ?u M"
  proof (rule heap_ok_frame [OF ok])
    show "nxt ?u x = nxt s x \<and> prv ?u x = prv s x \<and> ref_num (phy_pages ?u x) = ref_num (phy_pages s x)" if "x \<in># M" for x
    proof -
      have "x \<noteq> p" using that C(2) by auto
      then show ?thesis by (simp only: e(1,2,8) if_False simp_thms)
    qed
  qed (rule e)+
  have udl: "dl ?u Pnull p (p # C) Pnull" using dl(1) cp dl_frame [of s Pnull p "p # C" Pnull ?u] by (simp add: e(1,2))
  have "q \<noteq> p" using q(1) dl(2) by auto
  then have "\<exists>x\<in>set (p # C). ref_num (phy_pages ?u x) > 0" using q by (intro bexI [of _ q]) (simp_all add: e(8))
  then have "check_free_pages ?u p = Some 0" using check_free_pages_dl [OF udl] by simp
  then have "free_buddy p ?u = kret () (say (line ''free buddy failed'') ?u)"
    by (simp add: free_buddy_def say_def)
  then have "swap_out mm 1 s = kret 1 (say (line ''swap out done'') (say (line ''free buddy failed'') ?u))"
    using swap_out_calls_free [OF cp C(4,3) mm tab] by simp
  moreover have "clock_list ?u (p # C)" using udl dl(2) cp by (simp add: clock_list_def e(3))
  ultimately show ?thesis
    using uok e(11) by (intro exI [of _ "say (line ''swap out done'') (say (line ''free buddy failed'') ?u)"]) simp
qed

text \<open>Fault and eviction: the page is gone from the tables, the books are those of the start.\<close>

lemma fault_and_evict:
  assumes ok: "heap_ok s M" "M \<noteq> {#}" and mm: "mm \<noteq> NULL" "mm_pgd (mms s mm) = pgd_kern s"
    and R: "vma_chain (vmas s) (vma_list (mms s mm)) R" "region_for s mm R v = a" "a \<noteq> NULL"
    and W: "vm_flags (vmas s a) AND PTE_W \<noteq> 0"
    and tab: "table s (pgd_kern s) v \<noteq> 0" "table s (pgd_kern s) v + PAGE_OFFSET \<noteq> 0" "pte_of s (pgd_kern s) v = 0"
    and C: "clock_point s = Pnull"
  shows "\<exists>t u. do_pgfault mm v s = kret (-1) t \<and> bit (pte_of t (pgd_kern s) v) 0 \<and>
    swap_out mm 1 t = kret 1 u \<and> heap_ok u M \<and> \<not> bit (pte_of u (pgd_kern s) v) 0 \<and>
    (\<forall>w. \<not> same_page w v \<longrightarrow> pte_of u (pgd_kern s) w = pte_of s (pgd_kern s) w)"
proof -
  let ?g = "pgd_kern s"
  have "clock_list s []" using C by (simp add: clock_list_def)
  then obtain t B M' where t: "do_pgfault mm v s = kret (-1) t" "M = M' + mset B" "B \<noteq> []" "heap_ok t M'" "resident t B v"
      "clock_list t B" "pgd_kern t = ?g" "mm_pgd (mms t mm) = ?g" "table t ?g = table s ?g"
      "\<And>p. start_addr (phy_pages t p) = start_addr (phy_pages s p)"
    and pte: "\<And>w. pte_of t ?g w =
       (if same_page w v then start_addr (phy_pages s (hd B)) OR fault_perm (vmas s a) else pte_of s ?g w)"
    using do_pgfault_maps [OF ok mm R tab, of "[]"] by auto
  have one: "one_each (M' + mset B)" using ok(1) t(2) by (auto simp: heap_ok_def buddy_pool_def buddy_rel_def)
  have spare: "spare_frames t (pgd_kern t) (mset B)"
    using ok(1) t(2,7,9,10) by (auto simp: heap_ok_def spare_frames_def Let_def)
  have v: "same_page v v" by (simp add: same_page_def)
  have present: "bit (pte_of t ?g v) 0" using W v by (simp add: pte fault_perm_def bit_or_iff PTE_P_def)
  have g: "mm_pgd (mms t mm) = pgd_kern t" using t(7,8) by simp
  have tab': "table t (pgd_kern t) v \<noteq> 0" "table t (pgd_kern t) v + PAGE_OFFSET \<noteq> 0" "bit (pte_of t (pgd_kern t) v) 0"
    using t(7,9) tab(1,2) present by simp_all
  obtain u where u: "swap_out mm 1 t = kret 1 u" "heap_ok u M"
      "\<And>w. pte_of u ?g w = (if same_page w v then pte_of t ?g v AND NOT PTE_P else pte_of t ?g w)"
    using swap_out_evicts [OF t(4) g t(6,3,5) one spare tab'] unfolding t(7) t(2) [symmetric] by blast
  have "\<not> bit (pte_of u ?g v) 0" using v by (simp add: u(3) bit_and_iff bit_not_iff PTE_P_def)
  then show ?thesis using t(1) present u pte by auto
qed

section \<open>What the handler does not serve\<close>

lemma do_pgfault_outside:
  assumes "mm \<noteq> NULL" "vma_chain (vmas s) (vma_list (mms s mm)) R" "region_for s mm R v = NULL"
  shows "\<exists>f txt. do_pgfault mm v s = kret (-1) (say txt (upd_mm mm f s))"
proof -
  obtain f where f: "FindVMA mm v s = kret NULL (upd_mm mm f s)"
    using FindVMA_finds [OF assms(1,2), of v] assms(3) by metis
  show ?thesis by (intro exI) (simp add: do_pgfault_def f Let_def)
qed

lemma do_pgfault_no_table:
  assumes mm: "mm \<noteq> NULL" and R: "vma_chain (vmas s) (vma_list (mms s mm)) R" "region_for s mm R v \<noteq> NULL"
    and tab: "table s (mm_pgd (mms s mm)) v = 0"
  shows "do_pgfault mm v s = kstop (Undefined ''page fault'')"
proof -
  obtain f where f: "FindVMA mm v s = kret (region_for s mm R v) (upd_mm mm f s)" "mm_pgd (f (mms s mm)) = mm_pgd (mms s mm)"
      "covers (vmas s (region_for s mm R v)) v"
    using FindVMA_finds [OF mm R(1), of v] R(2) by metis
  have "getpte (mm_pgd (mms s mm)) v (upd_mm mm f s) = (PAGE_OFFSET + 4 * PTE_IDX v, 1)"
    by (rule getpte_no_table) (simp add: tab)
  moreover have "(PAGE_OFFSET + 4 * PTE_IDX v) AND PAGE_MASK = PAGE_OFFSET"
    by (rule slot_mask) (simp_all add: idx_less aligned_def PAGE_OFFSET_def)
  moreover have "\<not> v < vm_start (vmas s (region_for s mm R v))" using f(3) by (auto simp: covers_def)
  ultimately show ?thesis using R(2) f(1,2) by (simp add: do_pgfault_def Let_def readable_pte_def)
qed

lemma pgfault_present: "err_code AND 0x1 \<noteq> 0 \<Longrightarrow> pgfault_handler eip err_code cr2 s = None"
  by (simp add: pgfault_handler_def Let_def)

lemma pgfault_absent:
  assumes "err_code AND 0x1 = 0"
  shows "\<exists>x y z. pgfault_handler eip err_code cr2 s =
    kbind (do_pgfault (check_mm_struct s) cr2 (say x (say y (say z s)))) (\<lambda>_ s. kret () s)"
  using assms by (intro exI) (simp add: pgfault_handler_def Let_def)

section \<open>Regions\<close>

text \<open>The loop of \<open>insert_vma_mm\<close> looks only at regions that have a successor.\<close>

fun insert_all :: "addr \<Rightarrow> addr list \<Rightarrow> kheap \<Rightarrow> unit heap_run" where
  "insert_all mm [] s = kret () s"
| "insert_all mm (v # vs) s = kbind (insert_vma_mm v mm s) (\<lambda>_ s. insert_all mm vs s)"

lemma insert_vma_mm_run:
  assumes "vma_list (mms s mm) = NULL \<or> vm_next (vmas s (vma_list (mms s mm))) = NULL"
    "vma_list (mms s mm) = NULL \<Longrightarrow> vm_next (vmas s vma) = NULL"
  shows "insert_vma_mm vma mm s = kret () (upd_vma vma (\<lambda>r. r\<lparr>vm_mm := mm\<rparr>)
    (upd_mm mm (\<lambda>m. if vma_list m = NULL then m\<lparr>vma_list := vma, vma_cnt := 2 + vma_cnt m\<rparr>
                    else m\<lparr>vma_cnt := vma_cnt m + 1\<rparr>) s))"
  using assms by (cases "vma_list (mms s mm) = NULL")
    (simp_all add: insert_vma_mm_def Let_def insert_loop.simps, simp_all add: upd_mm_def upd_vma_def)

lemma insert_all_keeps_one:
  assumes "vma_list (mms s mm) = r" "r \<noteq> NULL" "vm_next (vmas s r) = NULL"
  shows "\<exists>t. insert_all mm vs s = kret () t \<and> vma_list (mms t mm) = r \<and>
    vma_cnt (mms t mm) = vma_cnt (mms s mm) + int (length vs) \<and> (\<forall>a. vm_next (vmas t a) = vm_next (vmas s a))"
  using assms
proof (induction vs arbitrary: s)
  case (Cons v vs)
  let ?t = "upd_vma v (\<lambda>r. r\<lparr>vm_mm := mm\<rparr>) (upd_mm mm (\<lambda>m. m\<lparr>vma_cnt := vma_cnt m + 1\<rparr>) s)"
  have "insert_vma_mm v mm s = kret () ?t"
    using insert_vma_mm_run [of s mm v] Cons.prems by (simp add: upd_mm_def)
  moreover have "vma_list (mms ?t mm) = r" "vm_next (vmas ?t a) = vm_next (vmas s a)"
    "vma_cnt (mms ?t mm) = vma_cnt (mms s mm) + 1" for a
    using Cons.prems by (simp_all add: upd_vma_def upd_mm_def)
  ultimately show ?case using Cons.IH [of ?t] Cons.prems(2,3) by auto
qed simp

lemma insert_all_loses:
  assumes "vma_list (mms s mm) = NULL" "\<And>v. v \<in> set vs \<Longrightarrow> vm_next (vmas s v) = NULL" "vs \<noteq> []" "hd vs \<noteq> NULL"
  shows "\<exists>t. insert_all mm vs s = kret () t \<and> vma_chain (vmas t) (vma_list (mms t mm)) [hd vs] \<and>
    vma_cnt (mms t mm) = vma_cnt (mms s mm) + int (length vs) + 1"
proof -
  obtain v ws where vs: "vs = v # ws" using assms(3) by (cases vs) auto
  let ?t = "upd_vma v (\<lambda>r. r\<lparr>vm_mm := mm\<rparr>)
    (upd_mm mm (\<lambda>m. if vma_list m = NULL then m\<lparr>vma_list := v, vma_cnt := 2 + vma_cnt m\<rparr> else m\<lparr>vma_cnt := vma_cnt m + 1\<rparr>) s)"
  have "insert_vma_mm v mm s = kret () ?t" using insert_vma_mm_run [of s mm v] assms(1,2) vs by simp
  moreover have "vma_list (mms ?t mm) = v" "vm_next (vmas ?t v) = NULL" "vma_cnt (mms ?t mm) = vma_cnt (mms s mm) + 2"
    using assms(1,2) vs by (simp_all add: upd_vma_def upd_mm_def)
  moreover have "v \<noteq> NULL" using assms(4) vs by simp
  ultimately show ?thesis using insert_all_keeps_one [of ?t mm v ws] by (auto simp: vs)
qed

end
