(* ===== verification/Mm_Init.thy ===== *)
theory Mm_Init
  imports Swap_Correct Slab_Init
begin

text \<open>
  \<open>init_mm\<close> on a heap that serves requests: the memory map of the kernel and its one region come
  from \<open>kmalloc\<close>, and page faults find the region.
\<close>

lemma heap_users:
  assumes "phy_pages t = phy_pages s" "buddy_table t = buddy_table s" "phy_page_num t = phy_page_num s"
    "words t = words s" "pgd_kern t = pgd_kern s" "slabs t = slabs s" "caches t = caches s" "free_ids t = free_ids s"
    "heap_top t = heap_top s" "kmem_caches t = kmem_caches s"
  shows "kmalloc_ready t M cs P = kmalloc_ready s M cs P"
proof -
  have "ids_from t = ids_from s" "obj_at t = obj_at s"
    using assms by (simp_all add: ids_from_def obj_at_def next_id_def fun_eq_iff)
  then have "slab_pool a z n t H = slab_pool a z n s H" for a z n H
    using assms by (simp add: slab_pool_def)
  then have "slab_at t a z n H = slab_at s a z n H" for a z n H using assms by (simp add: slab_at_def)
  then have "cache_state t c z n H = cache_state s c z n H" for c z n H using assms by (simp add: cache_state_def)
  then show ?thesis
    using assms heap_ok_cong [of t s M] by (simp add: kmalloc_ready_def heap_inv_def large_idle_def)
qed

lemma ready_kept [simp]:
  "kmalloc_ready (upd_mm a f s) M cs P = kmalloc_ready s M cs P"
  "kmalloc_ready (upd_vma a g s) M cs P = kmalloc_ready s M cs P"
  "kmalloc_ready (say x s) M cs P = kmalloc_ready s M cs P"
  "kmalloc_ready (s\<lparr>check_mm_struct := m\<rparr>) M cs P = kmalloc_ready s M cs P"
  "kmalloc_ready (s\<lparr>swap_init_ok := i\<rparr>) M cs P = kmalloc_ready s M cs P"
  "kmalloc_ready (s\<lparr>intr_on := b\<rparr>) M cs P = kmalloc_ready s M cs P"
  by (rule heap_users; simp add: upd_mm_def upd_vma_def say_def)+

lemma ready_not_null:
  assumes ready: "kmalloc_ready s M cs P" and i: "i < 8"
  shows "NULL \<notin> set (P (cs ! i))"
proof -
  have inv: "heap_inv s M (small_classes cs @ [(kmem_caches s, 44, 88)]) P" using ready by (simp add: kmalloc_ready_def)
  have c: "(cs ! i, of_nat (class_bytes ! i), cache_objs (class_bytes ! i)) \<in> set (small_classes cs @ [(kmem_caches s, 44, 88)])"
    using i by (auto simp: small_classes_def simp del: upt_rec_numeral)
  have st: "cache_state s (cs ! i) (of_nat (class_bytes ! i)) (cache_objs (class_bytes ! i)) (P (cs ! i))"
    by (rule heap_invD(1) [OF inv c])
  show ?thesis
  proof (cases "partial_slabs (caches s (cs ! i)) = NULL")
    case False
    with st have "slab_pool (partial_slabs (caches s (cs ! i))) (of_nat (class_bytes ! i)) (cache_objs (class_bytes ! i)) s (P (cs ! i))"
      by (simp add: cache_state_def slab_at_def)
    then show ?thesis using so.held by blast
  qed (use st in \<open>simp add: cache_state_def\<close>)
qed

lemma small_structs: "class_of (unat mm_struct_t_size) = 0" "class_of (unat vma_region_t_size) = 0"
  "unat mm_struct_t_size < 2048" "unat vma_region_t_size < 2048"
  by (simp_all add: mm_struct_t_size_def vma_region_t_size_def class_of_def class_bytes_def)

lemma swap_init_run:
  "swap_init mm s = kret () (say (line (''SWAP:'' @ sw_name sw_manager @ '' init OK!!'')) (s\<lparr>intr_on := True, swap_init_ok := 1\<rparr>))"
  by (simp add: swap_init_def sw_manager_def clock_swap_init_def ide_init_def Let_def)

lemma mm_ctor_ready:
  assumes ready: "kmalloc_ready s M cs P" and room: "length (P (cs ! 0)) < cache_objs (class_bytes ! 0)"
    and mem: "P (cs ! 0) = [] \<Longrightarrow> 2 \<le> size M \<and> unat (heap_top s) + 4096 < 2 ^ 32"
  obtains mm t M' where "mm_ctor s = kret mm t" "kmalloc_ready t M' cs (P(cs ! 0 := mm # P (cs ! 0)))" "mm \<noteq> NULL"
    "size M \<le> 4 * size M' + 3"
    "vmas t = vmas s" "clock_point t = clock_point s"
    "vma_list (mms t mm) = NULL" "mmap_cache (mms t mm) = NULL" "vma_cnt (mms t mm) = 0"
    "swap_init_ok s = 0 \<longrightarrow> klog t = klog s"
proof -
  obtain mm t M' where t: "kmalloc swap_one mm_struct_t_size s = kret mm t"
      "kmalloc_ready t M' cs (P(cs ! 0 := mm # P (cs ! 0)))" "size M \<le> 4 * size M' + 3" "same_users s t"
    by (rule kmalloc_serves_class [OF ready small_structs(3,1) refl room mem]) auto
  have "mm \<noteq> NULL" using ready_not_null [OF t(2), of 0] by simp
  let ?t = "upd_mm mm (\<lambda>m. m\<lparr>vma_cnt := 0\<rparr>) (upd_mm mm (\<lambda>m. m\<lparr>mm_pgd := NULL\<rparr>)
    (upd_mm mm (\<lambda>m. m\<lparr>mmap_cache := NULL\<rparr>) (upd_mm mm (\<lambda>m. m\<lparr>vma_list := NULL\<rparr>) t)))"
  let ?u = "say (line (''SWAP:'' @ sw_name sw_manager @ '' init OK!!'')) (?t\<lparr>intr_on := True, swap_init_ok := 1\<rparr>)"
  have "mm_ctor s = kret mm (if swap_init_ok t = 0 then ?t else ?u)"
    using t(1) \<open>mm \<noteq> NULL\<close> by (simp add: mm_ctor_def Let_def swap_init_run)
  then show ?thesis
    using t(2-4) \<open>mm \<noteq> NULL\<close> by (intro that [of mm "if swap_init_ok t = 0 then ?t else ?u"]) (simp_all add: same_users_def, simp add: upd_mm_def)
qed

lemma vma_ctor_ready:
  assumes ready: "kmalloc_ready s M cs P" and room: "length (P (cs ! 0)) < cache_objs (class_bytes ! 0)" and "P (cs ! 0) \<noteq> []"
  obtains vma t M' where "vma_ctor a b fl s = kret vma t" "kmalloc_ready t M' cs (P(cs ! 0 := vma # P (cs ! 0)))" "vma \<noteq> NULL"
    "size M \<le> 4 * size M' + 3"
    "vmas t = (vmas s)(vma := \<lparr>vm_next = NULL, vm_prev = NULL, vm_start = a, vm_end = b, vm_flags = fl, vm_mm = NULL\<rparr>)"
    "mms t = mms s" "check_mm_struct t = check_mm_struct s" "swap_init_ok t = swap_init_ok s" "clock_point t = clock_point s"
    "klog t = klog s"
proof -
  obtain vma t M' where t: "kmalloc swap_one vma_region_t_size s = kret vma t"
      "kmalloc_ready t M' cs (P(cs ! 0 := vma # P (cs ! 0)))" "size M \<le> 4 * size M' + 3" "same_users s t"
    by (rule kmalloc_serves_class [OF ready small_structs(4,2) refl room]) (use assms(3) in auto)
  have n: "vma \<noteq> NULL" using ready_not_null [OF t(2), of 0] by simp
  let ?t = "upd_vma vma (\<lambda>_. \<lparr>vm_next = NULL, vm_prev = NULL, vm_start = a, vm_end = b, vm_flags = fl, vm_mm = NULL\<rparr>) t"
  have "vma_ctor a b fl s = kret vma ?t"
    using t(1) n by (cases "vmas t vma") (simp add: vma_ctor_def Let_def upd_vma_def)
  then show ?thesis using t(2-4) n by (intro that [of vma ?t]) (simp_all add: same_users_def, simp_all add: upd_vma_def)
qed

text \<open>The machine after \<open>init_mm\<close>: one region, known to the memory map the fault handler uses.\<close>

definition one_region_map :: "kheap \<Rightarrow> addr \<Rightarrow> addr \<Rightarrow> uint \<Rightarrow> bool" where
  "one_region_map s mm vma kern_end \<longleftrightarrow> check_mm_struct s = mm \<and> mm \<noteq> NULL \<and> mm_pgd (mms s mm) = pgd_kern s \<and>
     mmap_cache (mms s mm) = NULL \<and> vma_cnt (mms s mm) = 2 \<and> vma_chain (vmas s) (vma_list (mms s mm)) [vma] \<and>
     vm_start (vmas s vma) = kern_end \<and> vm_end (vmas s vma) = 0xF0000000 \<and>
     vm_flags (vmas s vma) = PTE_W OR PTE_P OR PTE_U \<and> swap_init_ok s = 1"

lemma init_mm_ready:
  assumes ready: "kmalloc_ready s M cs P" and room: "length (P (cs ! 0)) + 2 \<le> cache_objs (class_bytes ! 0)"
    and mem: "P (cs ! 0) = [] \<Longrightarrow> 2 \<le> size M \<and> unat (heap_top s) + 4096 < 2 ^ 32"
  shows "\<exists>t M' mm vma. init_mm kern_end s = kret () t \<and> kmalloc_ready t M' cs (P(cs ! 0 := vma # mm # P (cs ! 0))) \<and>
    size M \<le> 16 * size M' + 15 \<and> one_region_map t mm vma kern_end \<and> clock_point t = clock_point s \<and>
    (swap_init_ok s = 0 \<longrightarrow> klog t = klog s @ [line ''SWAP:clock_algorithm init OK!!''])"
proof -
  have r1: "length (P (cs ! 0)) < cache_objs (class_bytes ! 0)" using room by simp
  obtain mm t1 M1 where t1: "mm_ctor s = kret mm t1" "kmalloc_ready t1 M1 cs (P(cs ! 0 := mm # P (cs ! 0)))" "mm \<noteq> NULL"
      "size M \<le> 4 * size M1 + 3" "vmas t1 = vmas s" "clock_point t1 = clock_point s"
      "vma_list (mms t1 mm) = NULL" "mmap_cache (mms t1 mm) = NULL" "vma_cnt (mms t1 mm) = 0"
      "swap_init_ok s = 0 \<longrightarrow> klog t1 = klog s"
    by (rule mm_ctor_ready [OF ready r1 mem])
  let ?P1 = "P(cs ! 0 := mm # P (cs ! 0))"
  have ready2: "kmalloc_ready (t1\<lparr>check_mm_struct := mm\<rparr>) M1 cs ?P1" using t1(2) by simp
  have r2: "length (?P1 (cs ! 0)) < cache_objs (class_bytes ! 0)" "?P1 (cs ! 0) \<noteq> []" using room by simp_all
  obtain vma t2 M2 where t2: "vma_ctor kern_end 0xF0000000 (PTE_W OR PTE_P OR PTE_U) (t1\<lparr>check_mm_struct := mm\<rparr>) = kret vma t2"
      "kmalloc_ready t2 M2 cs (?P1(cs ! 0 := vma # ?P1 (cs ! 0)))" "vma \<noteq> NULL" "size M1 \<le> 4 * size M2 + 3"
      "vmas t2 = (vmas (t1\<lparr>check_mm_struct := mm\<rparr>))(vma := \<lparr>vm_next = NULL, vm_prev = NULL, vm_start = kern_end,
         vm_end = 0xF0000000, vm_flags = PTE_W OR PTE_P OR PTE_U, vm_mm = NULL\<rparr>)"
      "mms t2 = mms (t1\<lparr>check_mm_struct := mm\<rparr>)" "check_mm_struct t2 = check_mm_struct (t1\<lparr>check_mm_struct := mm\<rparr>)"
      "swap_init_ok t2 = swap_init_ok (t1\<lparr>check_mm_struct := mm\<rparr>)" "clock_point t2 = clock_point (t1\<lparr>check_mm_struct := mm\<rparr>)"
      "klog t2 = klog (t1\<lparr>check_mm_struct := mm\<rparr>)"
    by (rule vma_ctor_ready [OF ready2 r2])
  have m2: "vma_list (mms t2 mm) = NULL" "check_mm_struct t2 = mm" "vm_next (vmas t2 vma) = NULL"
    using t2(5-7) t1(7) by simp_all
  let ?t3 = "upd_vma vma (\<lambda>r. r\<lparr>vm_mm := mm\<rparr>)
    (upd_mm mm (\<lambda>m. if vma_list m = NULL then m\<lparr>vma_list := vma, vma_cnt := 2 + vma_cnt m\<rparr> else m\<lparr>vma_cnt := vma_cnt m + 1\<rparr>) t2)"
  let ?t4 = "upd_mm mm (\<lambda>m. m\<lparr>mm_pgd := pgd_kern ?t3\<rparr>) ?t3"
  let ?t = "say (line (''SWAP:'' @ sw_name sw_manager @ '' init OK!!'')) (?t4\<lparr>intr_on := True, swap_init_ok := 1\<rparr>)"
  have ins: "insert_vma_mm vma mm t2 = kret () ?t3" using insert_vma_mm_run [of t2 mm vma] m2 by simp
  have "check_mm_struct ?t3 = mm" using m2 by (simp add: upd_vma_def)
  then have "init_mm kern_end s = kret () ?t"
    using t1(1) t2(1) m2(2) ins
    by (simp add: init_mm_def Let_def swap_init_run)
  moreover have "kmalloc_ready ?t M2 cs (P(cs ! 0 := vma # mm # P (cs ! 0)))" using t2(2) by simp
  moreover have "one_region_map ?t mm vma kern_end"
    using t1(3,7-9) t2(3,5,6) m2 by (simp add: one_region_map_def upd_vma_def) 
  moreover have "clock_point ?t = clock_point s" using t1(6) t2(9) by (simp add: upd_vma_def)
  moreover have "swap_init_ok s = 0 \<longrightarrow> klog ?t = klog s @ [line ''SWAP:clock_algorithm init OK!!'']"
    using t1(10) t2(10) by (simp add: say_def sw_manager_def upd_vma_def upd_mm_def)
  moreover have "size M \<le> 16 * size M2 + 15" using t1(4) t2(4) by simp
  ultimately show ?thesis by blast
qed

end
