(* ===== verification/Heap_Samples.thy ===== *)
theory Heap_Samples
  imports Samples Slab_Free Mm_Init
begin

text \<open>
  A small machine for the properties of virtual memory and of the heap: thirty-two free frames in one
  block and one in use, a page directory at \<open>0x1000\<close>, an empty heap.
\<close>

definition heap_pages :: "pgptr \<Rightarrow> phy_page" where
  "heap_pages p = (case p of Pnull \<Rightarrow> frame_at 0 Pnull Pnull
     | PG j \<Rightarrow> if j < 33 then frame_at (0x101000 + 4096 * of_nat j) (if j < 31 then PG (Suc j) else Pnull)
                 (if 0 < j \<and> j < 32 then PG (j - 1) else Pnull)
               else frame_at 0 Pnull Pnull)"

definition no_swap :: "'s \<Rightarrow> (int, 's) run" where
  "no_swap s = kret 0 s"

definition zero_gates :: "nat \<Rightarrow> gatedesc" where
  "zero_gates _ = \<lparr>off_15_0 = 0, gd_cs = 0, gd_args = 0, gd_rsv1 = 0, gd_type = 0, gd_s = 0, gd_dpl = 0,
     gd_p = 0, off_31_16 = 0\<rparr>"

definition no_cache :: kmem_cache where
  "no_cache = \<lparr>csize = 0, obj_per_slab = 0, cname = [], ref_cnt = 0, c_prev = NULL, c_next = NULL, order = 0,
     free_slabs = NULL, partial_slabs = NULL, full_slabs = NULL\<rparr>"

definition no_vma :: vma_region where
  "no_vma = \<lparr>vm_next = NULL, vm_prev = NULL, vm_start = 0, vm_end = 0, vm_flags = 0, vm_mm = NULL\<rparr>"

definition no_mm :: mm_struct where
  "no_mm = \<lparr>vma_list = NULL, mmap_cache = NULL, mm_pgd = NULL, vma_cnt = 0, pglist = Pnull\<rparr>"

definition sample_heap :: "words \<Rightarrow> kheap" where
  "sample_heap m = \<lparr>phy_pages = heap_pages,
     buddy_table = (\<lambda>i. \<lparr>page_blk_list = Pnull, blk_num = 0\<rparr>)(5 := \<lparr>page_blk_list = PG 0, blk_num = 1\<rparr>),
     phy_page_num = 33, klog = [], words = m, pgd_kern = 0xC0001000, cr3 = 0x1000, fault_handler = False,
     slabs = (\<lambda>_. new_slab 0 Pnull 0 0), caches = (\<lambda>_. no_cache), free_ids = (\<lambda>_. 0), heap_top = HEAP_START,
     kmem_caches = NULL, vmas = (\<lambda>_. no_vma), mms = (\<lambda>_. no_mm), check_mm_struct = NULL, swap_init_ok = 0,
     clock_point = Pnull, intr_on = False\<rparr>"

definition free_frames :: "pgptr list" where
  "free_frames = map PG [0..<32]"

definition thirty_two :: blocks where
  "thirty_two = (\<lambda>_. [])(5 := free_frames)"

lemma pages_of_thirty_two: "pages_of thirty_two = mset free_frames"
  using pages_of_upd [of 5 "\<lambda>_. []" free_frames] by (simp add: thirty_two_def)

lemma one_each_thirty_two: "one_each (mset free_frames)"
  unfolding one_each_distinct free_frames_def by (simp add: distinct_map inj_on_def del: upt_rec_numeral)

lemma free_frames_cases: "p \<in> set free_frames \<Longrightarrow> \<exists>j<32. p = PG j"
  by (auto simp: free_frames_def simp del: upt_rec_numeral)

lemma free_frames_nonempty: "free_frames \<noteq> []"
  by (simp add: free_frames_def del: upt_rec_numeral)

lemma frame_addr:
  "j < 33 \<Longrightarrow> start_addr (phy_pages (sample_heap m) (PG j)) = 0x101000 + 4096 * of_nat j"
  "j < 33 \<Longrightarrow> unat (0x101000 + 4096 * of_nat j :: uint) = 0x101000 + 4096 * j"
proof -
  show "start_addr (phy_pages (sample_heap m) (PG j)) = 0x101000 + 4096 * of_nat j" if "j < 33"
    using that by (simp add: sample_heap_def heap_pages_def frame_at_def)
  assume j: "j < 33"
  have "(0x101000 + 4096 * of_nat j :: uint) = of_nat (0x101000 + 4096 * j)" by simp
  also have "unat \<dots> = 0x101000 + 4096 * j" using j by (simp only: unat_of_nat) simp
  finally show "unat (0x101000 + 4096 * of_nat j :: uint) = 0x101000 + 4096 * j" .
qed

lemma free_frames_dl:
  "j \<le> 32 \<Longrightarrow> dl (sample_heap m) (if j = 0 then Pnull else PG (j - 1)) (if j < 32 then PG j else Pnull) (map PG [j..<32]) Pnull"
proof (induction "32 - j" arbitrary: j)
  case (Suc n)
  then have j: "j < 32" "[j..<32] = j # [Suc j..<32]" by (simp_all add: upt_conv_Cons del: upt_rec_numeral)
  have "dl (sample_heap m) (PG j) (if Suc j < 32 then PG (Suc j) else Pnull) (map PG [Suc j..<32]) Pnull"
    using Suc(1) [of "Suc j"] Suc(2) j(1) by (simp del: upt_rec_numeral)
  moreover have "nxt (sample_heap m) (PG j) = (if Suc j < 32 then PG (Suc j) else Pnull)"
    "prv (sample_heap m) (PG j) = (if j = 0 then Pnull else PG (j - 1))"
    using j(1) by (simp_all add: sample_heap_def heap_pages_def frame_at_def nxt_def prv_def)
  ultimately show ?case using j by (simp del: upt_rec_numeral)
qed simp

lemma sample_heap_rel: "buddy_rel (sample_heap m) thirty_two"
proof -
  have "frame_ok (sample_heap m) p" if "p \<in> set free_frames" for p
  proof -
    obtain j where j: "j < 32" "p = PG j" using free_frames_cases [OF \<open>p \<in> set free_frames\<close>] by blast
    then show ?thesis using frame_addr(1) [of j m] frame_addr(2) [of j] by (simp add: frame_ok_def word_less_nat_alt) (simp add: sample_heap_def)
  qed
  moreover have "class_rel (sample_heap m) i (thirty_two i)" for i
    using free_frames_dl [of 0 m]
    by (auto simp: class_rel_def thirty_two_def free_frames_def lst_def num_def simp del: upt_rec_numeral)
      (simp_all add: sample_heap_def)
  ultimately show ?thesis
    using one_each_thirty_two by (simp add: buddy_rel_def pages_of_thirty_two) (simp add: sample_heap_def)
qed

lemma sample_heap_pool: "buddy_pool (sample_heap m) (mset free_frames)"
proof -
  have "ref_num (phy_pages (sample_heap m) p) = 0" for p
    by (cases p) (simp_all add: sample_heap_def heap_pages_def frame_at_def)
  then show ?thesis using sample_heap_rel pages_of_thirty_two unfolding buddy_pool_def by metis
qed

lemma sample_heap_apart: "frames_apart (sample_heap m)"
proof -
  have "start_addr (phy_pages (sample_heap m) (PG j)) \<noteq> start_addr (phy_pages (sample_heap m) (PG k))" if "j < k" "k < 33" for j k
  proof -
    have "unat (start_addr (phy_pages (sample_heap m) (PG j))) = 0x101000 + 4096 * j"
      "unat (start_addr (phy_pages (sample_heap m) (PG k))) = 0x101000 + 4096 * k"
      using that frame_addr [of j] frame_addr [of k] by simp_all
    with that(1) show ?thesis by (auto simp del: of_nat_mult)
  qed
  then show ?thesis by (simp add: frames_apart_def) (simp add: sample_heap_def)
qed

lemma sample_find: "k < 33 \<Longrightarrow> FindPageIndex (0x101000 + 4096 * of_nat k) (sample_heap m) = int k"
  using FindPageIndex_first [OF sample_heap_apart [of m], of k] frame_addr(1) [of k m] by (simp add: sample_heap_def)

text \<open>The empty directory, and one whose heap entry points to a table at \<open>0x2000\<close>.\<close>

definition heap_dir :: words where
  "heap_dir = (\<lambda>_. 0)(0xC0001E00 := 0x2003)"

lemma table_none: "table (sample_heap (\<lambda>_. 0)) pgd v = 0"
  by (simp add: table_def rd32_def sample_heap_def)

lemma PGD_slot: "0xC0001000 + 4 * PGD_IDX v = 0xC0001E00 \<longleftrightarrow> PGD_IDX v = 896"
  using slot_inj [of "0xC0001000" "0xC0001000" "PGD_IDX v" "896"] idx_less(1) [of v] by (simp add: aligned_def)

lemma table_heap: "table (sample_heap heap_dir) 0xC0001000 v = (if PGD_IDX v = 896 then 0x2000 else 0)"
  by (simp add: table_def rd32_def sample_heap_def heap_dir_def PGD_slot PAGE_MASK_def)

lemma sample_aligned: "0xC0001000 AND 0xFFF = (0 :: uint)"
  by simp

lemma sample_tables:
  "tables_ok (sample_heap (\<lambda>_. 0)) (pgd_kern (sample_heap (\<lambda>_. 0)))" "tables_ok (sample_heap heap_dir) 0xC0001000"
proof -
  show "tables_ok (sample_heap (\<lambda>_. 0)) (pgd_kern (sample_heap (\<lambda>_. 0)))"
    unfolding tables_ok_def table_none by (simp add: aligned_def sample_heap_def)
  have "table (sample_heap heap_dir) 0xC0001000 v \<noteq> 0 \<Longrightarrow> PGD_IDX v = 896" for v
    unfolding table_heap by (simp split: if_splits)
  moreover have "table (sample_heap heap_dir) 0xC0001000 v + PAGE_OFFSET \<noteq> 0xC0001000" for v
    unfolding table_heap by (simp add: PAGE_OFFSET_def)
  ultimately show "tables_ok (sample_heap heap_dir) 0xC0001000"
    unfolding tables_ok_def by (metis aligned_def sample_aligned)
qed

lemma free_frame_addr:
  assumes "p \<in> set free_frames"
  shows "aligned (start_addr (phy_pages (sample_heap m) p))" "0x101000 \<le> unat (start_addr (phy_pages (sample_heap m) p))"
    "start_addr (phy_pages (sample_heap m) p) + PAGE_OFFSET \<noteq> 0xC0001000"
proof -
  obtain j where j: "j < 32" "p = PG j" using free_frames_cases [OF assms] by blast
  then have u: "unat (start_addr (phy_pages (sample_heap m) p)) = 0x101000 + 4096 * j"
    using frame_addr(1) [of j m] frame_addr(2) [of j] by simp
  have "4096 dvd 0x101000 + 4096 * j" by (intro dvd_add) simp_all
  then show "aligned (start_addr (phy_pages (sample_heap m) p))" by (simp add: aligned_nat u)
  show "0x101000 \<le> unat (start_addr (phy_pages (sample_heap m) p))" using u by simp
  have "unat (start_addr (phy_pages (sample_heap m) p) + PAGE_OFFSET) = unat (start_addr (phy_pages (sample_heap m) p)) + 3221225472"
    by (rule offset_nat) (use u j in simp)
  then show "start_addr (phy_pages (sample_heap m) p) + PAGE_OFFSET \<noteq> 0xC0001000" using u by auto
qed

lemma sample_heap_spare:
  assumes "tables_ok (sample_heap m) 0xC0001000" "\<And>w. unat (table (sample_heap m) 0xC0001000 w) < 0x101000"
  shows "heap_ok (sample_heap m) (mset free_frames)"
proof -
  have g: "pgd_kern (sample_heap m) = 0xC0001000" by (simp add: sample_heap_def)
  have "start_addr (phy_pages (sample_heap m) p) \<noteq> 0 \<and> (\<forall>w. table (sample_heap m) 0xC0001000 w \<noteq> start_addr (phy_pages (sample_heap m) p))"
    if "p \<in> set free_frames" for p
    using free_frame_addr(2) [OF that, of m] assms(2) by (metis leD unsigned_0 zero_less_numeral)
  then have "spare_frames (sample_heap m) 0xC0001000 (mset free_frames)"
    using free_frame_addr(1,3) by (auto simp: spare_frames_def Let_def)
  then show ?thesis using assms(1) sample_heap_pool sample_heap_apart by (simp add: heap_ok_def g)
qed

lemma sample_heap_ok: "heap_ok (sample_heap (\<lambda>_. 0)) (mset free_frames)" "heap_ok (sample_heap heap_dir) (mset free_frames)"
proof -
  have "tables_ok (sample_heap (\<lambda>_. 0)) 0xC0001000" using sample_tables(1) by (simp add: sample_heap_def)
  then show "heap_ok (sample_heap (\<lambda>_. 0)) (mset free_frames)" by (rule sample_heap_spare) (simp add: table_none)
  show "heap_ok (sample_heap heap_dir) (mset free_frames)"
    by (rule sample_heap_spare [OF sample_tables(2)]) (simp add: table_heap)
qed

section \<open>A memory map\<close>

text \<open>One region that reaches over the heap, whose page table is there.\<close>

definition sample_mm :: kheap where
  "sample_mm = (sample_heap heap_dir)\<lparr>
     vmas := (\<lambda>_. no_vma)(0xE0001100 := \<lparr>vm_next = NULL, vm_prev = NULL, vm_start = 0xC0110000, vm_end = 0xF0000000,
       vm_flags = PTE_W OR PTE_P OR PTE_U, vm_mm = 0xE0001140\<rparr>),
     mms := (\<lambda>_. no_mm)(0xE0001140 := no_mm\<lparr>vma_list := 0xE0001100, mm_pgd := 0xC0001000, vma_cnt := 2\<rparr>),
     check_mm_struct := 0xE0001140, swap_init_ok := 1\<rparr>"

lemma sample_mm_facts:
  "heap_ok sample_mm (mset free_frames)" "check_mm_struct sample_mm = 0xE0001140" "pgd_kern sample_mm = 0xC0001000"
  "mm_pgd (mms sample_mm 0xE0001140) = pgd_kern sample_mm" "clock_point sample_mm = Pnull"
  "vma_chain (vmas sample_mm) (vma_list (mms sample_mm 0xE0001140)) [0xE0001100]"
  "vm_flags (vmas sample_mm 0xE0001100) AND PTE_W \<noteq> 0"
  "region_for sample_mm 0xE0001140 [0xE0001100] 0xE0008700 = 0xE0001100"
  "region_for sample_mm 0xE0001140 [0xE0001100] 0xB0000000 = NULL"
  "table sample_mm 0xC0001000 v = (if PGD_IDX v = 896 then 0x2000 else 0)"
  "pte_of sample_mm 0xC0001000 0xE0008700 = 0"
proof -
  show "heap_ok sample_mm (mset free_frames)"
    using sample_heap_ok(2) heap_ok_cong [of sample_mm "sample_heap heap_dir"] by (simp add: sample_mm_def)
  have w: "words sample_mm = heap_dir" by (simp add: sample_mm_def sample_heap_def)
  have "words sample_mm = words (sample_heap heap_dir)" by (simp add: sample_mm_def)
  then have t: "table sample_mm = table (sample_heap heap_dir)" using table_cong by blast
  show "table sample_mm 0xC0001000 v = (if PGD_IDX v = 896 then 0x2000 else 0)" using table_heap by (simp add: t)
  have "pte_slot sample_mm 0xC0001000 0xE0008700 = 0xC0002020"
    by (simp add: pte_slot_def t table_heap PGD_IDX_def PTE_IDX_def PAGE_OFFSET_def)
  then show "pte_of sample_mm 0xC0001000 0xE0008700 = 0"
    by (simp add: pte_of_def rd32_def w heap_dir_def)
qed (simp_all add: sample_mm_def sample_heap_def no_mm_def no_vma_def region_for_def covers_def PTE_W_def PTE_P_def PTE_U_def)

section \<open>A slab\<close>

text \<open>The heap after a first slab of two objects of 44 bytes has been set up at its start.\<close>

definition one_slab :: kheap where
  "one_slab = (sample_heap (\<lambda>_. 0))\<lparr>slabs := (\<lambda>_. new_slab HEAP_START (PG 32) 1 2),
     free_ids := (\<lambda>b. ucast ((b - (HEAP_START + slab_t_size)) div 2))\<rparr>"

lemma one_slab_pool: "slab_pool HEAP_START 44 2 one_slab []"
proof (rule new_slab_pool)
  show "slab_fits HEAP_START 44 2 1" by (simp add: slab_fits_def HEAP_START_def)
  show "slabs one_slab HEAP_START = new_slab HEAP_START (PG 32) 1 (of_nat 2)" by (simp add: one_slab_def)
  show "free_ids one_slab (HEAP_START + slab_t_size + 2 * of_nat i) = of_nat i" if "i < 2" for i
  proof -
    have "i = 0 \<or> i = 1" using that by auto
    then show ?thesis by (auto simp: one_slab_def HEAP_START_def slab_t_size_def)
  qed
qed

text \<open>The heap after \<open>init_slab\<close>, with the static cache at \<open>0xC0300000\<close>.\<close>

lemma sample_init:
  "\<exists>cs t M'. init_slab swap 0xC0300000 (sample_heap (\<lambda>_. 0)) = kret () t \<and>
     kmalloc_ready t M' cs ((\<lambda>_. [])(kmem_caches t := rev cs)) \<and> 2 \<le> size M' \<and> unat (heap_top t) + 4096 < 2 ^ 32"
proof -
  have "heap_top (sample_heap (\<lambda>_. 0)) = HEAP_START" by (simp add: sample_heap_def)
  then obtain cs t M' where "init_slab swap 0xC0300000 (sample_heap (\<lambda>_. 0)) = kret () t"
      "kmalloc_ready t M' cs ((\<lambda>_. [])(kmem_caches t := rev cs))" "size (mset free_frames) \<le> 16 * size M' + 15"
      "unat (heap_top t) \<le> unat HEAP_START + 8192"
    using init_slab_ready [OF sample_heap_ok(1), of "0xC0300000" swap] by (auto simp: HEAP_START_def free_frames_def)
  moreover from this have "2 \<le> size M'" "unat (heap_top t) + 4096 < 2 ^ 32"
    by (simp_all add: free_frames_def HEAP_START_def)
  ultimately show ?thesis by blast
qed

end
