(* ===== verification/Elf.thy ===== *)
theory Elf
  imports Kstring Kern_List Paging
begin

text \<open>
  libs/elf.h, src/debug/elf.c and the boot information of libs/multiboot.h, over byte memory. A
  packed structure is a record; \<open>peek16\<close> and \<open>peek32\<close> read its fields little-endian at their
  offsets, and \<open>le16\<close> and \<open>le32\<close> are the bytes a field is stored as. \<open>elf_from_multiboot\<close> finds the
  string table and the symbol table of the kernel among the sections the boot loader reports, and
  \<open>elf_lookup_symbol\<close> the name of the function around an address. The memory is the address space of
  the kernel under the boot tables, where the first 8 MiB are seen at their own addresses too.
\<close>

section \<open>Words in byte memory\<close>

definition peek16 :: "mem \<Rightarrow> addr \<Rightarrow> ushort" where
  "peek16 m a = ucast (m a) OR push_bit 8 (ucast (m (a + 1)))"

definition peek32 :: "mem \<Rightarrow> addr \<Rightarrow> uint" where
  "peek32 m a = ucast (m a) OR push_bit 8 (ucast (m (a + 1))) OR push_bit 16 (ucast (m (a + 2)))
     OR push_bit 24 (ucast (m (a + 3)))"

definition le16 :: "ushort \<Rightarrow> uchar list" where
  "le16 w = [ucast w, ucast (drop_bit 8 w)]"

definition le32 :: "uint \<Rightarrow> uchar list" where
  "le32 w = [ucast w, ucast (drop_bit 8 w), ucast (drop_bit 16 w), ucast (drop_bit 24 w)]"

lemma le_length [simp]: "length (le16 h) = 2" "length (le32 w) = 4"
  by (simp_all add: le16_def le32_def)

lemma peek16_le16: "bytes m a (le16 w) \<Longrightarrow> peek16 m a = w"
proof -
  assume "bytes m a (le16 w)"
  then have e: "m a = ucast w" "m (a + 1) = ucast (drop_bit 8 w)" by (simp_all add: le16_def)
  show ?thesis
  proof (rule bit_word_eqI)
    fix n assume "n < LENGTH(16)"
    then show "bit (peek16 m a) n = bit w n"
      unfolding peek16_def e by (auto simp: bit_simps not_le not_less)
  qed
qed

lemma peek32_le32: "bytes m a (le32 w) \<Longrightarrow> peek32 m a = w"
proof -
  assume "bytes m a (le32 w)"
  then have e: "m a = ucast w" "m (a + 1) = ucast (drop_bit 8 w)" "m (a + 2) = ucast (drop_bit 16 w)"
    "m (a + 3) = ucast (drop_bit 24 w)" by (simp_all add: le32_def ac_simps)
  show ?thesis
  proof (rule bit_word_eqI)
    fix n assume "n < LENGTH(32)"
    then show "bit (peek32 m a) n = bit w n"
      unfolding peek32_def e by (cases "n < 8"; cases "n < 16"; cases "n < 24") (auto simp: bit_simps not_le not_less)
  qed
qed

section \<open>The structures\<close>

record multiboot =
  mb_flags :: uint
  mb_mem_lower :: uint
  mb_mem_upper :: uint
  mb_boot_device :: uint
  mb_cmdline :: uint
  mb_mods_count :: uint
  mb_mods_addr :: uint
  mb_num :: uint
  mb_size :: uint
  mb_addr :: uint
  mb_shndx :: uint
  mb_mmap_length :: uint
  mb_mmap_addr :: uint
  mb_drives_length :: uint
  mb_drives_addr :: uint
  mb_config_table :: uint
  mb_boot_loader_name :: uint
  mb_apm_table :: uint
  mb_vbe_control_info :: uint
  mb_vbe_mode_info :: uint
  mb_vbe_mode :: uint
  mb_vbe_interface_seg :: uint
  mb_vbe_interface_off :: uint
  mb_vbe_interface_len :: uint

record elf_section_header =
  sh_name :: uint
  sh_type :: uint
  sh_flags :: uint
  sh_addr :: uint
  sh_offset :: uint
  sh_size :: uint
  sh_link :: uint
  sh_info :: uint
  sh_addralign :: uint
  sh_entsize :: uint

record elf_symbol =
  st_name :: uint
  st_value :: uint
  st_size :: uint
  st_info :: uchar
  st_other :: uchar
  st_shndx :: ushort

record elf =
  symtab :: addr
  symtabsz :: uint
  strtab :: addr
  strtabsz :: uint

definition multiboot_at :: "mem \<Rightarrow> addr \<Rightarrow> multiboot" where
  "multiboot_at m p =
     \<lparr>mb_flags = peek32 m p, mb_mem_lower = peek32 m (p + 4), mb_mem_upper = peek32 m (p + 8),
      mb_boot_device = peek32 m (p + 12), mb_cmdline = peek32 m (p + 16), mb_mods_count = peek32
      m (p + 20), mb_mods_addr = peek32 m (p + 24), mb_num = peek32 m (p + 28), mb_size = peek32
      m (p + 32), mb_addr = peek32 m (p + 36), mb_shndx = peek32 m (p + 40), mb_mmap_length =
      peek32 m (p + 44), mb_mmap_addr = peek32 m (p + 48), mb_drives_length = peek32 m (p + 52),
      mb_drives_addr = peek32 m (p + 56), mb_config_table = peek32 m (p + 60),
      mb_boot_loader_name = peek32 m (p + 64), mb_apm_table = peek32 m (p + 68),
      mb_vbe_control_info = peek32 m (p + 72), mb_vbe_mode_info = peek32 m (p + 76), mb_vbe_mode
      = peek32 m (p + 80), mb_vbe_interface_seg = peek32 m (p + 84), mb_vbe_interface_off =
      peek32 m (p + 88), mb_vbe_interface_len = peek32 m (p + 92)\<rparr>"

definition section_header_at :: "mem \<Rightarrow> addr \<Rightarrow> elf_section_header" where
  "section_header_at m p =
     \<lparr>sh_name = peek32 m p, sh_type = peek32 m (p + 4), sh_flags = peek32 m (p + 8), sh_addr = peek32
      m (p + 12), sh_offset = peek32 m (p + 16), sh_size = peek32 m (p + 20), sh_link = peek32 m
      (p + 24), sh_info = peek32 m (p + 28), sh_addralign = peek32 m (p + 32), sh_entsize =
      peek32 m (p + 36)\<rparr>"

definition symbol_at :: "mem \<Rightarrow> addr \<Rightarrow> elf_symbol" where
  "symbol_at m p =
     \<lparr>st_name = peek32 m p, st_value = peek32 m (p + 4), st_size = peek32 m (p + 8),
      st_info = m (p + 12), st_other = m (p + 13), st_shndx = peek16 m (p + 14)\<rparr>"

text \<open>The sizes of the packed structures, and their bytes.\<close>

definition section_header_size :: addr where "section_header_size = 40"
definition symbol_size :: addr where "symbol_size = 16"

definition multiboot_bytes :: "multiboot \<Rightarrow> uchar list" where
  "multiboot_bytes b = concat (map le32
     [mb_flags b, mb_mem_lower b, mb_mem_upper b, mb_boot_device b, mb_cmdline b, mb_mods_count b,
      mb_mods_addr b, mb_num b, mb_size b, mb_addr b, mb_shndx b, mb_mmap_length b, mb_mmap_addr
      b, mb_drives_length b, mb_drives_addr b, mb_config_table b, mb_boot_loader_name b,
      mb_apm_table b, mb_vbe_control_info b, mb_vbe_mode_info b, mb_vbe_mode b,
      mb_vbe_interface_seg b, mb_vbe_interface_off b, mb_vbe_interface_len b])"

definition section_header_bytes :: "elf_section_header \<Rightarrow> uchar list" where
  "section_header_bytes h = concat (map le32
     [sh_name h, sh_type h, sh_flags h, sh_addr h, sh_offset h, sh_size h, sh_link h, sh_info h,
      sh_addralign h, sh_entsize h])"

definition symbol_bytes :: "elf_symbol \<Rightarrow> uchar list" where
  "symbol_bytes s =
     le32 (st_name s) @ le32 (st_value s) @ le32 (st_size s) @ [st_info s, st_other s] @ le16 (st_shndx s)"

section \<open>Finding the tables\<close>

text \<open>
  \<open>lit1\<close> and \<open>lit2\<close> are the addresses of the literals \<open>".strtab"\<close> and \<open>".symtab"\<close>. The local \<open>elf\<close>
  of \<open>elf_from_multiboot\<close> starts with what the stack holds, \<open>elf0\<close>; the loop counts \<open>n\<close> sections
  down from \<open>mb->num\<close>, and \<open>i\<close> up.
\<close>

fun sections_loop :: "mem \<Rightarrow> addr \<Rightarrow> addr \<Rightarrow> addr \<Rightarrow> uint \<Rightarrow> nat \<Rightarrow> nat \<Rightarrow> elf \<Rightarrow> elf option" where
  "sections_loop m lit1 lit2 sh shstrtab 0 i elf = Some elf"
| "sections_loop m lit1 lit2 sh shstrtab (Suc n) i elf =
     (let h = section_header_at m (sh + section_header_size * of_nat i);
          name = shstrtab + sh_name h + PAGE_OFFSET
      in Option.bind (strcmp m name lit1) (\<lambda>r.
         let elf = (if r = 0 then elf\<lparr>strtab := sh_addr h + PAGE_OFFSET, strtabsz := sh_size h\<rparr> else elf)
         in Option.bind (strcmp m name lit2) (\<lambda>r.
         let elf = (if r = 0 then elf\<lparr>symtab := sh_addr h + PAGE_OFFSET, symtabsz := sh_size h\<rparr> else elf)
         in sections_loop m lit1 lit2 sh shstrtab n (Suc i) elf)))"

definition elf_from_multiboot :: "mem \<Rightarrow> addr \<Rightarrow> addr \<Rightarrow> addr \<Rightarrow> elf \<Rightarrow> elf option" where
  "elf_from_multiboot m lit1 lit2 mb elf0 =
     (let b = multiboot_at m mb;
          sh = mb_addr b;
          shstrtab = sh_addr (section_header_at m (sh + section_header_size * mb_shndx b))
      in sections_loop m lit1 lit2 sh shstrtab (unat (mb_num b)) 0 elf0)"

section \<open>Looking a symbol up\<close>

definition ELF_PROG_FLAG_WRITE :: uint where "ELF_PROG_FLAG_WRITE = 2"

definition ELF32_ST_TYPE :: "uchar \<Rightarrow> uint" where "ELF32_ST_TYPE i = ucast i AND 0xF"

fun lookup_loop :: "mem \<Rightarrow> uint \<Rightarrow> elf \<Rightarrow> nat \<Rightarrow> nat \<Rightarrow> addr" where
  "lookup_loop m a elf 0 i = NULL"
| "lookup_loop m a elf (Suc n) i =
     (let s = symbol_at m (symtab elf + symbol_size * of_nat i)
      in if ELF32_ST_TYPE (st_info s) \<noteq> ELF_PROG_FLAG_WRITE then lookup_loop m a elf n (Suc i)
         else if a \<ge> st_value s \<and> a < st_value s + st_size s then strtab elf + st_name s
         else lookup_loop m a elf n (Suc i))"

definition elf_lookup_symbol :: "mem \<Rightarrow> uint \<Rightarrow> elf \<Rightarrow> addr" where
  "elf_lookup_symbol m a elf = lookup_loop m a elf (unat (symtabsz elf div symbol_size)) 0"

section \<open>Structures in memory\<close>

lemma le32_split: "bytes m p (le32 w @ xs) \<longleftrightarrow> bytes m p (le32 w) \<and> bytes m (p + 4) xs"
  by (simp add: bytes_append)

lemma le16_split: "bytes m p (le16 w @ xs) \<longleftrightarrow> bytes m p (le16 w) \<and> bytes m (p + 2) xs"
  by (simp add: bytes_append)

lemma multiboot_layout:
  assumes "bytes m p (multiboot_bytes b)"
  shows "multiboot_at m p = b"
  using assms unfolding multiboot_bytes_def
  by (simp add: multiboot_at_def le32_split peek32_le32 add.assoc)

lemma section_header_layout:
  assumes "bytes m p (section_header_bytes h)"
  shows "section_header_at m p = h"
  using assms unfolding section_header_bytes_def
  by (simp add: section_header_at_def le32_split peek32_le32 add.assoc)

lemma symbol_layout:
  assumes "bytes m p (symbol_bytes s)"
  shows "symbol_at m p = s"
  using assms unfolding symbol_bytes_def
  by (simp add: symbol_at_def le32_split peek32_le32 peek16_le16 add.assoc)

lemma table_layout:
  assumes "bytes m p (concat (map f xs))" "\<And>x. length (f x) = k" "j < length xs"
  shows "bytes m (p + of_nat k * of_nat j) (f (xs ! j))"
  using assms(1,3)
proof (induction xs arbitrary: p j)
  case (Cons x xs)
  then have b: "bytes m p (f x)" "bytes m (p + of_nat k) (concat (map f xs))"
    by (simp_all add: bytes_append assms(2))
  show ?case
  proof (cases j)
    case (Suc i)
    then show ?thesis using Cons.IH [OF b(2), of i] Cons.prems(2) by (simp add: algebra_simps)
  qed (use b(1) in simp)
qed simp

lemma struct_length [simp]:
  "length (section_header_bytes h) = 40" "length (symbol_bytes s) = 16" "length (multiboot_bytes b) = 96"
  by (simp_all add: section_header_bytes_def symbol_bytes_def multiboot_bytes_def)

lemma section_table:
  assumes "bytes m p (concat (map section_header_bytes shs))" "j < length shs"
  shows "section_header_at m (p + section_header_size * of_nat j) = shs ! j"
  using section_header_layout [OF table_layout [OF assms(1) _ assms(2), of 40]]
  by (simp add: section_header_size_def)

lemma symbol_table:
  assumes "bytes m p (concat (map symbol_bytes syms))" "j < length syms"
  shows "symbol_at m (p + symbol_size * of_nat j) = syms ! j"
  using symbol_layout [OF table_layout [OF assms(1) _ assms(2), of 16]] by (simp add: symbol_size_def)

section \<open>What the search of the sections finds\<close>

text \<open>Comparing with a literal ends, wherever the other pointer leads.\<close>

lemma strcmp_literal: "cstr m q ys \<Longrightarrow> strcmp m p q = Some (if cstr m p ys then 0 else 1)"
proof (induction ys arbitrary: p q)
  case (Cons y ys)
  then show ?case by (auto simp: strcmp.simps [of m p q])
qed (simp add: strcmp.simps [of m])

definition strtab_text :: "uchar list" where "strtab_text = map of_char ''.strtab''"
definition symtab_text :: "uchar list" where "symtab_text = map of_char ''.symtab''"

definition named :: "mem \<Rightarrow> uint \<Rightarrow> uchar list \<Rightarrow> elf_section_header \<Rightarrow> bool" where
  "named m shstrtab nm h \<longleftrightarrow> cstr m (shstrtab + sh_name h + PAGE_OFFSET) nm"

definition note_section :: "mem \<Rightarrow> uint \<Rightarrow> elf_section_header \<Rightarrow> elf \<Rightarrow> elf" where
  "note_section m shstrtab h elf =
     (let elf = (if named m shstrtab strtab_text h
                 then elf\<lparr>strtab := sh_addr h + PAGE_OFFSET, strtabsz := sh_size h\<rparr> else elf)
      in if named m shstrtab symtab_text h
         then elf\<lparr>symtab := sh_addr h + PAGE_OFFSET, symtabsz := sh_size h\<rparr> else elf)"

lemma sections_loop_fold:
  assumes "cstr m lit1 strtab_text" "cstr m lit2 symtab_text"
  shows "sections_loop m lit1 lit2 sh shstrtab n i elf =
    Some (fold (\<lambda>j. note_section m shstrtab (section_header_at m (sh + section_header_size * of_nat j))) [i..<i + n] elf)"
proof (induction n arbitrary: i elf)
  case (Suc n)
  have "[i..<i + Suc n] = i # [Suc i..<Suc i + n]" by (simp add: upt_conv_Cons)
  then show ?case
    by (simp add: Suc.IH strcmp_literal [OF assms(1)] strcmp_literal [OF assms(2)] note_section_def named_def Let_def
        del: upt_Suc)
qed simp

lemma sections_fold:
  assumes "\<And>j. j < n \<Longrightarrow> named m st strtab_text (h j) = (j = a)" "\<And>j. j < n \<Longrightarrow> named m st symtab_text (h j) = (j = b)"
  shows "fold (\<lambda>j. note_section m st (h j)) [0..<n] elf =
    (let elf = (if a < n then elf\<lparr>strtab := sh_addr (h a) + PAGE_OFFSET, strtabsz := sh_size (h a)\<rparr> else elf)
     in if b < n then elf\<lparr>symtab := sh_addr (h b) + PAGE_OFFSET, symtabsz := sh_size (h b)\<rparr> else elf)"
  using assms
proof (induction n)
  case (Suc n)
  have "fold (\<lambda>j. note_section m st (h j)) [0..<n] elf =
    (let elf = (if a < n then elf\<lparr>strtab := sh_addr (h a) + PAGE_OFFSET, strtabsz := sh_size (h a)\<rparr> else elf)
     in if b < n then elf\<lparr>symtab := sh_addr (h b) + PAGE_OFFSET, symtabsz := sh_size (h b)\<rparr> else elf)"
    by (rule Suc.IH) (use Suc.prems in auto)
  then have "fold (\<lambda>j. note_section m st (h j)) [0..<Suc n] elf = note_section m st (h n)
    (let elf = (if a < n then elf\<lparr>strtab := sh_addr (h a) + PAGE_OFFSET, strtabsz := sh_size (h a)\<rparr> else elf)
     in if b < n then elf\<lparr>symtab := sh_addr (h b) + PAGE_OFFSET, symtabsz := sh_size (h b)\<rparr> else elf)"
    by simp
  moreover have "named m st strtab_text (h n) = (n = a)" "named m st symtab_text (h n) = (n = b)"
    using Suc.prems by auto
  ultimately show ?case by (simp only:) (auto simp: note_section_def Let_def less_Suc_eq)
qed simp

section \<open>What a lookup finds\<close>

text \<open>A function symbol has type 2; \<open>code_covers a s\<close> says that \<open>a\<close> is an address of its code.\<close>

definition code_covers :: "uint \<Rightarrow> elf_symbol \<Rightarrow> bool" where
  "code_covers a s \<longleftrightarrow> unat (st_info s) mod 16 = 2 \<and> unat (st_value s) \<le> unat a \<and> unat a < unat (st_value s) + unat (st_size s)"

definition no_wrap :: "elf_symbol \<Rightarrow> bool" where
  "no_wrap s \<longleftrightarrow> unat (st_value s) + unat (st_size s) < 2 ^ 32"

lemma st_type: "ELF32_ST_TYPE i = ELF_PROG_FLAG_WRITE \<longleftrightarrow> unat i mod 16 = 2"
proof -
  have "ELF32_ST_TYPE i = take_bit 4 (ucast i)"
    by (simp add: ELF32_ST_TYPE_def take_bit_eq_mask mask_eq_exp_minus_1)
  then have "unat (ELF32_ST_TYPE i) = unat i mod 16"
    using unsigned_less [of i, where ?'a = nat]
    by (simp add: take_bit_eq_mod unat_mod_distrib unsigned_ucast_eq take_bit_nat_eq_self)
  then show ?thesis by (simp add: word_unat_eq_iff ELF_PROG_FLAG_WRITE_def)
qed

lemma covers_code:
  assumes "no_wrap s"
  shows "code_covers a s \<longleftrightarrow> ELF32_ST_TYPE (st_info s) = ELF_PROG_FLAG_WRITE \<and> a \<ge> st_value s \<and> a < st_value s + st_size s"
proof -
  have "unat (st_value s + st_size s) = unat (st_value s) + unat (st_size s)"
    using assms unfolding no_wrap_def by (simp add: unat_plus_if')
  then show ?thesis by (simp add: code_covers_def st_type word_le_nat_alt word_less_nat_alt)
qed

definition found_name :: "addr \<Rightarrow> elf_symbol option \<Rightarrow> addr" where
  "found_name base r = (case r of None \<Rightarrow> NULL | Some s \<Rightarrow> base + st_name s)"

lemma lookup_loop_find:
  assumes "\<And>j. j < n \<Longrightarrow> symbol_at m (symtab elf + symbol_size * of_nat (i + j)) = syms ! j"
    "length syms = n" "list_all no_wrap syms"
  shows "lookup_loop m a elf n i = found_name (strtab elf) (find (code_covers a) syms)"
  using assms
proof (induction n arbitrary: i syms)
  case (Suc n)
  then obtain s ss where syms: "syms = s # ss" by (cases syms) auto
  have IH: "lookup_loop m a elf n (Suc i) = found_name (strtab elf) (find (code_covers a) ss)"
    by (rule Suc.IH) (use Suc.prems(1) [of "Suc j" for j] Suc.prems(2,3) syms in auto)
  have s: "symbol_at m (symtab elf + symbol_size * of_nat i) = s" "no_wrap s"
    using Suc.prems(1) [of 0] Suc.prems(3) syms by auto
  show ?case
    using covers_code [OF s(2), of a] by (auto simp: syms s(1) IH found_name_def Let_def simp del: of_nat_Suc)
qed (simp add: found_name_def)

section \<open>The kernel's image in memory\<close>

text \<open>
  The boot information at \<open>mb\<close> describes the sections \<open>shs\<close>, of which exactly the one with index
  \<open>a\<close> is called \<open>.strtab\<close> and exactly the one with index \<open>b\<close> is called \<open>.symtab\<close>; the latter holds
  the symbols \<open>syms\<close>.
\<close>

definition kernel_image ::
    "mem \<Rightarrow> addr \<Rightarrow> multiboot \<Rightarrow> elf_section_header list \<Rightarrow> nat \<Rightarrow> nat \<Rightarrow> elf_symbol list \<Rightarrow> bool" where
  "kernel_image m mb info shs a b syms \<longleftrightarrow>
     bytes m mb (multiboot_bytes info) \<and> bytes m (mb_addr info) (concat (map section_header_bytes shs)) \<and>
     unat (mb_num info) = length shs \<and> unat (mb_shndx info) < length shs \<and> a < length shs \<and> b < length shs \<and>
     (\<forall>j<length shs. named m (sh_addr (shs ! unat (mb_shndx info))) strtab_text (shs ! j) = (j = a) \<and>
        named m (sh_addr (shs ! unat (mb_shndx info))) symtab_text (shs ! j) = (j = b)) \<and>
     bytes m (sh_addr (shs ! b) + PAGE_OFFSET) (concat (map symbol_bytes syms)) \<and>
     unat (sh_size (shs ! b)) = 16 * length syms \<and> list_all no_wrap syms"

lemma elf_from_multiboot_finds:
  assumes im: "kernel_image m mb info shs a b syms" and lit: "cstr m lit1 strtab_text" "cstr m lit2 symtab_text"
  shows "elf_from_multiboot m lit1 lit2 mb elf0 =
    Some \<lparr>symtab = sh_addr (shs ! b) + PAGE_OFFSET, symtabsz = sh_size (shs ! b),
      strtab = sh_addr (shs ! a) + PAGE_OFFSET, strtabsz = sh_size (shs ! a)\<rparr>"
proof -
  have info: "multiboot_at m mb = info"
    by (rule multiboot_layout) (use im in \<open>simp add: kernel_image_def\<close>)
  have tab: "bytes m (mb_addr info) (concat (map section_header_bytes shs))" and n: "unat (mb_num info) = length shs"
    and shndx: "unat (mb_shndx info) < length shs" and ab: "a < length shs" "b < length shs"
    using im by (simp_all add: kernel_image_def)
  note at = section_table [OF tab]
  have st: "section_header_at m (mb_addr info + section_header_size * mb_shndx info) = shs ! unat (mb_shndx info)"
    using at [OF shndx] by simp
  let ?st = "sh_addr (shs ! unat (mb_shndx info))"
  let ?h = "\<lambda>j. section_header_at m (mb_addr info + section_header_size * of_nat j)"
  have "named m ?st strtab_text (?h j) = (j = a)" "named m ?st symtab_text (?h j) = (j = b)" if "j < length shs" for j
    using im that unfolding at [OF that] by (auto simp: kernel_image_def)
  then show ?thesis
    using sections_fold [of "length shs" m ?st ?h a b elf0] ab at
    by (simp add: elf_from_multiboot_def info st n sections_loop_fold [OF lit] Let_def)
qed

lemma elf_lookup_finds:
  assumes im: "kernel_image m mb info shs a b syms"
    and elf: "symtab elf = sh_addr (shs ! b) + PAGE_OFFSET" "symtabsz elf = sh_size (shs ! b)"
  shows "elf_lookup_symbol m addr elf = found_name (strtab elf) (find (code_covers addr) syms)"
proof -
  have tab: "bytes m (symtab elf) (concat (map symbol_bytes syms))" and sz: "unat (symtabsz elf) = 16 * length syms"
    and nw: "list_all no_wrap syms"
    using im by (simp_all add: kernel_image_def elf)
  have "unat (symtabsz elf div symbol_size) = length syms"
    by (simp add: unat_div_distrib sz symbol_size_def)
  then show ?thesis
    using lookup_loop_find [of "length syms" m elf 0 syms addr] symbol_table [OF tab] nw
    by (simp add: elf_lookup_symbol_def)
qed

end
