(* ===== verification/Debug.thy ===== *)
theory Debug
  imports Elf Console_Correct Kstdio_Correct Buddy
begin

text \<open>
  src/debug/debug.c and \<open>show_pmm_map\<close> of src/pmm/pmm.c: what the kernel prints about itself. The
  stack, the boot information and the symbols are byte memory; the printer is a parameter, as for
  the scheduler. \<open>panic\<close> is the call that \<open>Panic\<close> stands for in the other theories. The static
  \<open>round\<close> of \<open>print_cur_status\<close> is passed and returned, and the registers are arguments.
\<close>

abbreviation chars :: "string \<Rightarrow> uchar list" where "chars xs \<equiv> map of_char xs"

text \<open>The characters that \<open>%s\<close> reads; \<open>None\<close> when no zero byte follows.\<close>

partial_function (option) cstr_text :: "mem \<Rightarrow> addr \<Rightarrow> uchar list option" where
  [code]: "cstr_text m p =
     (if m p \<noteq> 0 then Option.bind (cstr_text m (p + 1)) (\<lambda>xs. Some (m p # xs)) else Some [])"

fun print_seq :: "printer \<Rightarrow> uchar list list \<Rightarrow> kst \<Rightarrow> (unit, kst) run" where
  "print_seq pr [] s = kret () s"
| "print_seq pr (x # xs) s = kbind (pr x s) (\<lambda>_ s. print_seq pr xs s)"

section \<open>The registers\<close>

record seg_regs =
  r_cs :: ushort
  r_ds :: ushort
  r_es :: ushort
  r_ss :: ushort

definition ring_text :: "int \<Rightarrow> ushort \<Rightarrow> uchar list" where
  "ring_text n r = signed_text (word_of_int n) @ chars '': @ring '' @ signed_text (ucast (r AND 0x3)) @ [0x0A]"

definition reg_text :: "int \<Rightarrow> string \<Rightarrow> ushort \<Rightarrow> uchar list" where
  "reg_text n nm r = signed_text (word_of_int n) @ chars '':  '' @ chars nm @ chars '' = 0x'' @
     hexadecimal (unat r) @ [0x0A]"

definition print_cur_status :: "printer \<Rightarrow> seg_regs \<Rightarrow> int \<Rightarrow> kst \<Rightarrow> (int, kst) run" where
  "print_cur_status pr r n s =
     kbind (pr (ring_text n (r_cs r)) s) (\<lambda>_ s.
     kbind (pr (reg_text n ''cs'' (r_cs r)) s) (\<lambda>_ s.
     kbind (pr (reg_text n ''ds'' (r_ds r)) s) (\<lambda>_ s.
     kbind (pr (reg_text n ''es'' (r_es r)) s) (\<lambda>_ s.
     kbind (pr (reg_text n ''ss'' (r_ss r)) s) (\<lambda>_ s. kret (i32 (n + 1)) s)))))"

section \<open>The stack trace\<close>

definition trace_text :: "uint \<Rightarrow> uint \<Rightarrow> uchar list \<Rightarrow> uchar list" where
  "trace_text eip ebp nm = chars ''eip:[0x'' @ hexadecimal (unat eip) @ chars ''],ebp:[0x'' @
     hexadecimal (unat ebp) @ chars ''] '' @ nm @ [0x0A]"

text \<open>\<open>ebp\<close> is the frame pointer; the caller's is stored at it and the return address above it.\<close>

partial_function (option) print_stack_trace :: "printer \<Rightarrow> mem \<Rightarrow> elf \<Rightarrow> addr \<Rightarrow> kst \<Rightarrow> (unit, kst) run" where
  [code]: "print_stack_trace pr m kernel_elf ebp s =
     (if ebp \<noteq> NULL then
        let eip = ebp + 4 in
        kbind (klift (cstr_text m (elf_lookup_symbol m (peek32 m eip) kernel_elf)) s) (\<lambda>nm s.
        kbind (pr (trace_text (peek32 m eip) (peek32 m ebp) nm) s) (\<lambda>_ s.
          print_stack_trace pr m kernel_elf (peek32 m ebp) s))
      else kret () s)"

definition panic_text :: "uchar list \<Rightarrow> uchar list" where
  "panic_text msg = chars ''*** System panic: '' @ msg @ [0x0A]"

definition panic_end :: "uchar list" where
  "panic_end = chars ''***'' @ [0x0A]"

text \<open>The last line of \<open>panic\<close> is \<open>while(1)\<close>.\<close>

definition panic :: "printer \<Rightarrow> mem \<Rightarrow> elf \<Rightarrow> addr \<Rightarrow> uchar list \<Rightarrow> kst \<Rightarrow> (unit, kst) run" where
  "panic pr m kernel_elf ebp msg s =
     kbind (pr (panic_text msg) s) (\<lambda>_ s.
     kbind (print_stack_trace pr m kernel_elf ebp s) (\<lambda>_ s.
     kbind (pr panic_end s) (\<lambda>_ s. None)))"

text \<open>\<open>lit1\<close> and \<open>lit2\<close> are the section names that \<open>elf_from_multiboot\<close> compares with.\<close>

definition init_debug :: "mem \<Rightarrow> addr \<Rightarrow> addr \<Rightarrow> addr \<Rightarrow> elf \<Rightarrow> elf option" where
  "init_debug m lit1 lit2 glb_mboot_ptr elf0 = elf_from_multiboot m lit1 lit2 glb_mboot_ptr elf0"

section \<open>The memory map\<close>

definition mmap_entry_at :: "mem \<Rightarrow> addr \<Rightarrow> mmap_entry" where
  "mmap_entry_at m p =
     \<lparr>mmap_size = peek32 m p, base_addr_low = peek32 m (p + 4), base_addr_high = peek32 m (p + 8),
      length_low = peek32 m (p + 12), length_high = peek32 m (p + 16), mmap_type = peek32 m (p + 20)\<rparr>"

definition mmap_bytes :: "mmap_entry \<Rightarrow> uchar list" where
  "mmap_bytes e = concat (map le32
     [mmap_size e, base_addr_low e, base_addr_high e, length_low e, length_high e, mmap_type e])"

definition map_text :: "mmap_entry \<Rightarrow> uchar list" where
  "map_text e = chars ''base_addr = 0x'' @ hexadecimal (unat (base_addr_high e)) @ chars '' '' @
     hexadecimal (unat (base_addr_low e)) @ chars '', length = 0x'' @ hexadecimal (unat (length_high e)) @
     chars '' '' @ hexadecimal (unat (length_low e)) @ chars '', type = 0x'' @
     hexadecimal (unat (mmap_type e)) @ [0x0A]"

partial_function (option) show_map_loop :: "printer \<Rightarrow> mem \<Rightarrow> addr \<Rightarrow> uint \<Rightarrow> kst \<Rightarrow> (unit, kst) run" where
  [code]: "show_map_loop pr m mmap end_addr s =
     (if mmap < end_addr then
        kbind (pr (map_text (mmap_entry_at m mmap)) s) (\<lambda>_ s. show_map_loop pr m (mmap + 24) end_addr s)
      else kret () s)"

definition show_pmm_map :: "printer \<Rightarrow> mem \<Rightarrow> addr \<Rightarrow> kst \<Rightarrow> (unit, kst) run" where
  "show_pmm_map pr m glb_mboot_ptr s =
     (let mmap_addr = mb_mmap_addr (multiboot_at m glb_mboot_ptr);
          mmap_length = mb_mmap_length (multiboot_at m glb_mboot_ptr)
      in kbind (pr (chars ''Memory map:'' @ [0x0A]) s) (\<lambda>_ s.
           show_map_loop pr m mmap_addr (mmap_addr + mmap_length) s))"

text \<open>The entries as the page allocator walks them, and its start-up.\<close>

definition mmap_of :: "mem \<Rightarrow> multiboot \<Rightarrow> nat \<Rightarrow> mmap_entry" where
  "mmap_of m info i = mmap_entry_at m (mb_mmap_addr info + 24 * of_nat i)"

definition init_pmm :: "mem \<Rightarrow> addr \<Rightarrow> uint \<Rightarrow> uint \<Rightarrow> 'a pmm_scheme \<Rightarrow> (unit, 'a pmm_scheme) run" where
  "init_pmm m glb_mboot_ptr kern_start kern_end s =
     (let info = multiboot_at m glb_mboot_ptr
      in init_buddy (mmap_of m info) (mb_mmap_length info) kern_start kern_end s)"

section \<open>Printing in sequence\<close>

lemma cstr_text_cstr: "cstr m p xs \<Longrightarrow> cstr_text m p = Some xs"
  by (induction xs arbitrary: p) (simp_all add: cstr_text.simps [of m])

lemma print_seq_append: "print_seq pr (xs @ ys) s = kbind (print_seq pr xs s) (\<lambda>_ s. print_seq pr ys s)"
proof (induction xs arbitrary: s)
  case (Cons x xs)
  then have "print_seq pr (xs @ ys) = (\<lambda>s. kbind (print_seq pr xs s) (\<lambda>_ s. print_seq pr ys s))" by (rule ext)
  then show ?case by (simp add: kbind_assoc cong del: kbind_cong)
qed simp

lemma print_seq_prints:
  assumes "unlocked lck s" "current s \<noteq> NULL"
  shows "\<exists>t. print_seq (printk lck (Suc n)) xs s = kret () t \<and> same_threads s t \<and> unlocked lck t \<and>
    same_screen (write_chars 15 0 (concat xs) s) t"
  using assms
proof (induction xs arbitrary: s)
  case (Cons x xs)
  obtain u where u: "printk lck (Suc n) x s = kret () u" "same_threads s u" "unlocked lck u"
      "same_screen (write_chars 15 0 x s) u"
    using printk_prints [OF Cons.prems] by blast
  then have "current u \<noteq> NULL" using Cons.prems(2) by (simp add: same_threads_def)
  from Cons.IH [OF u(3) this] obtain t where t: "print_seq (printk lck (Suc n)) xs u = kret () t" "same_threads u t"
      "unlocked lck t" "same_screen (write_chars 15 0 (concat xs) u) t" by blast
  have "same_screen (write_chars 15 0 (concat xs) (write_chars 15 0 x s)) t"
    using write_chars_same [OF u(4)] t(4) by (auto simp: same_screen_def)
  then have "same_screen (write_chars 15 0 (concat (x # xs)) s) t" by (simp add: write_chars_def)
  moreover have "same_threads s t" using u(2) t(2) by (auto simp: same_threads_def)
  ultimately show ?case using u(1) t(1,3) by (auto simp del: printk.simps)
qed (auto simp: same_threads_def same_screen_def write_chars_def)

section \<open>What is printed\<close>

text \<open>
  The calls on the stack, from the innermost: the caller's frame pointer, the return address and the
  name of the function it lies in. The outermost frame was entered with a null frame pointer.
\<close>

fun call_chain :: "mem \<Rightarrow> elf \<Rightarrow> addr \<Rightarrow> (uint \<times> uint \<times> uchar list) list \<Rightarrow> bool" where
  "call_chain m kernel_elf ebp [] = (ebp = NULL)"
| "call_chain m kernel_elf ebp ((up, eip, nm) # fs) =
     (ebp \<noteq> NULL \<and> peek32 m ebp = up \<and> peek32 m (ebp + 4) = eip \<and>
      cstr m (elf_lookup_symbol m eip kernel_elf) nm \<and> call_chain m kernel_elf up fs)"

definition frame_text :: "uint \<times> uint \<times> uchar list \<Rightarrow> uchar list" where
  "frame_text f = (case f of (up, eip, nm) \<Rightarrow> trace_text eip up nm)"

lemma print_stack_trace_prints:
  assumes "call_chain m kernel_elf ebp fs"
  shows "print_stack_trace pr m kernel_elf ebp s = print_seq pr (map frame_text fs) s"
  using assms
proof (induction fs arbitrary: ebp s)
  case (Cons f fs)
  obtain up eip nm where f: "f = (up, eip, nm)" by (cases f)
  have c: "ebp \<noteq> NULL" "peek32 m ebp = up" "peek32 m (ebp + 4) = eip"
    "cstr_text m (elf_lookup_symbol m eip kernel_elf) = Some nm" "call_chain m kernel_elf up fs"
    using Cons.prems by (auto simp: f cstr_text_cstr)
  have IH: "print_stack_trace pr m kernel_elf up = print_seq pr (map frame_text fs)"
    by (rule ext) (rule Cons.IH [OF c(5)])
  show ?case
    using c by (subst print_stack_trace.simps) (simp add: f frame_text_def Let_def IH cong del: kbind_cong)
qed (simp add: print_stack_trace.simps)

lemma panic_prints:
  assumes "call_chain m kernel_elf ebp fs"
  shows "panic pr m kernel_elf ebp msg s =
    kbind (print_seq pr (panic_text msg # map frame_text fs @ [panic_end]) s) (\<lambda>_ s. None)"
  by (simp add: panic_def print_stack_trace_prints [OF assms] print_seq_append kbind_assoc cong del: kbind_cong)

lemma write_chars_append: "write_chars f b (xs @ ys) s = write_chars f b ys (write_chars f b xs s)"
  by (simp add: write_chars_def)

text \<open>The report stands on the screen when \<open>panic\<close> stops the kernel.\<close>

lemma panic_shows:
  assumes c: "call_chain m kernel_elf ebp fs" and s: "unlocked lck s" "current s \<noteq> NULL"
    and pr_def: "pr = printk lck (Suc n)"
  shows "\<exists>t u v. pr (panic_text msg) s = kret () t \<and> print_stack_trace pr m kernel_elf ebp t = kret () u \<and>
    pr panic_end u = kret () v \<and>
    same_screen (write_chars 15 0 (panic_text msg @ concat (map frame_text fs) @ panic_end) s) v \<and>
    panic pr m kernel_elf ebp msg s = None"
proof -
  obtain t where t: "pr (panic_text msg) s = kret () t" "same_threads s t" "unlocked lck t"
      "same_screen (write_chars 15 0 (panic_text msg) s) t"
    using printk_prints [OF s, of n "panic_text msg"] unfolding pr_def by blast
  have "current t \<noteq> NULL" using t(2) s(2) by (simp add: same_threads_def)
  from print_seq_prints [OF t(3) this, of n "map frame_text fs"]
  obtain u where u: "print_stack_trace pr m kernel_elf ebp t = kret () u" "same_threads t u" "unlocked lck u"
      "same_screen (write_chars 15 0 (concat (map frame_text fs)) t) u"
    unfolding print_stack_trace_prints [OF c] pr_def by blast
  have "current u \<noteq> NULL" using u(2) \<open>current t \<noteq> NULL\<close> by (simp add: same_threads_def)
  from printk_prints [OF u(3) this, of n panic_end]
  obtain v where v: "pr panic_end u = kret () v" "same_screen (write_chars 15 0 panic_end u) v"
    unfolding pr_def by blast
  have "same_screen (write_chars 15 0 (panic_text msg @ concat (map frame_text fs)) s) u"
    using write_chars_same [OF t(4), of 15 0 "concat (map frame_text fs)"] u(4)
    by (auto simp: write_chars_append same_screen_def)
  from write_chars_same [OF this, of 15 0 panic_end] v(2)
  have "same_screen (write_chars 15 0 (panic_text msg @ concat (map frame_text fs) @ panic_end) s) v"
    unfolding append_assoc [symmetric] write_chars_append [of 15 0 "panic_text msg @ concat (map frame_text fs)"]
    by (auto simp: same_screen_def)
  moreover have "panic pr m kernel_elf ebp msg s = None"
    by (simp add: panic_def t(1) u(1) v(1))
  ultimately show ?thesis using t(1) u(1) v(1) by blast
qed

text \<open>A frame that points to itself is printed for ever.\<close>

lemma print_stack_trace_cycle:
  assumes "ebp \<noteq> NULL" "peek32 m ebp = ebp"
  shows "print_stack_trace pr m kernel_elf ebp s \<noteq> kret () t"
proof
  have "print_stack_trace pr m kernel_elf ebp s = Some y \<Longrightarrow> peek32 m ebp = ebp \<longrightarrow> ebp \<noteq> NULL \<longrightarrow> isl y" for y
    by (rule print_stack_trace.raw_induct
          [where P = "\<lambda>pr m k e s y. peek32 m e = e \<longrightarrow> e \<noteq> NULL \<longrightarrow> isl y", rotated], assumption)
      (auto simp: Let_def kbind_def klift_def kret_def split: option.splits sum.splits)
  moreover assume "print_stack_trace pr m kernel_elf ebp s = kret () t"
  ultimately show False using assms by (auto simp: kret_def)
qed

section \<open>The memory map on the screen\<close>

lemma mmap_bytes_length [simp]: "length (mmap_bytes e) = 24"
  by (simp add: mmap_bytes_def)

lemma mmap_layout:
  assumes "bytes m p (mmap_bytes e)"
  shows "mmap_entry_at m p = e"
  using assms unfolding mmap_bytes_def by (simp add: mmap_entry_at_def le32_split peek32_le32 add.assoc)

lemma mmap_table:
  assumes "bytes m (mb_mmap_addr info) (concat (map mmap_bytes es))" "j < length es"
  shows "mmap_of m info j = es ! j"
  using mmap_layout [OF table_layout [OF assms(1) _ assms(2), of 24]] by (simp add: mmap_of_def)

lemma show_map_loop_prints:
  assumes "bytes m p (concat (map mmap_bytes es))" "unat p + 24 * length es < 2 ^ 32"
  shows "show_map_loop pr m p (p + 24 * of_nat (length es)) s = print_seq pr (map map_text es) s"
  using assms
proof (induction es arbitrary: p s)
  case (Cons e es)
  have b: "bytes m p (mmap_bytes e)" "bytes m (p + 24) (concat (map mmap_bytes es))"
    using Cons.prems(1) by (simp_all add: bytes_append)
  have p: "unat (p + 24) = unat p + 24" using Cons.prems(2) by (simp add: unat_plus_if')
  have n: "unat (of_nat (24 * Suc (length es)) :: uint) = 24 * Suc (length es)"
    using Cons.prems(2) by (simp only: unat_of_nat take_bit_nat_eq_self) (simp add: take_bit_nat_eq_self)
  have "p < p + of_nat (24 * Suc (length es))"
    using Cons.prems(2) by (simp only: word_less_nat_alt unat_plus_if' n) simp
  then have lt: "p < p + 24 * of_nat (Suc (length es))" by simp
  have IH: "show_map_loop pr m (p + 24) (p + 24 + 24 * of_nat (length es)) = print_seq pr (map map_text es)"
    by (rule ext) (rule Cons.IH [OF b(2)], use Cons.prems(2) p in simp)
  have e: "p + 24 * of_nat (Suc (length es)) = p + 24 + 24 * of_nat (length es)" by (simp add: algebra_simps)
  show ?case
    using lt by (subst show_map_loop.simps) (simp add: mmap_layout [OF b(1)] e IH del: of_nat_Suc cong del: kbind_cong)
qed (simp add: show_map_loop.simps)

lemma show_pmm_map_prints:
  assumes info: "bytes m mb (multiboot_bytes info)" and es: "bytes m (mb_mmap_addr info) (concat (map mmap_bytes es))"
    and len: "unat (mb_mmap_length info) = 24 * length es" "unat (mb_mmap_addr info) + 24 * length es < 2 ^ 32"
  shows "show_pmm_map pr m mb s = print_seq pr ((chars ''Memory map:'' @ [0x0A]) # map map_text es) s"
proof -
  have l: "mb_mmap_length info = 24 * of_nat (length es)"
    using arg_cong [OF len(1), of "of_nat :: nat \<Rightarrow> uint"] by simp
  have "show_map_loop pr m (mb_mmap_addr info) (mb_mmap_addr info + mb_mmap_length info) =
      print_seq pr (map map_text es)"
    by (rule ext) (use show_map_loop_prints [OF es len(2)] l in simp)
  then show ?thesis by (simp add: show_pmm_map_def multiboot_layout [OF info] Let_def cong del: kbind_cong)
qed

end
