(* ===== verification/Machine.thy ===== *)
theory Machine
  imports Segments "HOL-Library.Multiset"
begin

text \<open>
  The running kernel between interrupts. An event is an interrupt number together with the byte the
  keyboard port holds; the interrupts come one at a time. \<open>serving\<close> is the state the kernel is in
  between two of them, and every event except a page fault leads from such a state to such a state:
  no panic, no read outside a table, no waiting.
\<close>

section \<open>Events\<close>

text \<open>
  An interrupt as the machine sees it: when the handler switches away, the thread that was chosen
  goes on behind the \<open>switch_to\<close> it had stopped in, in its own activation of the timer handler.
\<close>

definition cpu_irq :: "devices \<Rightarrow> nat \<Rightarrow> (kst \<Rightarrow> (unit, kst) run) \<Rightarrow> uint \<times> uchar \<Rightarrow> kst \<Rightarrow> kst option" where
  "cpu_irq dev n pgf ev s =
     (case interrupt_handler (dev\<lparr>kbd_port := snd ev\<rparr>) n pgf (fst ev) s of
        Some (Inr (_, t)) \<Rightarrow> Some t
      | Some (Inl (Switched t)) \<Rightarrow> Some (let t = switch_back t in t\<lparr>tick := tick t + 1\<rparr>)
      | _ \<Rightarrow> None)"

primrec cpu_irqs :: "devices \<Rightarrow> nat \<Rightarrow> (kst \<Rightarrow> (unit, kst) run) \<Rightarrow> (uint \<times> uchar) list \<Rightarrow> kst \<Rightarrow> kst option" where
  "cpu_irqs dev n pgf [] s = Some s"
| "cpu_irqs dev n pgf (ev # evs) s = Option.bind (cpu_irq dev n pgf ev s) (cpu_irqs dev n pgf evs)"

definition expected :: "uint \<times> uchar \<Rightarrow> bool" where
  "expected ev \<longleftrightarrow> unat (fst ev) < 256 \<and> fst ev \<noteq> 14"

definition serving :: "devices \<Rightarrow> kst \<Rightarrow> addr list \<Rightarrow> uchar list \<Rightarrow> bool" where
  "serving dev s ps xs \<longleftrightarrow> run_queue (con_lck dev) s ps \<and> on_screen s \<and> idle_queue s xs \<and>
     interrupt_handlers s 32 = Some Timer_callback \<and> interrupt_handlers s 33 = Some Kbd_handler \<and>
     (\<forall>j. j \<notin> {14, 32, 33} \<longrightarrow> interrupt_handlers s j = None)"

section \<open>The scheduler with all devices in view\<close>

definition quiet_machine :: "addr \<Rightarrow> (nat \<Rightarrow> handler option) \<Rightarrow> ioqueue \<Rightarrow> kst \<Rightarrow> bool" where
  "quiet_machine lck H Q s \<longleftrightarrow> unlocked lck s \<and> on_screen s \<and> interrupt_handlers s = H \<and> kbd_buf s = Q"

interpretation mp: round_robin "printk lck (Suc n)" "quiet_machine lck H Q" "waiters (lock_sem lck)" for lck n H Q
proof
  show "\<exists>t. printk lck (Suc n) x s = kret () t \<and> same_threads s t \<and> quiet_machine lck H Q t"
    if q: "quiet_machine lck H Q s" "current s \<noteq> NULL" for x s
  proof -
    obtain t where t: "printk lck (Suc n) x s = kret () t" "same_threads s t" "unlocked lck t"
        "same_screen (write_chars 15 0 x s) t" "same_rest s t"
      using printk_prints [of lck s n x] q by (auto simp: quiet_machine_def)
    have "on_screen t"
      using q t(4) write_chars_refines(2) [of s 15 0 x] by (auto simp: quiet_machine_def same_screen_def on_screen_def)
    with q t show ?thesis by (auto simp: quiet_machine_def same_rest_def)
  qed
  show "quiet_machine lck H Q t"
    if "quiet_machine lck H Q s" "same_locks s t" "same_devices s t"
      "l_next (lists t) (waiters (lock_sem lck)) = l_next (lists s) (waiters (lock_sem lck))" for s t
    using that by (simp add: quiet_machine_def unlocked_def same_locks_def same_devices_def on_screen_def)
qed

lemma serving_rr:
  "serving dev s ps xs \<longleftrightarrow> mp.rr (con_lck dev) (interrupt_handlers s) (kbd_buf s) s ps \<and> idle_queue s xs \<and>
     interrupt_handlers s 32 = Some Timer_callback \<and> interrupt_handlers s 33 = Some Kbd_handler \<and>
     (\<forall>j. j \<notin> {14, 32, 33} \<longrightarrow> interrupt_handlers s j = None)"
  unfolding serving_def run_queue_def mp.rr_def quiet_machine_def by blast

text \<open>An operation that keeps the threads and the console keeps the kernel serving.\<close>

lemma serving_kept:
  assumes s: "serving dev s ps xs" and k: "kept (con_lck dev) s t" and q: "idle_queue t ys"
  shows "serving dev t ps ys"
proof -
  have t: "same_threads s t" "unlocked (con_lck dev) t" "on_screen t" "interrupt_handlers t = interrupt_handlers s"
    using s k by (auto simp: serving_def run_queue_def kept_def)
  then have "run_queue (con_lck dev) t ps"
    using s by (simp add: serving_def run_queue_def same_threads_def ready_def queueable_def)
  with s t q show ?thesis by (simp add: serving_def)
qed

lemma serving_eoi:
  assumes "serving dev s ps xs"
  shows "serving dev (send_eoi i s) ps xs"
proof (rule serving_kept [OF assms])
  show "kept (con_lck dev) s (send_eoi i s)" by (simp add: kept_def on_screen_def) (simp add: send_eoi_def outb_def Let_def)
  show "idle_queue (send_eoi i s) xs" using assms by (simp add: serving_def idle_queue_def)
qed

section \<open>Every event keeps the kernel serving\<close>

text \<open>The threads stay the same ones; only their order may turn.\<close>

definition same_crew :: "kst \<Rightarrow> addr list \<Rightarrow> kst \<Rightarrow> addr list \<Rightarrow> bool" where
  "same_crew s ps t qs \<longleftrightarrow> mset (current t # qs) = mset (current s # ps)"

lemma timer_serves:
  assumes s: "serving dev s ps xs"
  shows "\<exists>t qs. cpu_tick (printk (con_lck dev) (Suc n)) s = Some t \<and> serving dev t qs xs \<and> same_crew s ps t qs"
proof -
  have rr: "mp.rr (con_lck dev) (interrupt_handlers s) (kbd_buf s) s ps" using s by (simp add: serving_rr)
  have again: "serving dev t qs xs" if "mp.rr (con_lck dev) (interrupt_handlers s) (kbd_buf s) t qs" for t qs
  proof -
    have "interrupt_handlers t = interrupt_handlers s" "kbd_buf t = kbd_buf s"
      using that by (simp_all add: mp.rr_def quiet_machine_def)
    with that s show ?thesis by (simp add: serving_rr idle_queue_def)
  qed
  consider "ticks (procs s (current s)) \<noteq> 1" | "ticks (procs s (current s)) = 1" "ps = []"
    | y ys where "ticks (procs s (current s)) = 1" "ps = y # ys" by (cases ps) auto
  then show ?thesis
  proof cases
    case 1
    from mp.tick_charges [OF rr 1, of n] again show ?thesis by (metis same_crew_def)
  next
    case 2
    from mp.tick_alone [OF rr [unfolded 2(2)] 2(1), of n] again 2(2) show ?thesis by (metis same_crew_def)
  next
    case 3
    from mp.tick_switches [OF rr [unfolded 3(2)] 3(1), of n] obtain t where
      "cpu_tick (printk (con_lck dev) (Suc n)) s = Some t"
      "mp.rr (con_lck dev) (interrupt_handlers s) (kbd_buf s) t (ys @ [current s])" "current t = y" by metis
    with again [of t "ys @ [current s]"] 3(2) show ?thesis
      by (intro exI [of _ t] exI [of _ "ys @ [current s]"]) (simp add: same_crew_def)
  qed
qed

lemma irq_returns: "interrupt_handler (dev\<lparr>kbd_port := b\<rparr>) n pgf i s = kret () t \<Longrightarrow> cpu_irq dev n pgf (i, b) s = Some t"
  by (simp add: cpu_irq_def) (simp add: kret_def)

lemma event_serves:
  assumes s: "serving dev s ps xs" and ev: "expected (i, b)"
  shows "\<exists>t qs ys. cpu_irq dev (Suc n) pgf (i, b) s = Some t \<and> serving dev t qs (xs @ ys) \<and> length ys \<le> 1 \<and>
    same_crew s ps t qs"
proof -
  let ?dev = "dev\<lparr>kbd_port := b\<rparr>" and ?s = "send_eoi i s"
  have se: "serving dev ?s ps xs" using s by (rule serving_eoi)
  then have fr: "idle_queue ?s xs" "unlocked (con_lck dev) ?s" "current ?s \<noteq> NULL"
    by (auto simp: serving_def run_queue_def queueable_def)
  have i: "unat i < 256" "i \<noteq> 14" using ev by (simp_all add: expected_def)
  have keep: ?thesis if "interrupt_handler ?dev (Suc n) pgf i s = kret () t" "kept (con_lck dev) ?s t"
      "idle_queue t (xs @ ys)" "length ys \<le> 1" for t ys
  proof -
    have "same_threads s t" using that(2) send_eoi_same(1) [of s i] by (auto simp: kept_def same_threads_def)
    with irq_returns [OF that(1)] serving_kept [OF se that(2,3)] that(4) show ?thesis
      by (auto simp: same_crew_def same_threads_def)
  qed
  consider "i = 32" | "i = 33" | "i \<noteq> 32" "i \<noteq> 33" by blast
  then show ?thesis
  proof cases
    case 1
    have "interrupt_handlers s (unat i) = Some Timer_callback" using s 1 by (simp add: serving_def)
    from interrupt_registered [OF this i(1)]
    have "cpu_irq dev (Suc n) pgf (i, b) s = cpu_tick (printk (con_lck dev) (Suc n)) ?s"
      by (simp add: cpu_irq_def cpu_tick_def run_handler_def del: printk.simps)
    with timer_serves [OF se, of n] obtain t qs where
      "cpu_irq dev (Suc n) pgf (i, b) s = Some t" "serving dev t qs xs" "same_crew ?s ps t qs" by auto
    then show ?thesis by (intro exI [of _ t] exI [of _ qs] exI [of _ "[]"]) (simp add: same_crew_def)
  next
    case 2
    have "interrupt_handlers s (unat i) = Some Kbd_handler" using s 2 by (simp add: serving_def)
    from interrupt_registered [OF this i(1)]
      kbd_handler_total [OF fr, of "kbd_ioq dev" "printk (con_lck dev) (Suc n)" "printk (con_lck dev) (Suc n)" b]
    obtain t ys where "interrupt_handler ?dev (Suc n) pgf i s = kret () t" "kept (con_lck dev) ?s t"
        "idle_queue t (xs @ ys)" "length ys \<le> 1"
      by (auto simp: run_handler_def simp del: printk.simps)
    then show ?thesis by (rule keep)
  next
    case 3
    have "unat i \<noteq> unat (14 :: uint)" "unat i \<noteq> unat (32 :: uint)" "unat i \<noteq> unat (33 :: uint)"
      using i(2) 3 unfolding word_unat_eq_iff by simp_all
    then have "interrupt_handlers s (unat i) = None" using s by (simp add: serving_def)
    from interrupt_unregistered [OF this i(1)]
    have "interrupt_handler ?dev (Suc n) pgf i s =
        console_write_color (con_lck dev) (printk (con_lck dev) n) 1 0 (unhandled_text i) ?s"
      by (simp del: printk.simps)
    with console_write_kbd [OF fr(2,3), of "printk (con_lck dev) n" 1 0 "unhandled_text i"] obtain t where
      "interrupt_handler ?dev (Suc n) pgf i s = kret () t" "kbd_buf t = kbd_buf ?s" "kept (con_lck dev) ?s t" by auto
    then show ?thesis using fr(1) by (intro keep [of t "[]"]) (auto simp: idle_queue_def)
  qed
qed

lemma events_serve:
  assumes "serving dev s ps xs" "list_all expected evs"
  shows "\<exists>t qs ys. cpu_irqs dev (Suc n) pgf evs s = Some t \<and> serving dev t qs (xs @ ys) \<and> length ys \<le> length evs \<and>
    same_crew s ps t qs"
  using assms
proof (induction evs arbitrary: s ps xs)
  case Nil
  then show ?case by (intro exI [of _ s] exI [of _ ps] exI [of _ "[]"]) (simp add: same_crew_def)
next
  case (Cons ev evs)
  obtain t qs ys where t: "cpu_irq dev (Suc n) pgf ev s = Some t" "serving dev t qs (xs @ ys)" "length ys \<le> 1"
      "same_crew s ps t qs"
    using event_serves [OF Cons.prems(1), of "fst ev" "snd ev" n pgf] Cons.prems(2) by auto
  obtain u rs zs where u: "cpu_irqs dev (Suc n) pgf evs t = Some u" "serving dev u rs ((xs @ ys) @ zs)" "length zs \<le> length evs"
      "same_crew t qs u rs"
    using Cons.IH [OF t(2)] Cons.prems(2) by auto
  from t u have "cpu_irqs dev (Suc n) pgf (ev # evs) s = Some u" "serving dev u rs (xs @ (ys @ zs))"
      "length (ys @ zs) \<le> length (ev # evs)" "same_crew s ps u rs" by (simp_all add: same_crew_def)
  then show ?case by blast
qed

end
