(* ===== verification/Boot.thy ===== *)
theory Boot
  imports Debug Machine Mm_Init Buddy_Init
begin

text \<open>
  The multiboot header (libs/multiboot.h, src/bootloader/multiboot.c) and src/init/kern_init.c: the
  state of the whole kernel and its start-up as the composition of the components' start-up
  operations. The heap side logs what it prints; \<open>in_heap\<close> writes the new lines to the console when
  the call returns, so that the locks and the screen see them in the order of the code.
\<close>

section \<open>The multiboot header\<close>

record multiboot_header =
  mh_magic :: uint
  mh_flags :: uint
  mh_checksum :: uint
  mh_head_addr :: uint
  mh_load_addr :: uint
  mh_load_end_addr :: uint
  mh_bss_end_addr :: uint
  mh_entry_addr :: uint
  mh_mode_type :: uint
  mh_width :: uint
  mh_height :: uint
  mh_depth :: uint

definition MBOOT_MAGIC :: uint where "MBOOT_MAGIC = 0x1BADB002"
definition MBOOT_PAGE_ALIGN :: "uint \<Rightarrow> uint" where "MBOOT_PAGE_ALIGN on = push_bit 0 (on AND 1)"
definition MBOOT_LOC :: "uint \<Rightarrow> uint" where "MBOOT_LOC on = push_bit 1 (on AND 1)"
definition MBOOT_GRAPHIC :: "uint \<Rightarrow> uint" where "MBOOT_GRAPHIC on = push_bit 2 (on AND 1)"
definition MBOOT_OTHER_KERN :: "uint \<Rightarrow> uint" where "MBOOT_OTHER_KERN on = push_bit 16 (on AND 1)"

definition MBOOT_FLAG_CONFIG :: "uint \<Rightarrow> uint \<Rightarrow> uint \<Rightarrow> uint \<Rightarrow> uint" where
  "MBOOT_FLAG_CONFIG p l g k = MBOOT_PAGE_ALIGN p OR MBOOT_LOC l OR MBOOT_GRAPHIC g OR MBOOT_OTHER_KERN k"

definition glb_mboot_hdr :: multiboot_header where
  "glb_mboot_hdr = \<lparr>mh_magic = MBOOT_MAGIC, mh_flags = MBOOT_FLAG_CONFIG 1 1 0 0,
     mh_checksum = - (MBOOT_MAGIC + MBOOT_FLAG_CONFIG 1 1 0 0), mh_head_addr = 0, mh_load_addr = 0,
     mh_load_end_addr = 0, mh_bss_end_addr = 0, mh_entry_addr = 0, mh_mode_type = 0, mh_width = 0,
     mh_height = 0, mh_depth = 0\<rparr>"

lemma glb_mboot_hdr_sum: "mh_magic glb_mboot_hdr + mh_flags glb_mboot_hdr + mh_checksum glb_mboot_hdr = 0"
  by (simp add: glb_mboot_hdr_def)

section \<open>The kernel\<close>

text \<open>
  \<open>kern_entry\<close> gives the boot tables, the value of the page directory register and the address of
  the boot information as the kernel sees it. \<open>linkage\<close> holds the addresses the linker and the boot
  loader chose.
\<close>

definition kern_entry :: "addr \<Rightarrow> words \<Rightarrow> words \<times> uint \<times> addr" where
  "kern_entry mboot_ptr_tmp m = (kern_entry_tables m, 0x1000, mboot_ptr_tmp + PAGE_OFFSET)"

record linkage =
  at_gdt :: uint
  at_idt :: uint
  at_stub :: "nat \<Rightarrow> uint"
  at_mboot :: addr
  at_strtab_lit :: addr
  at_symtab_lit :: addr
  at_kern_start :: uint
  at_kern_end :: uint
  at_pte_kern :: addr
  at_boot_cache :: addr
  at_stack :: addr
  at_console_lck :: addr
  at_kbd_lck :: addr

record kernel =
  k_gdt :: "dt_ptr \<times> (nat \<Rightarrow> segdesc)"
  k_idt :: "dt_ptr \<times> (nat \<Rightarrow> gatedesc)"
  k_elf :: elf
  k_heap :: kheap
  k_st :: kst

definition run_part ::
    "('k \<Rightarrow> 's) \<Rightarrow> ('s \<Rightarrow> 'k \<Rightarrow> 'k) \<Rightarrow> ('s \<Rightarrow> ('a, 's) run) \<Rightarrow> 'k \<Rightarrow> ('a, 'k) run" where
  "run_part get put f k =
     (case f (get k) of
        None \<Rightarrow> None
      | Some (Inl (Panic msg)) \<Rightarrow> kstop (Panic msg)
      | Some (Inl (Undefined msg)) \<Rightarrow> kstop (Undefined msg)
      | Some (Inl (Switched t)) \<Rightarrow> kstop (Switched (put t k))
      | Some (Inr (a, t)) \<Rightarrow> kret a (put t k))"

definition in_threads :: "(kst \<Rightarrow> ('a, kst) run) \<Rightarrow> kernel \<Rightarrow> ('a, kernel) run" where
  "in_threads = run_part k_st (\<lambda>t k. k\<lparr>k_st := t\<rparr>)"

definition in_heap :: "printer \<Rightarrow> (kheap \<Rightarrow> ('a, kheap) run) \<Rightarrow> kernel \<Rightarrow> ('a, kernel) run" where
  "in_heap pr f k =
     kbind (run_part k_heap (\<lambda>h k. k\<lparr>k_heap := h\<rparr>) f k) (\<lambda>a k'.
     kbind (in_threads (print_seq pr (map chars (drop (length (klog (k_heap k))) (klog (k_heap k'))))) k') (\<lambda>_ k'.
       kret a k'))"

section \<open>Start-up\<close>

text \<open>\<open>asm volatile("sti")\<close> is what \<open>local_intr_restore\<close> does.\<close>

definition init_drivers :: "addr \<Rightarrow> addr \<Rightarrow> kst \<Rightarrow> (unit, kst) run" where
  "init_drivers kbd_lck console_lck s =
     kbind (init_timer 1000 s) (\<lambda>_ s.
       let s = init_kbd kbd_lck s;
           s = local_intr_restore s
       in kret () (console_init console_lck s))"

definition boot_vmm :: "linkage \<Rightarrow> kernel \<Rightarrow> kernel" where
  "boot_vmm L k = k\<lparr>k_heap := init_vmm (at_pte_kern L) (k_heap k),
     k_st := register_interrupt_handler 14 Page_fault (k_st k)\<rparr>"

text \<open>
  The calls of \<open>kern_init\<close> before \<open>Test()\<close>. \<open>m\<close> is the memory under the boot tables, \<open>elf0\<close> what
  the stack holds where \<open>elf_from_multiboot\<close> puts its result, \<open>n\<close> the depth that \<open>printk\<close> may nest.
\<close>

definition kern_init :: "linkage \<Rightarrow> mem \<Rightarrow> elf \<Rightarrow> nat \<Rightarrow> kernel \<Rightarrow> (unit, kernel) run" where
  "kern_init L m elf0 n k =
     (let pr = printk (at_console_lck L) n;
          k = k\<lparr>k_gdt := init_gdt (at_gdt L) (snd (k_gdt k))\<rparr>;
          (idt, st) = init_idt (at_idt L) (at_stub L) (snd (k_idt k)) (k_st k);
          k = k\<lparr>k_idt := idt, k_st := st\<rparr>
      in kbind (klift (init_debug m (at_strtab_lit L) (at_symtab_lit L) (at_mboot L) elf0) k) (\<lambda>e k.
         kbind (in_heap pr (init_pmm m (at_mboot L) (at_kern_start L) (at_kern_end L)) (k\<lparr>k_elf := e\<rparr>)) (\<lambda>_ k.
         kbind (in_heap pr (init_slab swap_one (at_boot_cache L)) (boot_vmm L k)) (\<lambda>_ k.
         kbind (in_heap pr (init_mm (at_kern_end L)) k) (\<lambda>_ k.
         kbind (in_threads (init_sched (at_stack L)) k) (\<lambda>_ k.
           in_threads (init_drivers (at_kbd_lck L) (at_console_lck L)) k))))))"

section \<open>Running a part\<close>

lemma in_threads_kret [simp]: "f (k_st k) = kret a t \<Longrightarrow> in_threads f k = kret a (k\<lparr>k_st := t\<rparr>)"
  by (simp add: in_threads_def run_part_def kret_def)

lemma in_threads_panic [simp]: "f (k_st k) = kstop (Panic msg) \<Longrightarrow> in_threads f k = kstop (Panic msg)"
  by (simp add: in_threads_def run_part_def kstop_def)

lemma in_heap_quiet:
  assumes "f (k_heap k) = kret a h" "klog h = klog (k_heap k)"
  shows "in_heap pr f k = kret a (k\<lparr>k_heap := h\<rparr>)"
proof -
  have "in_threads (print_seq pr []) (k\<lparr>k_heap := h\<rparr>) = kret () (k\<lparr>k_heap := h\<rparr>)"
    by (simp add: in_threads_kret [where t = "k_st k"])
  moreover have "run_part k_heap (\<lambda>h k. k\<lparr>k_heap := h\<rparr>) f k = kret a (k\<lparr>k_heap := h\<rparr>)"
    using assms(1) by (simp add: run_part_def kret_def)
  ultimately show ?thesis using assms(2) by (simp add: in_heap_def)
qed

lemma in_heap_line:
  assumes "f (k_heap k) = kret a h" "klog h = klog (k_heap k) @ [txt]" "pr (chars txt) (k_st k) = kret () t"
  shows "in_heap pr f k = kret a (k\<lparr>k_heap := h, k_st := t\<rparr>)"
proof -
  have "in_threads (print_seq pr [chars txt]) (k\<lparr>k_heap := h\<rparr>) = kret () (k\<lparr>k_heap := h, k_st := t\<rparr>)"
    using assms(3) by (simp add: in_threads_kret [where t = t])
  moreover have "run_part k_heap (\<lambda>h k. k\<lparr>k_heap := h\<rparr>) f k = kret a (k\<lparr>k_heap := h\<rparr>)"
    using assms(1) by (simp add: run_part_def kret_def)
  ultimately show ?thesis using assms(2) by (simp add: in_heap_def)
qed

end
