(* ===== verification/Boot_Correct.thy ===== *)
theory Boot_Correct
  imports Boot
begin

text \<open>
  Start-up establishes what the other theories assume: from zeroed static data and the boot tables
  \<open>kern_init\<close> returns with a heap that serves requests, the memory map of the kernel, a free console
  and an idle thread that runs with interrupts on. Before \<open>init_sched\<close> there is no current thread,
  and the console lock is not set up: one message gets through, a second one panics.
\<close>

section \<open>Messages before the console is set up\<close>

text \<open>
  \<open>early v\<close>: no thread runs and the console lock is as the loader left it, except that its value is
  \<open>v\<close> and interrupts may be on.
\<close>

definition early :: "addr \<Rightarrow> uchar \<Rightarrow> kst \<Rightarrow> bool" where
  "early lck v s \<longleftrightarrow> current s = NULL \<and> lock_holder s lck = NULL \<and> holder_repeat_times s lck = 0 \<and>
     sem_value s (lock_sem lck) = v \<and> l_next (lists s) (waiters (lock_sem lck)) = NULL \<and> waiters (lock_sem lck) \<noteq> NULL"

lemma early_write:
  assumes "early lck v s"
  shows "printk lck (Suc n) msg s =
    sema_up (lock_sem lck) (set_repeat lck 0 (set_holder lck NULL (write_chars 15 0 msg (set_repeat lck 1 s))))"
proof -
  let ?s = "write_chars 15 0 msg (set_repeat lck 1 s)"
  have "same_threads (set_repeat lck 1 s) ?s" "same_locks (set_repeat lck 1 s) ?s" by simp_all
  then have "current ?s = NULL" "lock_holder ?s lck = NULL" "holder_repeat_times ?s lck = 1"
    using assms by (simp_all add: same_threads_def same_locks_def early_def)
  then show ?thesis
    using assms by (simp add: early_def console_write_def console_require_def console_release_def req_lock_def
        lock_release_def write_chars_def Let_def)
qed

lemma early_message:
  assumes "early lck 0 s"
  obtains t where "printk lck (Suc n) msg s = kret () t" "early lck 1 t" "same_threads s t" "same_rest s t"
    "kst.intr_on t" "same_screen (write_chars 15 0 msg s) t"
proof -
  let ?w = "write_chars 15 0 msg (set_repeat lck 1 s)"
  let ?s = "set_repeat lck 0 (set_holder lck NULL ?w)"
  have fr: "same_threads (set_repeat lck 1 s) ?w" "same_locks (set_repeat lck 1 s) ?w" by simp_all
  have w: "lists ?w = lists s" "sem_value ?w = sem_value s" "current ?w = current s"
    using fr by (simp_all add: same_threads_def same_locks_def)
  let ?t = "local_intr_restore (set_sem (lock_sem lck) 1 (local_intr_save ?s))"
  have "sema_up (lock_sem lck) ?s = kret () ?t"
    using assms w by (simp add: sema_up_def list_empty_def list_front_def early_def Let_def)
  then have "printk lck (Suc n) msg s = kret () ?t" using early_write [OF assms] by simp
  moreover have "early lck 1 ?t" using assms w by (simp add: early_def)
  moreover have "same_threads s ?t" "same_rest s ?t" by simp_all
  moreover have "kst.intr_on ?t" by simp
  moreover have "same_screen s (set_repeat lck 1 s)" by (simp add: same_screen_def set_repeat_def)
  from write_chars_same [OF this] have "same_screen (write_chars 15 0 msg s) ?t"
    by (simp add: same_screen_def set_sem_def set_holder_def set_repeat_def local_intr_save_def local_intr_restore_def)
  ultimately show ?thesis by (rule that)
qed

lemma early_message_again:
  assumes "early lck 1 s"
  shows "printk lck (Suc n) msg s = kstop (Panic ''before V sema val must be 0'')"
proof -
  let ?w = "write_chars 15 0 msg (set_repeat lck 1 s)"
  have "same_locks (set_repeat lck 1 s) ?w" by simp
  then have "sem_value ?w = sem_value s" by (simp add: same_locks_def)
  then show ?thesis unfolding early_write [OF assms] using assms by (simp add: sema_up_def early_def Let_def)
qed

section \<open>The scheduler and the drivers\<close>

lemma console_clear_screen:
  assumes "0 \<le> i" "i < 2000"
  shows "text_video_mem (console_clear s) i = blank"
proof -
  have "fold (\<lambda>i m. m(int i := blank)) [0..<80 * 25] f (int (nat i)) = blank" for f
    by (rule fold_hit [where slot = int and val = "\<lambda>_. blank"]) (use assms in auto)
  then show ?thesis
    using assms by (simp add: console_clear_def move_cursor_def outb_def Let_def del: upt_rec_numeral)
qed

lemma console_clear_reads [simp]:
  "lists (console_clear s) = lists s" "procs (console_clear s) = procs s" "current (console_clear s) = current s"
  "idle (console_clear s) = idle s"
  "proc_ready_list (console_clear s) = proc_ready_list s" "kst.intr_on (console_clear s) = kst.intr_on s"
  "unlocked l (console_clear s) = unlocked l s" "idle_queue (console_clear s) xs = idle_queue s xs"
  "interrupt_handlers (console_clear s) = interrupt_handlers s" "on_screen (console_clear s)"
  "ext_status (console_clear s) = ext_status s"
  by (simp_all add: console_clear_def move_cursor_def outb_def on_screen_def unlocked_def idle_queue_def Let_def
      del: upt_rec_numeral)

text \<open>The page of the idle thread is the last one of the boot stack.\<close>

definition idle_page :: "addr \<Rightarrow> addr" where
  "idle_page stack = stack + 28672"

definition threads_apart :: "addr \<Rightarrow> addr \<Rightarrow> addr \<Rightarrow> bool" where
  "threads_apart stack con kbd \<longleftrightarrow> con \<noteq> kbd \<and>
     waiters (lock_sem con) \<notin> {NULL, node NULL, node (idle_page stack)} \<and> waiters (lock_sem kbd) \<noteq> node NULL \<and>
     idle_page stack \<noteq> NULL \<and> node (idle_page stack) \<noteq> NULL"

definition running :: "linkage \<Rightarrow> kst \<Rightarrow> bool" where
  "running L s \<longleftrightarrow> run_queue (at_console_lck L) s [] \<and> current s = idle_page (at_stack L) \<and> idle s = current s \<and>
     ticks (procs s (current s)) = 100 \<and> prio (procs s (current s)) = 100 \<and>
     p_state (procs s (current s)) = PROC_RUNNING \<and> kst.intr_on s \<and>
     unlocked (at_console_lck L) s \<and> unlocked (at_kbd_lck L) s \<and> idle_queue s [] \<and> on_screen s \<and>
     (\<forall>i. 0 \<le> i \<longrightarrow> i < 2000 \<longrightarrow> text_video_mem s i = blank) \<and>
     interrupt_handlers s 14 = Some Page_fault \<and> interrupt_handlers s 32 = Some Timer_callback \<and>
     interrupt_handlers s 33 = Some Kbd_handler \<and> (\<forall>j. j \<notin> {14, 32, 33} \<longrightarrow> interrupt_handlers s j = None)"

lemma running_serves: "running L s \<Longrightarrow> con_lck dev = at_console_lck L \<Longrightarrow> serving dev s [] []"
  by (simp add: running_def serving_def)

lemma init_sched_runs:
  assumes "proc_ready_list s = NULL" "proc_block_list s = NULL" "proc_hanging_list s = NULL"
    and name: "proc_name (procs s (idle_page stack)) 4 = 0"
  obtains t where "init_sched stack s = kret () t" "lists t = list_init (node NULL) (lists s)"
    "current t = idle_page stack" "idle t = idle_page stack" "proc_ready_list t = NULL"
    "interrupt_handlers t = interrupt_handlers s" "ext_status t = ext_status s"
    "ticks (procs t (idle_page stack)) = 100" "prio (procs t (idle_page stack)) = 100"
    "p_state (procs t (idle_page stack)) = PROC_RUNNING" "terminated (proc_name (procs t (idle_page stack)))"
proof -
  have "\<exists>t. init_sched stack s = kret () t \<and> lists t = list_init (node NULL) (lists s) \<and>
    current t = idle_page stack \<and> idle t = idle_page stack \<and> proc_ready_list t = NULL \<and>
    interrupt_handlers t = interrupt_handlers s \<and> ext_status t = ext_status s \<and>
    ticks (procs t (idle_page stack)) = 100 \<and> prio (procs t (idle_page stack)) = 100 \<and>
    p_state (procs t (idle_page stack)) = PROC_RUNNING \<and> proc_name (procs t (idle_page stack)) 4 = 0"
    using assms
    by (simp add: init_sched_def thread_idle_def set_proc_name_def idle_page_def add.commute [of stack] upd_proc_def list_init_def
        set_next_def set_prev_def Let_def)
  then obtain t where t: "init_sched stack s = kret () t" "lists t = list_init (node NULL) (lists s)"
    "current t = idle_page stack" "idle t = idle_page stack" "proc_ready_list t = NULL"
    "interrupt_handlers t = interrupt_handlers s" "ext_status t = ext_status s"
    "ticks (procs t (idle_page stack)) = 100" "prio (procs t (idle_page stack)) = 100"
    "p_state (procs t (idle_page stack)) = PROC_RUNNING" "proc_name (procs t (idle_page stack)) 4 = 0" by blast
  have "terminated (proc_name (procs t (idle_page stack)))"
    using t(11) by (auto simp: terminated_def list_ex_iff intro!: bexI [of _ 4] simp del: upt_rec_numeral)
  with t(1-10) show ?thesis by (rule that)
qed

lemma init_drivers_runs:
  assumes "con \<noteq> kbd"
  obtains t where "init_drivers kbd con s = kret () t"
    "lists t = list_init (waiters (lock_sem con)) (list_init (waiters (lock_sem kbd)) (lists s))"
    "current t = current s" "idle t = idle s" "procs t = procs s" "proc_ready_list t = proc_ready_list s"
    "interrupt_handlers t = (interrupt_handlers s)(32 := Some Timer_callback, 33 := Some Kbd_handler)"
    "ext_status t = ext_status s" "kst.intr_on t" "unlocked con t" "unlocked kbd t" "idle_queue t []" "on_screen t"
    "\<forall>i. 0 \<le> i \<longrightarrow> i < 2000 \<longrightarrow> text_video_mem t i = blank"
proof -
  obtain u where u: "init_timer 1000 s = kret () u" "lists u = lists s" "procs u = procs s" "current u = current s"
      "idle u = idle s" "proc_ready_list u = proc_ready_list s" "ext_status u = ext_status s"
      "interrupt_handlers u = (interrupt_handlers s)(32 := Some Timer_callback)"
    by (simp add: init_timer_def register_interrupt_handler_def outb_def Let_def)
  let ?l = "lock_init con (local_intr_restore (init_kbd kbd u))"
  let ?t = "console_clear ?l"
  have "init_drivers kbd con s = kret () ?t"
    using u(1) by (simp add: init_drivers_def console_init_def Let_def)
  moreover have "lists ?l = list_init (waiters (lock_sem con)) (list_init (waiters (lock_sem kbd)) (lists u))"
    "procs ?l = procs u" "current ?l = current u" "idle ?l = idle u" "proc_ready_list ?l = proc_ready_list u"
    "ext_status ?l = ext_status u" "kst.intr_on ?l"
    "interrupt_handlers ?l = (interrupt_handlers u)(33 := Some Kbd_handler)"
    by (simp_all add: lock_init_def sema_init_def init_kbd_def ioqueue_init_def register_interrupt_handler_def
        upd_ioq_def set_sem_def set_holder_def set_repeat_def local_intr_restore_def Let_def)
  moreover have "unlocked con ?l" "unlocked kbd ?l" "idle_queue ?l []"
    using assms
    by (simp_all add: unlocked_def idle_queue_def ioq_holds_def lock_init_def sema_init_def init_kbd_def
        ioqueue_init_def register_interrupt_handler_def upd_ioq_def set_sem_def set_holder_def set_repeat_def
        local_intr_restore_def list_init_def set_next_def set_prev_def waiters_def lock_sem_def Let_def)
  ultimately show ?thesis
    using u(2-8) by (intro that [of ?t]) (simp_all add: console_clear_screen)
qed

lemma start_threads:
  assumes apart: "threads_apart (at_stack L) (at_console_lck L) (at_kbd_lck L)"
    and heads: "proc_ready_list s = NULL" "proc_block_list s = NULL" "proc_hanging_list s = NULL"
    and name: "proc_name (procs s (idle_page (at_stack L))) 4 = 0"
    and pgf: "interrupt_handlers s = [14 \<mapsto> Page_fault]"
  shows "\<exists>t u. init_sched (at_stack L) s = kret () t \<and> init_drivers (at_kbd_lck L) (at_console_lck L) t = kret () u \<and>
    running L u \<and> ext_status u = ext_status s"
proof -
  let ?p = "idle_page (at_stack L)" and ?c = "at_console_lck L" and ?k = "at_kbd_lck L"
  obtain t where t: "init_sched (at_stack L) s = kret () t" "lists t = list_init (node NULL) (lists s)"
    "current t = ?p" "idle t = ?p" "proc_ready_list t = NULL"
    "interrupt_handlers t = interrupt_handlers s" "ext_status t = ext_status s"
    "ticks (procs t ?p) = 100" "prio (procs t ?p) = 100"
    "p_state (procs t ?p) = PROC_RUNNING" "terminated (proc_name (procs t ?p))"
    by (rule init_sched_runs [OF heads name])
  have "?c \<noteq> ?k" using apart by (simp add: threads_apart_def)
  then obtain u where u: "init_drivers ?k ?c t = kret () u"
    "lists u = list_init (waiters (lock_sem ?c)) (list_init (waiters (lock_sem ?k)) (lists t))"
    "current u = current t" "idle u = idle t" "procs u = procs t" "proc_ready_list u = proc_ready_list t"
    "interrupt_handlers u = (interrupt_handlers t)(32 := Some Timer_callback, 33 := Some Kbd_handler)"
    "ext_status u = ext_status t" "kst.intr_on u" "unlocked ?c u" "unlocked ?k u" "idle_queue u []" "on_screen u"
    "\<forall>i. 0 \<le> i \<longrightarrow> i < 2000 \<longrightarrow> text_video_mem u i = blank"
    by (rule init_drivers_runs [where s = t])
  have "ready u []"
    using apart t(2,5) u(2,6)
    by (simp add: ready_def clist_def threads_apart_def list_init_def set_next_def set_prev_def node_def node_offset_def)
  moreover have "queueable u ?p" using apart t(5) u(6) by (simp add: queueable_def threads_apart_def)
  ultimately have "run_queue ?c u []"
    using apart t u by (auto simp: run_queue_def threads_apart_def)
  then have "running L u"
    using t u pgf by (simp add: running_def)
  with t(1,7) u(1,8) show ?thesis by (intro exI [of _ t] exI [of _ u]) simp
qed

section \<open>The heap's start\<close>

text \<open>
  The directory of \<open>kern_entry\<close>, seen at the kernel's offset. \<open>kern_entry\<close> writes four entries of the
  page at \<open>0x1000\<close> and clears none: that the others are zero is up to the loader.
\<close>

definition boot_directory :: "'a vmm_scheme \<Rightarrow> bool" where
  "boot_directory h \<longleftrightarrow> cr3 h = 0x1000 \<and>
     (\<exists>w. \<forall>i. unat i < 1024 \<longrightarrow> words h (0xC0001000 + 4 * i) = kern_entry_tables w (0x1000 + 4 * i) \<and>
        (i \<notin> {0, 1, 0x300, 0x301} \<longrightarrow> w (0x1000 + 4 * i) = 0))"

definition tables_place :: "addr \<Rightarrow> bool" where
  "tables_place K \<longleftrightarrow> aligned K \<and> 0xC0100000 \<le> unat K \<and> unat K + 524288 \<le> 2 ^ 32"

lemma boot_directory_entry:
  assumes "boot_directory h" "unat i < 1024" "i \<notin> {0x300, 0x301}"
  shows "words h (0xC0001000 + 4 * i) AND PAGE_MASK = (if i = 0 then 0x2000 else if i = 1 then 0x3000 else 0)"
proof -
  obtain w where w: "words h (0xC0001000 + 4 * i) = kern_entry_tables w (0x1000 + 4 * i)"
      "i \<notin> {0, 1, 0x300, 0x301} \<longrightarrow> w (0x1000 + 4 * i) = 0"
    using assms by (auto simp: boot_directory_def)
  have "aligned 0x1000" by (simp add: aligned_def)
  note inj = slot_inj [OF this this assms(2)]
  have "0x1000 + 4 * i = 0x1000 \<longleftrightarrow> i = 0" "0x1000 + 4 * i = 0x1004 \<longleftrightarrow> i = 1"
    "0x1000 + 4 * i = 0x1C00 \<longleftrightarrow> i = 0x300" "0x1000 + 4 * i = 0x1C04 \<longleftrightarrow> i = 0x301"
    using inj [of 0] inj [of 1] inj [of "0x300"] inj [of "0x301"] by simp_all
  then show ?thesis
    using w assms(3) kern_entry_slot [OF assms(2), of w]
    by (auto simp: PTE_P_def PTE_W_def PTE_U_def PAGE_MASK_def)
qed

lemma init_vmm_tables:
  assumes dir: "boot_directory h" and K: "tables_place K"
  shows "pgd_kern (init_vmm K h) = 0xC0001000"
    and "768 \<le> unat (PGD_IDX v) \<Longrightarrow> unat (PGD_IDX v) < 896 \<Longrightarrow>
      table (init_vmm K h) 0xC0001000 v = K + 4096 * of_nat (unat (PGD_IDX v) - 768) - PAGE_OFFSET"
    and "\<not> (768 \<le> unat (PGD_IDX v) \<and> unat (PGD_IDX v) < 896) \<Longrightarrow>
      table (init_vmm K h) 0xC0001000 v = (if PGD_IDX v = 0 then 0x2000 else if PGD_IDX v = 1 then 0x3000 else 0)"
proof -
  let ?i = "PGD_IDX v" and ?G = "0xC0001000 :: uint"
  have K': "aligned K" "0xC0100000 \<le> unat K" "unat K + 524288 \<le> 2 ^ 32" using K by (simp_all add: tables_place_def)
  have "cr3 h = 0x1000" using dir by (simp add: boot_directory_def)
  then have t: "words (init_vmm K h) = fill_pgd ?G K (fill_ptes K (words h))" "pgd_kern (init_vmm K h) = ?G"
    by (simp_all add: init_vmm_def LoadCr3_def PTE_ADDR_def PAGE_OFFSET_def Let_def)
  show "pgd_kern (init_vmm K h) = ?G" by (rule t(2))
  have G: "aligned ?G" by (simp add: aligned_def)
  have i: "unat ?i < 1024" by (rule idx_less)
  show "table (init_vmm K h) ?G v = K + 4096 * of_nat (unat ?i - 768) - PAGE_OFFSET"
    if range: "768 \<le> unat ?i" "unat ?i < 896"
  proof -
    define j where "j = unat ?i - 768"
    have j: "j < 128" "unat ?i = 768 + j" using range by (auto simp: j_def)
    then have "?i = PGD_IDX PAGE_OFFSET + of_nat j" using pgd_idx_nat [OF j(1)] by (simp add: word_unat_eq_iff)
    then have e: "words (init_vmm K h) (?G + 4 * ?i) = (K + 4096 * of_nat j - PAGE_OFFSET) OR PTE_P OR PTE_W OR PTE_U"
      using fill_pgd_at [OF G j(1)] by (simp add: t(1))
    have T: "K + 4096 * of_nat j - PAGE_OFFSET + PAGE_OFFSET = K + 4 * of_nat (1024 * j)" by simp
    have "4096 dvd unat (K + 4096 * of_nat j - PAGE_OFFSET + PAGE_OFFSET)"
      using pte_array_nat [OF K'(3), of "1024 * j"] K'(1) j unfolding T aligned_nat by simp
    then have "aligned (K + 4096 * of_nat j - PAGE_OFFSET)"
      using aligned_offset [of "K + 4096 * of_nat j - PAGE_OFFSET"] by (simp only: aligned_nat)
    then show ?thesis unfolding table_def rd32_def e by (simp add: entry_bits(2) j_def)
  qed
  show "table (init_vmm K h) ?G v = (if ?i = 0 then 0x2000 else if ?i = 1 then 0x3000 else 0)"
    if out: "\<not> (768 \<le> unat ?i \<and> unat ?i < 896)"
  proof -
    have "?G + 4 * (PGD_IDX PAGE_OFFSET + of_nat n) \<noteq> ?G + 4 * ?i" if "n < 128" for n
    proof -
      have "PGD_IDX PAGE_OFFSET + of_nat n \<noteq> ?i" using pgd_idx_nat [OF that] out that by auto
      then show ?thesis using slot_inj [OF G G _ i, of "PGD_IDX PAGE_OFFSET + of_nat n"] pgd_idx_nat [OF that] that by simp
    qed
    then have a: "fill_pgd ?G K m (?G + 4 * ?i) = m (?G + 4 * ?i)" for m
      unfolding fill_pgd_def PTE_COUNT_def by (intro fold_miss) simp
    have "K + 4 * of_nat n \<noteq> ?G + 4 * ?i" if "n < 131072" for n
    proof -
      have "unat (?G + 4 * ?i) < unat (K + 4 * of_nat n)"
        using pte_array_nat [OF K'(3) that] slot_nat [OF G i] i K'(2) by simp
      then show ?thesis by auto
    qed
    then have b: "fill_ptes K m (?G + 4 * ?i) = m (?G + 4 * ?i)" for m
      unfolding fill_ptes_def PTE_COUNT_def NPTENTRIES_def by (intro fold_miss) simp
    have "?i \<notin> {0x300, 0x301}" using out by auto
    from boot_directory_entry [OF dir i this] show ?thesis
      by (simp add: table_def rd32_def t(1) a b)
  qed
qed

text \<open>
  What the boot loader and the linker have to provide: a memory map with one usable region at 1 MiB
  and at least 48 usable frames, the page tables of the kernel between 1 MiB and the first frame,
  and the static cache below the heap. The first frame lies a quarter of the image's size above
  1 MiB, so that the tables fit below it is not a matter of course: they are part of the image.
\<close>

definition machine_ok :: "linkage \<Rightarrow> mem \<Rightarrow> multiboot \<Rightarrow> nat \<Rightarrow> bool" where
  "machine_ok L m info e \<longleftrightarrow>
     bytes m (at_mboot L) (multiboot_bytes info) \<and> one_region (mmap_of m info) (unat (mb_mmap_length info)) e \<and>
     unat (at_kern_start L) \<le> unat (at_kern_end L) \<and> unat (at_kern_end L) - unat (at_kern_start L) < 2 ^ 31 \<and>
     1048576 + unat (length_low (mmap_of m info e)) < 2 ^ 32 \<and>
     48 \<le> pages_used (frame_count (mmap_of m info e) (at_kern_start L) (at_kern_end L)) \<and>
     tables_place (at_pte_kern L) \<and>
     unat (at_pte_kern L) - 3221225472 + 524288 \<le> first_frame (at_kern_start L) (at_kern_end L) \<and>
     at_boot_cache L \<noteq> NULL \<and> unat (at_boot_cache L) < unat HEAP_START"

lemma init_vmm_keeps [simp]:
  "phy_pages (init_vmm K h) = phy_pages h" "buddy_table (init_vmm K h) = buddy_table h"
  "phy_page_num (init_vmm K h) = phy_page_num h" "klog (init_vmm K h) = klog h" "vmm.more (init_vmm K h) = vmm.more h"
  by (simp_all add: init_vmm_def Let_def)

lemma pgd_table_nat:
  assumes "tables_place K" "j < 128"
  shows "unat (K + 4096 * of_nat j - PAGE_OFFSET) = unat K - 3221225472 + 4096 * j"
proof -
  have K: "0xC0100000 \<le> unat K" "unat K + 524288 \<le> 2 ^ 32" using assms(1) by (simp_all add: tables_place_def)
  have "unat (K + 4 * of_nat (1024 * j)) = unat K + 4096 * j" using pte_array_nat [OF K(2), of "1024 * j"] assms(2) by simp
  then have "unat (K + 4096 * of_nat j) = unat K + 4096 * j" by simp
  then show ?thesis using K by (simp add: unat_sub_if_size PAGE_OFFSET_def)
qed

lemma boot_table_values:
  assumes dir: "boot_directory h" and K: "tables_place K"
  defines "t \<equiv> init_vmm K h"
  shows "table t 0xC0001000 v = 0 \<or> table t 0xC0001000 v \<in> {0x2000, 0x3000} \<or>
    (1048576 \<le> unat (table t 0xC0001000 v) \<and> unat (table t 0xC0001000 v) < unat K - 3221225472 + 524288)"
    and "table t 0xC0001000 v \<noteq> 0 \<Longrightarrow> table t 0xC0001000 v = table t 0xC0001000 w \<Longrightarrow> PGD_IDX v = PGD_IDX w"
proof -
  have K1: "1048576 \<le> unat K - 3221225472" using K unfolding tables_place_def by linarith
  have inside: "unat (table t 0xC0001000 u) = unat K - 3221225472 + 4096 * (unat (PGD_IDX u) - 768)"
    if "768 \<le> unat (PGD_IDX u)" "unat (PGD_IDX u) < 896" for u
    using init_vmm_tables(2) [OF dir K that] pgd_table_nat [OF K, of "unat (PGD_IDX u) - 768"] that by (simp add: t_def)
  note outside = init_vmm_tables(3) [OF dir K, folded t_def]
  show "table t 0xC0001000 v = 0 \<or> table t 0xC0001000 v \<in> {0x2000, 0x3000} \<or>
    (1048576 \<le> unat (table t 0xC0001000 v) \<and> unat (table t 0xC0001000 v) < unat K - 3221225472 + 524288)"
    using inside [of v] outside [of v] K1 by (cases "768 \<le> unat (PGD_IDX v) \<and> unat (PGD_IDX v) < 896") auto
  assume nz: "table t 0xC0001000 v \<noteq> 0" and eq: "table t 0xC0001000 v = table t 0xC0001000 w"
  show "PGD_IDX v = PGD_IDX w"
  proof (cases "768 \<le> unat (PGD_IDX v) \<and> unat (PGD_IDX v) < 896")
    case True
    note iv = inside [of v]
    have "768 \<le> unat (PGD_IDX w) \<and> unat (PGD_IDX w) < 896"
    proof (rule ccontr)
      assume "\<not> ?thesis"
      from outside [OF this] have "unat (table t 0xC0001000 w) \<le> 12288" by simp
      then show False using iv True eq K1 by simp
    qed
    moreover from this have "unat (PGD_IDX v) - 768 = unat (PGD_IDX w) - 768" using iv True inside [of w] eq by simp
    ultimately have "unat (PGD_IDX v) = unat (PGD_IDX w)" using True by linarith
    then show ?thesis by (simp add: word_unat_eq_iff)
  next
    case False
    have "\<not> (768 \<le> unat (PGD_IDX w) \<and> unat (PGD_IDX w) < 896)"
    proof
      assume "768 \<le> unat (PGD_IDX w) \<and> unat (PGD_IDX w) < 896"
      with inside [of w] K1 have "1048576 \<le> unat (table t 0xC0001000 w)" by simp
      moreover have "unat (table t 0xC0001000 v) \<le> 12288" using outside [OF False] by simp
      ultimately show False using eq by simp
    qed
    then show ?thesis using outside [OF False] outside [of w] eq nz by (auto split: if_splits)
  qed
qed

lemma boot_pool:
  assumes ok: "machine_ok L m info e" and dir: "boot_directory h" and n: "phy_page_num h = 0"
  defines "N \<equiv> frame_count (mmap_of m info e) (at_kern_start L) (at_kern_end L)"
  obtains t where "init_pmm m (at_mboot L) (at_kern_start L) (at_kern_end L) h = kret () t"
    "heap_ok (init_vmm (at_pte_kern L) t) (mset (map PG [0..<pages_used N]))"
    "klog t = klog h" "pmm.more t = pmm.more h"
proof -
  let ?K = "at_pte_kern L" and ?a = "first_frame (at_kern_start L) (at_kern_end L)"
  have info: "multiboot_at m (at_mboot L) = info" and K: "tables_place ?K" and below: "unat ?K - 3221225472 + 524288 \<le> ?a"
    and reg: "one_region (mmap_of m info) (unat (mb_mmap_length info)) e"
      "unat (at_kern_start L) \<le> unat (at_kern_end L)" "unat (at_kern_end L) - unat (at_kern_start L) < 2 ^ 31"
      "1048576 + unat (length_low (mmap_of m info e)) < 2 ^ 32" and some: "48 \<le> pages_used N"
    using ok multiboot_layout by (auto simp: machine_ok_def N_def)
  have "pages_used N \<le> N" by (simp add: pages_used_def)
  then have "1 \<le> N" using some by simp
  then obtain t A where t: "init_buddy (mmap_of m info) (mb_mmap_length info) (at_kern_start L) (at_kern_end L) h = kret () t"
      "buddy_rel t A" "pages_of A = mset (map PG [0..<pages_used N])" "phy_page_num t = int N"
      "\<And>j. j < N \<Longrightarrow> start_addr (phy_pages t (PG j)) = of_nat (?a + 4096 * j) \<and> ref_num (phy_pages t (PG j)) = 0"
      "klog t = klog h" "pmm.more t = pmm.more h" "N \<le> 130817"
    using init_buddy_establishes [OF reg n, folded N_def] by blast
  let ?M = "mset (map PG [0..<pages_used N])" and ?t = "init_vmm ?K t"
  have addr: "unat (start_addr (phy_pages t (PG j))) = ?a + 4096 * j" if "j < N" for j
  proof -
    have "?a + 4096 * j < 2 ^ 32"
      using nframes_range [of j ?a "1048576 + unat (length_low (mmap_of m info e))"] that
      by (simp add: N_def frame_count_def)
    then show ?thesis using t(5) [OF that] by (simp only: unat_of_nat) simp
  qed
  have "\<exists>j<N. p = PG j" if "p \<in># ?M" for p
    using that \<open>pages_used N \<le> N\<close> by auto
  note frame = this
  have "ref_num (phy_pages t p) = 0" if "p \<in># ?M" for p using frame [OF that] t(5) by auto
  then have "buddy_pool t ?M" using t(2,3) by (auto simp: buddy_pool_def)
  then have pool: "buddy_pool ?t ?M" by (rule buddy_pool_cong) (simp_all add: nxt_def prv_def)
  have more: "cr3 t = cr3 h" "words t = words h" using t(7) by (cases t; cases h; simp)+
  have dirt: "boot_directory t" using dir by (simp add: boot_directory_def more)
  have pgd: "pgd_kern ?t = 0xC0001000" by (rule init_vmm_tables(1) [OF dirt K])
  note vals = boot_table_values [OF dirt K]
  have tabs: "tables_ok ?t 0xC0001000"
    unfolding tables_ok_def
  proof (intro conjI allI impI)
    show "aligned 0xC0001000" by (simp add: aligned_def)
    fix v assume nz: "table ?t 0xC0001000 v \<noteq> 0"
    show "table ?t 0xC0001000 v + PAGE_OFFSET \<noteq> 0xC0001000"
    proof
      assume "table ?t 0xC0001000 v + PAGE_OFFSET = 0xC0001000"
      then have "table ?t 0xC0001000 v = 0xC0001000 - PAGE_OFFSET" by (metis add_diff_cancel_right')
      then have e: "table ?t 0xC0001000 v = 0x1000" by (simp add: PAGE_OFFSET_def)
      have "unat (0x1000 :: uint) = 4096" by simp
      with vals(1) [of v] show False unfolding e by simp
    qed
  next
    fix v w assume "table ?t 0xC0001000 v \<noteq> 0" "table ?t 0xC0001000 v = table ?t 0xC0001000 w"
    then show "PGD_IDX v = PGD_IDX w" by (rule vals(2))
  qed
  have spare: "spare_frames ?t 0xC0001000 ?M"
    unfolding spare_frames_def Let_def
  proof (intro allI impI)
    fix p assume "p \<in># ?M"
    then obtain j where j: "j < N" "p = PG j" using frame by blast
    let ?s = "start_addr (phy_pages ?t p)"
    have s: "unat ?s = ?a + 4096 * j" using addr [OF j(1)] j(2) by simp
    have a: "1048576 \<le> ?a" "4096 dvd ?a" by (auto simp: first_frame_def page_up_def div_le_mono)
    have "aligned ?s" unfolding aligned_nat s using a(2) by simp
    moreover have "?s \<noteq> 0" using s a by auto
    moreover have "?s + PAGE_OFFSET \<noteq> 0xC0001000"
    proof
      assume "?s + PAGE_OFFSET = 0xC0001000"
      then have "?s = 0xC0001000 - PAGE_OFFSET" by (metis add_diff_cancel_right')
      then have "unat ?s = 4096" by (simp add: PAGE_OFFSET_def)
      then show False using s a by simp
    qed
    moreover have "table ?t 0xC0001000 w \<noteq> ?s" for w
    proof
      assume e: "table ?t 0xC0001000 w = ?s"
      have "?s \<noteq> 0" using s a by auto
      moreover have "unat ?s \<noteq> unat (0x2000 :: uint)" "unat ?s \<noteq> unat (0x3000 :: uint)" using s a(1) by simp_all
      ultimately have "unat ?s < unat ?K - 3221225472 + 524288" using vals(1) [of w] unfolding e by auto
      then show False using s below by simp
    qed
    ultimately show "aligned ?s \<and> ?s \<noteq> 0 \<and> ?s + PAGE_OFFSET \<noteq> 0xC0001000 \<and> (\<forall>w. table ?t 0xC0001000 w \<noteq> ?s)" by blast
  qed
  have "frames_apart ?t"
    unfolding frames_apart_def
  proof (intro allI impI)
    fix j k assume jk: "int k < phy_page_num ?t" "j < k"
    then have "j < N" "k < N" using t(4) by simp_all
    from addr [OF this(1)] addr [OF this(2)] jk(2)
    show "start_addr (phy_pages ?t (PG j)) \<noteq> start_addr (phy_pages ?t (PG k))" by auto
  qed
  with tabs spare pool pgd have "heap_ok ?t ?M" by (simp add: heap_ok_def)
  then show ?thesis using t(1,6,7) by (intro that [of t]) (simp_all add: init_pmm_def info Let_def)
qed

text \<open>
  Without the condition on the place of the tables: a page table that lies among the frames is in
  the pool while the directory uses it.
\<close>

lemma tables_among_frames:
  fixes h :: "'a vmm_scheme"
  assumes dir: "boot_directory h" and K: "tables_place K" and n: "phy_page_num h = 0"
    and reg: "one_region mmap (unat len) e" "unat kern_start \<le> unat kern_end"
      "unat kern_end - unat kern_start < 2 ^ 31" "1048576 + unat (length_low (mmap e)) < 2 ^ 32"
    and i: "i < 128"
  defines "a \<equiv> first_frame kern_start kern_end" and "N \<equiv> frame_count (mmap e) kern_start kern_end"
  assumes inside: "a \<le> unat K - 3221225472 + 4096 * i" "unat K - 3221225472 + 4096 * i < a + 4096 * pages_used N"
  shows "\<exists>t j. init_buddy mmap len kern_start kern_end h = kret () t \<and> j < pages_used N \<and>
    buddy_pool (init_vmm K t) (mset (map PG [0..<pages_used N])) \<and>
    table (init_vmm K t) (pgd_kern (init_vmm K t)) (PAGE_OFFSET + 0x400000 * of_nat i) =
      start_addr (phy_pages (init_vmm K t) (PG j))"
proof -
  have le: "pages_used N \<le> N" by (simp add: pages_used_def)
  then have "1 \<le> N" using inside by simp
  then obtain t A where t: "init_buddy mmap len kern_start kern_end h = kret () t"
      "buddy_rel t A" "pages_of A = mset (map PG [0..<pages_used N])"
      "\<And>j. j < N \<Longrightarrow> start_addr (phy_pages t (PG j)) = of_nat (a + 4096 * j) \<and> ref_num (phy_pages t (PG j)) = 0"
      "pmm.more t = pmm.more h"
    using init_buddy_establishes [OF reg n, folded N_def a_def] by blast
  have "ref_num (phy_pages t p) = 0" if "p \<in># mset (map PG [0..<pages_used N])" for p
    using that t(4) le by auto
  then have "buddy_pool t (mset (map PG [0..<pages_used N]))" using t(2,3) by (auto simp: buddy_pool_def)
  then have pool: "buddy_pool (init_vmm K t) (mset (map PG [0..<pages_used N]))"
    by (rule buddy_pool_cong) (simp_all add: nxt_def prv_def)
  have "cr3 t = cr3 h" "words t = words h" using t(5) by (cases t; cases h; simp)+
  then have dirt: "boot_directory t" using dir by (simp add: boot_directory_def)
  define j where "j = (unat K - 3221225472 + 4096 * i - a) div 4096"
  have al: "4096 dvd a" by (simp add: a_def first_frame_def page_up_def)
  have "4096 dvd unat K" using K aligned_nat by (simp add: tables_place_def)
  then have "4096 dvd unat K - 3221225472 + 4096 * i - a"
    using al by (intro dvd_diff_nat dvd_add) simp_all
  then have j: "unat K - 3221225472 + 4096 * i = a + 4096 * j" using inside(1) by (simp add: j_def)
  then have "j < pages_used N" using inside(2) by simp
  have v: "PAGE_OFFSET + 0x400000 * of_nat i = (of_nat (3221225472 + 4194304 * i) :: uint)" by (simp add: PAGE_OFFSET_def)
  have "unat (of_nat (3221225472 + 4194304 * i) :: uint) = 3221225472 + 4194304 * i"
    using i by (simp only: unat_of_nat) (simp add: take_bit_nat_eq_self)
  then have "unat (PAGE_OFFSET + 0x400000 * of_nat i) div 4194304 = 768 + i" by (simp add: v)
  then have u: "unat (PGD_IDX (PAGE_OFFSET + 0x400000 * of_nat i)) = 768 + i"
    using i by (simp add: idx_nat)
  have tab: "table (init_vmm K t) 0xC0001000 (PAGE_OFFSET + 0x400000 * of_nat i) = K + 4096 * of_nat i - PAGE_OFFSET"
    using init_vmm_tables(2) [OF dirt K, of "PAGE_OFFSET + 0x400000 * of_nat i"] i by (simp add: u)
  have "K + 4096 * of_nat i - PAGE_OFFSET = of_nat (a + 4096 * j)"
    using arg_cong [OF pgd_table_nat [OF K i], of "of_nat :: nat \<Rightarrow> uint"] unfolding j by simp
  then have "table (init_vmm K t) (pgd_kern (init_vmm K t)) (PAGE_OFFSET + 0x400000 * of_nat i) =
      start_addr (phy_pages (init_vmm K t) (PG j))"
    using t(4) [of j] \<open>j < pages_used N\<close> le tab by (simp add: init_vmm_tables(1) [OF dirt K])
  with t(1) pool \<open>j < pages_used N\<close> show ?thesis by blast
qed

text \<open>The heap's part of start-up, in the order of \<open>kern_init\<close>: it prints one line.\<close>

lemma boot_heap:
  fixes h :: kheap
  assumes ok: "machine_ok L m info e" and dir: "boot_directory h"
    and h: "phy_page_num h = 0" "heap_top h = HEAP_START" "swap_init_ok h = 0"
  obtains t u v M cs P mm vma where
    "init_pmm m (at_mboot L) (at_kern_start L) (at_kern_end L) h = kret () t" "klog t = klog h"
    "init_slab swap_one (at_boot_cache L) (init_vmm (at_pte_kern L) t) = kret () u" "klog u = klog t"
    "init_mm (at_kern_end L) u = kret () v" "klog v = klog u @ [line ''SWAP:clock_algorithm init OK!!'']"
    "kmalloc_ready v M cs P" "one_region_map v mm vma (at_kern_end L)"
proof -
  let ?N = "frame_count (mmap_of m info e) (at_kern_start L) (at_kern_end L)"
  let ?M = "mset (map PG [0..<pages_used ?N])"
  obtain t where t: "init_pmm m (at_mboot L) (at_kern_start L) (at_kern_end L) h = kret () t"
    "heap_ok (init_vmm (at_pte_kern L) t) ?M" "klog t = klog h" "pmm.more t = pmm.more h"
    by (rule boot_pool [OF ok dir h(1)])
  let ?t = "init_vmm (at_pte_kern L) t"
  have more: "vmm.more ?t = vmm.more h" using more_rest [OF t(4)] by simp
  have th: "heap_top ?t = HEAP_START" "swap_init_ok ?t = 0"
    using more_heap [OF more] more_users [OF more] t(3) h by (simp_all add: same_users_def)
  have size: "48 \<le> size ?M" and boot: "at_boot_cache L \<noteq> NULL" "unat (at_boot_cache L) < unat HEAP_START"
    using ok by (simp_all add: machine_ok_def)
  have top: "4096 dvd unat HEAP_START" "unat HEAP_START + 8192 < 2 ^ 32" by (simp_all add: HEAP_START_def)
  have "16 \<le> size ?M" using size by linarith
  from init_slab_ready [OF t(2) this, of "at_boot_cache L" swap_one] obtain cs u M where
    u: "init_slab swap_one (at_boot_cache L) ?t = kret () u" "kmalloc_ready u M cs ((\<lambda>_. [])(kmem_caches u := rev cs))"
      "size ?M \<le> 16 * size M + 15" "unat (heap_top u) \<le> unat (heap_top ?t) + 8192" "same_users ?t u"
    unfolding th using boot top by blast
  let ?P = "(\<lambda>_. [])(kmem_caches u := rev cs)"
  have "cs ! 0 \<noteq> kmem_caches u" using small_class(3) [OF u(2), of 20] by (simp add: class_of_def class_bytes_def)
  then have P0: "?P (cs ! 0) = []" by simp
  have room: "length (?P (cs ! 0)) + 2 \<le> cache_objs (class_bytes ! 0)"
    unfolding P0 by (simp add: cache_objs_def class_bytes_def)
  have mem: "2 \<le> size M \<and> unat (heap_top u) + 4096 < 2 ^ 32"
    using size u(3,4) by (simp add: th HEAP_START_def)
  from init_mm_ready [OF u(2) room, of "at_kern_end L"] mem obtain v M' mm vma where
    v: "init_mm (at_kern_end L) u = kret () v" "kmalloc_ready v M' cs (?P(cs ! 0 := vma # mm # ?P (cs ! 0)))"
      "one_region_map v mm vma (at_kern_end L)" "swap_init_ok u = 0 \<longrightarrow> klog v = klog u @ [line ''SWAP:clock_algorithm init OK!!'']"
    by blast
  have "swap_init_ok u = 0" "klog u = klog t" using u(5) th(2) by (simp_all add: same_users_def)
  with that t(1,3) u(1) v show ?thesis by blast
qed

section \<open>The whole start-up\<close>

text \<open>What the loader leaves: the boot tables, and static data that is zero.\<close>

definition loaded :: "linkage \<Rightarrow> kernel \<Rightarrow> bool" where
  "loaded L k \<longleftrightarrow> boot_directory (k_heap k) \<and> phy_page_num (k_heap k) = 0 \<and> heap_top (k_heap k) = HEAP_START \<and>
     swap_init_ok (k_heap k) = 0 \<and> early (at_console_lck L) 0 (k_st k) \<and>
     proc_ready_list (k_st k) = NULL \<and> proc_block_list (k_st k) = NULL \<and> proc_hanging_list (k_st k) = NULL \<and>
     proc_name (procs (k_st k) (idle_page (at_stack L))) 4 = 0 \<and> interrupt_handlers (k_st k) = Map.empty \<and>
     threads_apart (at_stack L) (at_console_lck L) (at_kbd_lck L)"

lemma init_8259_ports: "\<exists>ps. init_8259 s = s\<lparr>ports := ps\<rparr>"
  by (rule exI [of _ "ports (init_8259 s)"]) (simp add: init_8259_def outb_def Let_def)

lemma kern_init_runs:
  assumes ld: "loaded L k" and ok: "machine_ok L m info e"
    and lit: "cstr m (at_strtab_lit L) strtab_text" "cstr m (at_symtab_lit L) symtab_text"
  shows "\<exists>k' M cs P mm vma. kern_init L m elf0 (Suc n) k = kret () k' \<and>
    k_gdt k' = init_gdt (at_gdt L) (snd (k_gdt k)) \<and>
    k_idt k' = fst (init_idt (at_idt L) (at_stub L) (snd (k_idt k)) (k_st k)) \<and>
    elf_from_multiboot m (at_strtab_lit L) (at_symtab_lit L) (at_mboot L) elf0 = Some (k_elf k') \<and>
    kmalloc_ready (k_heap k') M cs P \<and> one_region_map (k_heap k') mm vma (at_kern_end L) \<and>
    running L (k_st k') \<and> ext_status (k_st k') = ext_status (k_st k)"
proof -
  let ?con = "at_console_lck L" and ?pr = "printk (at_console_lck L) (Suc n)"
  have dir: "boot_directory (k_heap k)" and h: "phy_page_num (k_heap k) = 0" "heap_top (k_heap k) = HEAP_START"
      "swap_init_ok (k_heap k) = 0" and ea: "early ?con 0 (k_st k)"
    and heads: "proc_ready_list (k_st k) = NULL" "proc_block_list (k_st k) = NULL" "proc_hanging_list (k_st k) = NULL"
    and name: "proc_name (procs (k_st k) (idle_page (at_stack L))) 4 = 0"
    and none: "interrupt_handlers (k_st k) = Map.empty"
    and apart: "threads_apart (at_stack L) ?con (at_kbd_lck L)"
    using ld by (simp_all add: loaded_def)
  obtain elf where elf: "init_debug m (at_strtab_lit L) (at_symtab_lit L) (at_mboot L) elf0 = Some elf"
    by (simp add: init_debug_def elf_from_multiboot_def sections_loop_fold [OF lit] Let_def)
  obtain t u v M cs P mm vma where hp:
    "init_pmm m (at_mboot L) (at_kern_start L) (at_kern_end L) (k_heap k) = kret () t" "klog t = klog (k_heap k)"
    "init_slab swap_one (at_boot_cache L) (init_vmm (at_pte_kern L) t) = kret () u" "klog u = klog t"
    "init_mm (at_kern_end L) u = kret () v" "klog v = klog u @ [line ''SWAP:clock_algorithm init OK!!'']"
    "kmalloc_ready v M cs P" "one_region_map v mm vma (at_kern_end L)"
    by (rule boot_heap [OF ok dir h])
  obtain ps where ps: "init_8259 (k_st k) = (k_st k)\<lparr>ports := ps\<rparr>" using init_8259_ports by blast
  let ?s = "register_interrupt_handler 14 Page_fault ((k_st k)\<lparr>ports := ps\<rparr>)"
  have "early ?con 0 ?s" using ea by (simp add: early_def register_interrupt_handler_def)
  then obtain w where w: "?pr (chars (line ''SWAP:clock_algorithm init OK!!'')) ?s = kret () w"
      "same_threads ?s w" "same_rest ?s w"
    by (rule early_message [where n = n and msg = "chars (line ''SWAP:clock_algorithm init OK!!'')"])
  have ws: "proc_ready_list w = NULL" "proc_block_list w = NULL" "proc_hanging_list w = NULL"
      "proc_name (procs w (idle_page (at_stack L))) 4 = 0" "interrupt_handlers w = [14 \<mapsto> Page_fault]"
      "ext_status w = ext_status (k_st k)"
    using w(2,3) heads name none by (simp_all add: same_threads_def same_rest_def register_interrupt_handler_def)
  from start_threads [OF apart ws(1-5)] obtain x y where
    xy: "init_sched (at_stack L) w = kret () x" "init_drivers (at_kbd_lck L) ?con x = kret () y"
      "running L y" "ext_status y = ext_status w" by blast
  define k0 where "k0 = k\<lparr>k_gdt := init_gdt (at_gdt L) (snd (k_gdt k)),
    k_idt := fst (init_idt (at_idt L) (at_stub L) (snd (k_idt k)) (k_st k)), k_st := (k_st k)\<lparr>ports := ps\<rparr>, k_elf := elf\<rparr>"
  have k0: "k_heap k0 = k_heap k" "k_st k0 = (k_st k)\<lparr>ports := ps\<rparr>" by (simp_all add: k0_def)
  have 1: "in_heap ?pr (init_pmm m (at_mboot L) (at_kern_start L) (at_kern_end L)) k0 = kret () (k0\<lparr>k_heap := t\<rparr>)"
    using hp(1,2) k0 by (intro in_heap_quiet) simp_all
  define k1 where "k1 = boot_vmm L (k0\<lparr>k_heap := t\<rparr>)"
  have k1: "k_heap k1 = init_vmm (at_pte_kern L) t" "k_st k1 = ?s" by (simp_all add: k1_def boot_vmm_def k0)
  have 2: "in_heap ?pr (init_slab swap_one (at_boot_cache L)) k1 = kret () (k1\<lparr>k_heap := u\<rparr>)"
    using hp(3,4) k1 by (intro in_heap_quiet) simp_all
  have 3: "in_heap ?pr (init_mm (at_kern_end L)) (k1\<lparr>k_heap := u\<rparr>) = kret () (k1\<lparr>k_heap := v, k_st := w\<rparr>)"
    using in_heap_line [of "init_mm (at_kern_end L)" "k1\<lparr>k_heap := u\<rparr>" "()" v "line ''SWAP:clock_algorithm init OK!!''" ?pr w]
      hp(5,6) w(1) k1 by simp
  let ?w = "k1\<lparr>k_heap := v, k_st := w\<rparr>"
  have 4: "in_threads (init_sched (at_stack L)) ?w = kret () (k1\<lparr>k_heap := v, k_st := x\<rparr>)"
    using in_threads_kret [of "init_sched (at_stack L)" ?w "()" x] xy(1) by simp
  have 5: "in_threads (init_drivers (at_kbd_lck L) ?con) (k1\<lparr>k_heap := v, k_st := x\<rparr>) = kret () (k1\<lparr>k_heap := v, k_st := y\<rparr>)"
    using in_threads_kret [of "init_drivers (at_kbd_lck L) ?con" "k1\<lparr>k_heap := v, k_st := x\<rparr>" "()" y] xy(2) by simp
  let ?k = "k\<lparr>k_gdt := init_gdt (at_gdt L) (snd (k_gdt k))\<rparr>"
  have idt: "init_idt (at_idt L) (at_stub L) (snd (k_idt ?k)) (k_st ?k) =
      (fst (init_idt (at_idt L) (at_stub L) (snd (k_idt k)) (k_st k)), (k_st k)\<lparr>ports := ps\<rparr>)"
    by (simp add: init_idt_def ps Let_def)
  have "kern_init L m elf0 (Suc n) k =
      kbind (in_heap ?pr (init_pmm m (at_mboot L) (at_kern_start L) (at_kern_end L)) k0) (\<lambda>_ k.
      kbind (in_heap ?pr (init_slab swap_one (at_boot_cache L)) (boot_vmm L k)) (\<lambda>_ k.
      kbind (in_heap ?pr (init_mm (at_kern_end L)) k) (\<lambda>_ k.
      kbind (in_threads (init_sched (at_stack L)) k) (\<lambda>_ k.
        in_threads (init_drivers (at_kbd_lck L) ?con) k))))"
    unfolding kern_init_def Let_def idt by (simp add: elf k0_def del: printk.simps)
  then have run: "kern_init L m elf0 (Suc n) k = kret () (k1\<lparr>k_heap := v, k_st := y\<rparr>)"
    by (simp add: 1 k1_def [symmetric] 2 3 4 5 del: printk.simps)
  show ?thesis
    using run hp(7,8) xy(3,4) ws(6) elf
    by (intro exI [of _ "k1\<lparr>k_heap := v, k_st := y\<rparr>"] exI [of _ M] exI [of _ cs] exI [of _ P] exI [of _ mm] exI [of _ vma])
      (simp add: k1_def boot_vmm_def k0_def init_debug_def)
qed

end
