(* ===== verification/Boot_Samples.thy ===== *)
theory Boot_Samples
  imports Heap_Samples Boot_Correct
begin

text \<open>
  A machine for the properties of start-up and of the kernel's reports: a memory with the boot
  information, the memory map, three sections, two symbols, the literals of elf.c and a stack of two
  frames, and the state that the loader leaves.
\<close>

section \<open>Memory out of pieces\<close>

text \<open>The pieces come by ascending address and do not overlap.\<close>

fun stacked :: "nat \<Rightarrow> (addr \<times> uchar list) list \<Rightarrow> bool" where
  "stacked n [] = (n \<le> 2 ^ 32)"
| "stacked n ((p, xs) # ps) = (n \<le> unat p \<and> stacked (unat p + length xs) ps)"

fun filled :: "(addr \<times> uchar list) list \<Rightarrow> mem" where
  "filled [] = (\<lambda>_. 0)"
| "filled ((p, xs) # ps) = image p xs (filled ps)"

lemma stacked_less: "stacked n ps \<Longrightarrow> n \<le> 2 ^ 32"
  by (induction ps arbitrary: n) (force intro: order_trans)+

lemma image_other: "a \<notin> region p (length xs) \<Longrightarrow> image p xs m a = m a"
  by (induction xs arbitrary: p m) (simp_all add: region_Suc)

lemma image_bytes: "length xs < 2 ^ 32 \<Longrightarrow> bytes (image p xs m) p xs"
proof (induction xs arbitrary: p m)
  case (Cons x xs)
  then show ?case using image_other [of p "p + 1" xs] region_fresh [of "length xs" p] by simp
qed simp

lemma region_bounds:
  assumes "unat p + n \<le> 2 ^ 32" "a \<in> region p n"
  shows "unat p \<le> unat a" "unat a < unat p + n"
proof -
  obtain i where i: "i < n" "a = p + of_nat i" using assms(2) by (auto simp: region_def)
  then have "unat a = unat p + i" using assms(1) by (simp add: unat_of_nat unat_plus_if' take_bit_nat_eq_self)
  with i show "unat p \<le> unat a" "unat a < unat p + n" by simp_all
qed

lemma pieces_below: "stacked n ps \<Longrightarrow> unat a < n \<Longrightarrow> filled ps a = 0"
proof (induction ps arbitrary: n)
  case (Cons x ps)
  obtain p xs where x: "x = (p, xs)" by (cases x)
  have s: "n \<le> unat p" "stacked (unat p + length xs) ps" using Cons.prems by (simp_all add: x)
  have "a \<notin> region p (length xs)" using region_bounds [OF stacked_less [OF s(2)], of a] s(1) Cons.prems(2) by auto
  then show ?case using Cons.IH [OF s(2)] s(1) Cons.prems(2) by (simp add: x image_other)
qed simp

lemma pieces_bytes:
  assumes "stacked n ps" "(p, xs) \<in> set ps" "p \<noteq> 0"
  shows "bytes (filled ps) p xs \<and> n \<le> unat p \<and> unat p + length xs \<le> 2 ^ 32"
  using assms
proof (induction ps arbitrary: n)
  case (Cons x ps)
  obtain q ys where x: "x = (q, ys)" by (cases x)
  have s: "n \<le> unat q" "stacked (unat q + length ys) ps" using Cons.prems by (simp_all add: x)
  note top = stacked_less [OF s(2)]
  show ?case
  proof (cases "(p, xs) = (q, ys)")
    case True
    have "0 < unat p" using Cons.prems(3) by (simp add: unat_gt_0)
    then have "length ys < 2 ^ 32" using True top by simp
    then show ?thesis using True s(1) top image_bytes [of ys q] by (simp add: x)
  next
    case False
    then have "(p, xs) \<in> set ps" using Cons.prems(2) by (auto simp: x)
    then have b: "bytes (filled ps) p xs" "unat q + length ys \<le> unat p"
        "unat p + length xs \<le> 2 ^ 32" using Cons.IH [OF s(2)] Cons.prems(3) by auto
    have "bytes (image q ys (filled ps)) p xs"
    proof (rule bytes_frame [OF b(1)])
      fix a assume a: "a \<in> region p (length xs)"
      show "image q ys (filled ps) a = filled ps a"
      proof (rule image_other, rule notI)
        assume "a \<in> region q (length ys)"
        from region_bounds(2) [OF top this] have "unat a < unat p" using b(2) by simp
        moreover have "unat p \<le> unat a" using region_bounds(1) [OF b(3) a] .
        ultimately show False by simp
      qed
    qed
    then show ?thesis using b(2,3) s(1) by (simp add: x)
  qed
qed simp

lemma pieces_above:
  assumes "stacked n ps" "\<And>p xs. (p, xs) \<in> set ps \<Longrightarrow> unat p + length xs \<le> unat a"
  shows "filled ps a = 0"
  using assms
proof (induction ps arbitrary: n)
  case (Cons x ps)
  obtain p xs where x: "x = (p, xs)" by (cases x)
  have s: "stacked (unat p + length xs) ps" using Cons.prems(1) by (simp add: x)
  have "unat p + length xs \<le> unat a" using Cons.prems(2) [of p xs] by (simp add: x)
  then have "a \<notin> region p (length xs)" using region_bounds(2) [OF stacked_less [OF s], of a] by auto
  then show ?case using Cons.IH [OF s] Cons.prems(2) by (simp add: x image_other)
qed simp

text \<open>The boot tables show the first 8 MiB at their own addresses and at the kernel's offset.\<close>

definition seen :: "mem \<Rightarrow> mem" where
  "seen w a = (if PAGE_OFFSET \<le> a \<and> a < PAGE_OFFSET + 0x800000 then w (a - PAGE_OFFSET) else w a)"

lemma seen_low:
  assumes "bytes w p xs" "unat p + length xs \<le> 3221225472"
  shows "bytes (seen w) p xs"
proof (rule bytes_frame [OF assms(1)])
  fix a assume "a \<in> region p (length xs)"
  then have "unat a < 3221225472" using region_bounds(2) [of p "length xs" a] assms(2) by simp
  then show "seen w a = w a" by (auto simp: seen_def PAGE_OFFSET_def word_le_nat_alt)
qed

lemma seen_high:
  assumes "bytes w p xs" "unat p + length xs \<le> 8388608"
  shows "bytes (seen w) (p + PAGE_OFFSET) xs"
  using assms
proof (induction xs arbitrary: p)
  case (Cons x xs)
  have p: "unat (p + PAGE_OFFSET) = unat p + 3221225472" using Cons.prems(2) by (simp add: unat_plus_if' PAGE_OFFSET_def)
  have "PAGE_OFFSET \<le> p + PAGE_OFFSET" "p + PAGE_OFFSET < PAGE_OFFSET + 0x800000"
    using Cons.prems(2) by (simp_all only: word_le_nat_alt word_less_nat_alt p) (simp_all add: PAGE_OFFSET_def)
  then have "seen w (p + PAGE_OFFSET) = w p" by (simp add: seen_def)
  moreover have "unat (p + 1) = unat p + 1" using Cons.prems(2) by (simp add: unat_plus_if')
  then have "bytes (seen w) (p + 1 + PAGE_OFFSET) xs" using Cons.IH [of "p + 1"] Cons.prems by simp
  ultimately show ?case using Cons.prems(1) by (simp add: ac_simps)
qed simp

section \<open>A boot image\<close>

definition boot_info :: multiboot where
  "boot_info = \<lparr>mb_flags = 0x67, mb_mem_lower = 0x27F, mb_mem_upper = 0x500, mb_boot_device = 0, mb_cmdline = 0,
     mb_mods_count = 0, mb_mods_addr = 0, mb_num = 3, mb_size = 40, mb_addr = 0x9200, mb_shndx = 0,
     mb_mmap_length = 48, mb_mmap_addr = 0x9500, mb_drives_length = 0, mb_drives_addr = 0, mb_config_table = 0,
     mb_boot_loader_name = 0, mb_apm_table = 0, mb_vbe_control_info = 0, mb_vbe_mode_info = 0, mb_vbe_mode = 0,
     mb_vbe_interface_seg = 0, mb_vbe_interface_off = 0, mb_vbe_interface_len = 0\<rparr>"

definition boot_entries :: "mmap_entry list" where
  "boot_entries =
     [\<lparr>mmap_size = 20, base_addr_low = 0, base_addr_high = 0, length_low = 0x9F000, length_high = 0, mmap_type = 1\<rparr>,
      \<lparr>mmap_size = 20, base_addr_low = 0x100000, base_addr_high = 0, length_low = 0x140000, length_high = 0, mmap_type = 1\<rparr>]"

definition section_at :: "uint \<Rightarrow> uint \<Rightarrow> uint \<Rightarrow> elf_section_header" where
  "section_at nm a n = \<lparr>sh_name = nm, sh_type = 3, sh_flags = 0, sh_addr = a, sh_offset = 0, sh_size = n, sh_link = 0,
     sh_info = 0, sh_addralign = 1, sh_entsize = 0\<rparr>"

definition boot_sections :: "elf_section_header list" where
  "boot_sections = [section_at 0 0x9300 26, section_at 10 0x9380 17, section_at 18 0x9340 32]"

definition symbol_of :: "uint \<Rightarrow> uint \<Rightarrow> uint \<Rightarrow> elf_symbol" where
  "symbol_of nm a n = \<lparr>st_name = nm, st_value = a, st_size = n, st_info = 0x12, st_other = 0, st_shndx = 1\<rparr>"

definition boot_symbols :: "elf_symbol list" where
  "boot_symbols = [symbol_of 1 0xC0100010 0x100, symbol_of 11 0xC0100200 0x80]"

text \<open>The frames of \<open>panic\<close>, called from \<open>kern_init\<close>, called from the entry code.\<close>

definition boot_pieces :: "(addr \<times> uchar list) list" where
  "boot_pieces =
     [(0x9000, multiboot_bytes boot_info), (0x9200, concat (map section_header_bytes boot_sections)),
      (0x9300, chars ''.shstrtab'' @ [0] @ strtab_text @ [0] @ symtab_text @ [0]),
      (0x9340, concat (map symbol_bytes boot_symbols)), (0x9380, [0] @ chars ''kern_init'' @ [0] @ chars ''panic'' @ [0]),
      (0x93C0, strtab_text @ [0]), (0x93D0, symtab_text @ [0]), (0x93E0, le32 0xC00093F0 @ le32 0xC0100234),
      (0x93F0, le32 0 @ le32 0xC0100020), (0x9500, concat (map mmap_bytes boot_entries))]"

definition boot_mem :: mem where
  "boot_mem = seen (filled boot_pieces)"

lemma boot_stacked: "stacked 0x9000 boot_pieces"
  by (simp add: boot_pieces_def boot_sections_def boot_symbols_def boot_entries_def strtab_text_def symtab_text_def)

lemma boot_piece:
  assumes "(p, xs) \<in> set boot_pieces" "unat p + length xs \<le> 0x10000"
  shows "bytes boot_mem p xs" "bytes boot_mem (p + PAGE_OFFSET) xs"
proof -
  have "p \<noteq> 0" using assms(1) by (auto simp: boot_pieces_def)
  then have "bytes (filled boot_pieces) p xs" using pieces_bytes [OF boot_stacked assms(1)] by auto
  then show "bytes boot_mem p xs" "bytes boot_mem (p + PAGE_OFFSET) xs"
    using assms(2) seen_low seen_high by (simp_all add: boot_mem_def)
qed

text \<open>What stands at the addresses of the kernel.\<close>

lemma boot_bytes:
  "bytes boot_mem 0xC0009000 (multiboot_bytes boot_info)"
  "bytes boot_mem 0x9200 (concat (map section_header_bytes boot_sections))"
  "bytes boot_mem 0xC0009300 (chars ''.shstrtab'' @ [0] @ strtab_text @ [0] @ symtab_text @ [0])"
  "bytes boot_mem 0xC0009340 (concat (map symbol_bytes boot_symbols))"
  "bytes boot_mem 0xC0009380 ([0] @ chars ''kern_init'' @ [0] @ chars ''panic'' @ [0])"
  "bytes boot_mem 0xC00093C0 (strtab_text @ [0])" "bytes boot_mem 0xC00093D0 (symtab_text @ [0])"
  "bytes boot_mem 0xC00093E0 (le32 0xC00093F0 @ le32 0xC0100234)"
  "bytes boot_mem 0xC00093F0 (le32 0 @ le32 0xC0100020)"
  "bytes boot_mem 0x9500 (concat (map mmap_bytes boot_entries))"
proof -
  have len: "length boot_sections = 3" "length boot_symbols = 2" "length boot_entries = 2"
      "length strtab_text = 7" "length symtab_text = 7"
    by (simp_all add: boot_sections_def boot_symbols_def boot_entries_def strtab_text_def symtab_text_def)
  show "bytes boot_mem 0xC0009000 (multiboot_bytes boot_info)"
    using boot_piece(2) [of "0x9000" "multiboot_bytes boot_info"] by (simp add: boot_pieces_def PAGE_OFFSET_def)
  show "bytes boot_mem 0x9200 (concat (map section_header_bytes boot_sections))"
    using boot_piece(1) [of "0x9200" "concat (map section_header_bytes boot_sections)"]
    by (simp add: boot_pieces_def boot_sections_def)
  show "bytes boot_mem 0xC0009300 (chars ''.shstrtab'' @ [0] @ strtab_text @ [0] @ symtab_text @ [0])"
    using boot_piece(2) [of "0x9300" "chars ''.shstrtab'' @ [0] @ strtab_text @ [0] @ symtab_text @ [0]"]
    by (simp add: boot_pieces_def PAGE_OFFSET_def len del: bytes.simps)
  show "bytes boot_mem 0xC0009340 (concat (map symbol_bytes boot_symbols))"
    using boot_piece(2) [of "0x9340" "concat (map symbol_bytes boot_symbols)"]
    by (simp add: boot_pieces_def boot_symbols_def PAGE_OFFSET_def)
  show "bytes boot_mem 0xC0009380 ([0] @ chars ''kern_init'' @ [0] @ chars ''panic'' @ [0])"
    using boot_piece(2) [of "0x9380" "[0] @ chars ''kern_init'' @ [0] @ chars ''panic'' @ [0]"]
    by (simp add: boot_pieces_def PAGE_OFFSET_def del: bytes.simps)
  show "bytes boot_mem 0xC00093C0 (strtab_text @ [0])" "bytes boot_mem 0xC00093D0 (symtab_text @ [0])"
    using boot_piece(2) [of "0x93C0" "strtab_text @ [0]"] boot_piece(2) [of "0x93D0" "symtab_text @ [0]"]
    by (simp_all add: boot_pieces_def PAGE_OFFSET_def len)
  show "bytes boot_mem 0xC00093E0 (le32 0xC00093F0 @ le32 0xC0100234)" "bytes boot_mem 0xC00093F0 (le32 0 @ le32 0xC0100020)"
    using boot_piece(2) [of "0x93E0" "le32 0xC00093F0 @ le32 0xC0100234"] boot_piece(2) [of "0x93F0" "le32 0 @ le32 0xC0100020"]
    by (simp_all add: boot_pieces_def PAGE_OFFSET_def)
  show "bytes boot_mem 0x9500 (concat (map mmap_bytes boot_entries))"
    using boot_piece(1) [of "0x9500" "concat (map mmap_bytes boot_entries)"] by (simp add: boot_pieces_def boot_entries_def)
qed

lemma boot_literals: "cstr boot_mem 0xC00093C0 strtab_text" "cstr boot_mem 0xC00093D0 symtab_text"
  using boot_bytes(6,7) by (simp_all add: cstr_def strtab_text_def symtab_text_def)

lemma boot_names:
  "cstr boot_mem 0xC0009300 (chars ''.shstrtab'')" "cstr boot_mem 0xC000930A strtab_text"
  "cstr boot_mem 0xC0009312 symtab_text" "cstr boot_mem 0xC0009381 (chars ''kern_init'')"
  "cstr boot_mem 0xC000938B (chars ''panic'')"
  using boot_bytes(3,5) by (simp_all add: cstr_def strtab_text_def symtab_text_def)

lemma boot_image: "kernel_image boot_mem 0xC0009000 boot_info boot_sections 1 2 boot_symbols"
proof -
  have three: "j = 0 \<or> j = 1 \<or> j = 2" if "j < 3" for j :: nat using that by auto
  have "named boot_mem 0x9300 strtab_text (boot_sections ! j) = (j = 1) \<and>
      named boot_mem 0x9300 symtab_text (boot_sections ! j) = (j = 2)" if "j < 3" for j
    using three [OF that] boot_names(1-3) cstr_unique [of boot_mem]
    by (auto simp: named_def boot_sections_def section_at_def PAGE_OFFSET_def strtab_text_def symtab_text_def)
  then show ?thesis
    using boot_bytes(1,2,4)
    by (simp add: kernel_image_def boot_info_def boot_sections_def section_at_def boot_symbols_def symbol_of_def
        no_wrap_def PAGE_OFFSET_def)
qed

definition boot_elf :: elf where
  "boot_elf = \<lparr>symtab = 0xC0009340, symtabsz = 32, strtab = 0xC0009380, strtabsz = 17\<rparr>"

lemma boot_lookup: "elf_lookup_symbol boot_mem a boot_elf = found_name 0xC0009380 (find (code_covers a) boot_symbols)"
  using elf_lookup_finds [OF boot_image, of boot_elf a]
  by (simp add: boot_elf_def boot_sections_def section_at_def PAGE_OFFSET_def)

lemma boot_chain:
  "call_chain boot_mem boot_elf 0xC00093E0 [(0xC00093F0, 0xC0100234, chars ''panic''), (0, 0xC0100020, chars ''kern_init'')]"
proof -
  have "bytes boot_mem 0xC00093E0 (le32 0xC00093F0)" "bytes boot_mem 0xC00093E4 (le32 0xC0100234)"
    "bytes boot_mem 0xC00093F0 (le32 0)" "bytes boot_mem 0xC00093F4 (le32 0xC0100020)"
    using boot_bytes(8,9) by (simp_all add: bytes_append del: bytes.simps)
  from this [THEN peek32_le32] show ?thesis
    using boot_names(4,5)
    by (simp add: boot_lookup boot_symbols_def symbol_of_def code_covers_def found_name_def)
qed

lemma boot_memory_map:
  "j < 2 \<Longrightarrow> mmap_of boot_mem boot_info j = boot_entries ! j"
  "2 \<le> j \<Longrightarrow> j < 48 \<Longrightarrow> mmap_type (mmap_of boot_mem boot_info j) = 0"
proof -
  have addr: "mb_mmap_addr boot_info = 0x9500" by (simp add: boot_info_def)
  show "mmap_of boot_mem boot_info j = boot_entries ! j" if "j < 2"
    by (rule mmap_table) (use boot_bytes(10) that in \<open>simp_all add: addr boot_entries_def\<close>)
  show "mmap_type (mmap_of boot_mem boot_info j) = 0" if j: "2 \<le> j" "j < 48"
  proof -
    have zero: "boot_mem a = 0" if "0x9530 \<le> unat a" "unat a < 0x10000" for a
    proof -
      have "unat p + length xs \<le> unat a" if "(p, xs) \<in> set boot_pieces" for p xs
        using that \<open>0x9530 \<le> unat a\<close>
        by (auto simp: boot_pieces_def boot_sections_def boot_symbols_def boot_entries_def strtab_text_def symtab_text_def)
      then have "filled boot_pieces a = 0" by (rule pieces_above [OF boot_stacked])
      moreover have "\<not> PAGE_OFFSET \<le> a" using that(2) by (simp add: PAGE_OFFSET_def word_le_nat_alt)
      ultimately show ?thesis by (simp add: boot_mem_def seen_def)
    qed
    let ?p = "0x9500 + 24 * of_nat j + 20 :: addr"
    have p: "unat (?p + of_nat i) = 0x9514 + 24 * j + i" if "i < 4" for i
    proof -
      have "?p + of_nat i = of_nat (0x9514 + 24 * j + i)" by simp
      moreover have "unat (of_nat (0x9514 + 24 * j + i) :: addr) = 0x9514 + 24 * j + i"
        using j that by (simp only: unat_of_nat) (simp add: take_bit_nat_eq_self)
      ultimately show ?thesis by (simp only:)
    qed
    have "boot_mem (?p + of_nat i) = 0" if "i < 4" for i
      by (rule zero) (use p [OF that] j that in simp_all)
    from this [of 0] this [of 1] this [of 2] this [of 3] have "peek32 boot_mem ?p = 0"
      by (simp add: peek32_def ac_simps)
    then show ?thesis by (simp add: mmap_of_def mmap_entry_at_def addr)
  qed
qed

lemma boot_region: "one_region (mmap_of boot_mem boot_info) 48 1"
proof -
  have "(mmap_type (mmap_of boot_mem boot_info i) = 1 \<and> base_addr_low (mmap_of boot_mem boot_info i) = 0x100000) = (i = 1)"
    if "i < 48" for i
  proof (cases "2 \<le> i")
    case True
    then show ?thesis using boot_memory_map(2) that by simp
  next
    case False
    then have "i = 0 \<or> i = 1" by auto
    then show ?thesis using boot_memory_map(1) [of i] by (auto simp: boot_entries_def)
  qed
  then show ?thesis by (simp add: one_region_def)
qed

section \<open>The machine that was booted\<close>

definition boot_link :: linkage where
  "boot_link = \<lparr>at_gdt = 0xC01A0000, at_idt = 0xC01A1000, at_stub = (\<lambda>i. 0xC0101000 + of_nat i), at_mboot = 0xC0009000,
     at_strtab_lit = 0xC00093C0, at_symtab_lit = 0xC00093D0, at_kern_start = 0xC0100000, at_kern_end = 0xC0500000,
     at_pte_kern = 0xC0110000, at_boot_cache = 0xC01B0000, at_stack = 0xC01C0000, at_console_lck = 0xC01D0000,
     at_kbd_lck = 0xC01D1000\<rparr>"

definition zero_gdt :: "nat \<Rightarrow> segdesc" where
  "zero_gdt _ = \<lparr>lim_15_0 = 0, base_15_0 = 0, base_23_16 = 0, sd_type = 0, sd_s = 0, sd_dpl = 0, sd_p = 0,
     lim_19_16 = 0, sd_avl = 0, sd_rsv1 = 0, sd_db = 0, sd_g = 0, base_31_24 = 0\<rparr>"

definition boot_words :: words where
  "boot_words a = kern_entry_tables (\<lambda>_. 0) (a - PAGE_OFFSET)"

definition zero_heap :: kheap where
  "zero_heap = (sample_heap boot_words)\<lparr>phy_pages := (\<lambda>_. frame_at 0 Pnull Pnull),
     buddy_table := (\<lambda>_. \<lparr>page_blk_list = Pnull, blk_num = 0\<rparr>), phy_page_num := 0, pgd_kern := 0\<rparr>"

definition zero_kst :: kst where
  "zero_kst = \<lparr>lists = \<lparr>l_next = (\<lambda>_. NULL), l_prev = (\<lambda>_. NULL)\<rparr>, procs = (\<lambda>_. zero_proc), current = NULL, idle = NULL,
     now_pid = 0, proc_ready_list = NULL, proc_block_list = NULL, proc_hanging_list = NULL,
     stack_words = (\<lambda>_. 0), intr_on = False, tick = 0, sem_value = (\<lambda>_. 0),
     lock_holder = (\<lambda>_. NULL), holder_repeat_times = (\<lambda>_. 0), ports = [], interrupt_handlers = (\<lambda>_. None),
     text_video_mem = (\<lambda>_. 0), cursor_X = 0, cursor_Y = 0,
     kbd_buf = \<lparr>producer = NULL, consumer = NULL, iobuf = (\<lambda>_. 0), io_head = 0, io_tail = 0\<rparr>,
     ctrl_status = 0, shift_status = 0, alt_status = 0, capslock_status = 0, ext_status = 0\<rparr>"

definition zero_kernel :: kernel where
  "zero_kernel = \<lparr>k_gdt = (\<lparr>dt_limit = 0, dt_base = 0\<rparr>, zero_gdt), k_idt = (\<lparr>dt_limit = 0, dt_base = 0\<rparr>, zero_gates),
     k_elf = \<lparr>symtab = 0, symtabsz = 0, strtab = 0, strtabsz = 0\<rparr>, k_heap = zero_heap, k_st = zero_kst\<rparr>"

lemma zero_directory: "boot_directory zero_heap"
proof -
  have "0xC0001000 + 4 * i - PAGE_OFFSET = 0x1000 + 4 * i" for i :: uint by (simp add: PAGE_OFFSET_def)
  then have "boot_words (0xC0001000 + 4 * i) = kern_entry_tables (\<lambda>_. 0) (0x1000 + 4 * i)" for i
    by (simp only: boot_words_def)
  then show ?thesis
    unfolding boot_directory_def
    by (simp add: zero_heap_def sample_heap_def) (rule exI [of _ "\<lambda>_. 0"], simp)
qed

lemma zero_loaded: "loaded boot_link zero_kernel"
  using zero_directory
  by (simp add: loaded_def zero_kernel_def early_def threads_apart_def boot_link_def idle_page_def)
    (simp add: zero_heap_def zero_kst_def sample_heap_def zero_proc_def waiters_def lock_sem_def node_def node_offset_def)

lemma boot_frames:
  "first_frame 0xC0100000 0xC0500000 = 0x200000"
  "frame_count (boot_entries ! 1) 0xC0100000 0xC0500000 = 64"
  by (simp_all add: frame_count_def nframes_def first_frame_def page_up_def boot_entries_def)

lemma boot_machine: "machine_ok boot_link boot_mem boot_info 1"
  using boot_bytes(1) boot_region boot_memory_map(1) [of 1] boot_frames
  by (simp add: machine_ok_def boot_link_def boot_info_def tables_place_def aligned_def pages_used_def HEAP_START_def)
    (simp add: boot_entries_def)

end
