(* ===== verification/Readers.thy ===== *)
theory Readers
  imports Machine
begin

text \<open>
  src/test/kthread_test.c as it is built, without its TEST flags: the two threads that read the
  keyboard buffer and print what they find, and the call that creates them at the end of start-up. A
  thread never returns; \<open>f5_round\<close> is one turn of its loop.
\<close>

section \<open>The reader threads\<close>

definition f5_round :: "addr \<Rightarrow> printer \<Rightarrow> uchar list \<Rightarrow> kst \<Rightarrow> (unit, kst) run" where
  "f5_round ioq pr arg s =
     (let s = local_intr_save s in
      kbind (if \<not> ioq_empty (kbd_buf s) then
               kbind (pr arg s) (\<lambda>_ s.
               kbind (ioq_getchar ioq pr s) (\<lambda>byte s. pr [byte] s))
             else kret () s) (\<lambda>_ s.
      kret () (local_intr_restore s)))"

definition f6_round :: "addr \<Rightarrow> printer \<Rightarrow> uchar list \<Rightarrow> kst \<Rightarrow> (unit, kst) run" where
  "f6_round ioq pr arg s =
     (let s = local_intr_save s in
      kbind (if \<not> ioq_empty (kbd_buf s) then
               kbind (pr arg s) (\<lambda>_ s.
               kbind (ioq_getchar ioq pr s) (\<lambda>byte s. pr [byte] s))
             else kret () s) (\<lambda>_ s.
      kret () (local_intr_restore s)))"

text \<open>The functions and their arguments are addresses; \<open>p1\<close> and \<open>p2\<close> are the pages of the threads.\<close>

definition kthread_test :: "addr \<Rightarrow> addr \<Rightarrow> addr \<Rightarrow> addr \<Rightarrow> addr \<Rightarrow> addr \<Rightarrow> addr \<Rightarrow> kst \<Rightarrow> (unit, kst) run" where
  "kthread_test p1 p2 kthread_ret f5 f6 arg_A arg_B s =
     kbind (kthread_create p1 kthread_ret f5 arg_A (map of_char ''proc1'') 8 s) (\<lambda>_ s.
     kbind (kthread_create p2 kthread_ret f6 arg_B (map of_char ''proc2'') 8 s) (\<lambda>_ s. kret () s))"

section \<open>Echo\<close>

lemma ioq_getchar_takes:
  assumes h: "idle_queue s (x # xs)"
  shows "ioq_getchar ioq pr s = kret x (upd_ioq (\<lambda>q. q\<lparr>io_tail := next_pos (io_tail q)\<rparr>) s)"
proof -
  have q: "ioq_holds (kbd_buf s) (x # xs)" using h by (simp add: idle_queue_def)
  then have "\<not> ioq_empty (kbd_buf s)" using ioq_empty_iff by auto
  then have "ioq_await ioq pr ioq_empty Consumer s = kret () s" by (simp add: ioq_await.simps)
  moreover have "0 \<le> io_tail (kbd_buf s)" "io_tail (kbd_buf s) < 1024" using q by (simp_all add: ioq_holds_def)
  ultimately show ?thesis
    using h ioq_holds_get [OF q] by (simp add: ioq_getchar_def idle_queue_def buf_size_def Let_def)
qed

text \<open>What a round keeps, and what it shows.\<close>

definition echoed :: "addr \<Rightarrow> kst \<Rightarrow> uchar list \<Rightarrow> kst \<Rightarrow> bool" where
  "echoed lck s txt t \<longleftrightarrow> same_threads s t \<and> unlocked lck t \<and> same_screen (write_chars 15 0 txt s) t"

lemma echoed_append:
  assumes "echoed lck s xs t" "echoed lck t ys u"
  shows "echoed lck s (xs @ ys) u"
  using assms write_chars_same [of "write_chars 15 0 xs s" t 15 0 ys]
  by (auto simp: echoed_def same_threads_def same_screen_def write_chars_def)

lemma echoed_start:
  assumes "echoed lck u str t" "same_threads s u" "same_screen s u"
  shows "echoed lck s str t"
  using assms(1,2) write_chars_same [OF assms(3), of 15 0 str]
  by (simp add: echoed_def same_threads_def same_screen_def)

lemma echoed_frame:
  "echoed lck s txt (upd_ioq f t) = echoed lck s txt t" "echoed lck s txt (local_intr_restore t) = echoed lck s txt t"
  by (simp_all add: echoed_def same_threads_def unlocked_def same_screen_def upd_ioq_def local_intr_restore_def)

lemma print_echoes:
  assumes "unlocked lck s" "current s \<noteq> NULL"
  obtains t where "printk lck (Suc n) str s = kret () t" "echoed lck s str t" "kbd_buf t = kbd_buf s"
  using printk_prints [OF assms, of n str] by (auto simp: echoed_def same_rest_def)

lemma reader_round:
  assumes s: "unlocked lck s" "current s \<noteq> NULL" and q: "idle_queue s (x # xs)"
  shows "\<exists>t. f5_round ioq (printk lck (Suc n)) arg s = kret () t \<and> echoed lck s (arg @ [x]) t \<and> idle_queue t xs \<and> kst.intr_on t"
proof -
  let ?s = "local_intr_save s"
  have s': "unlocked lck ?s" "current ?s \<noteq> NULL" using s by (simp_all add: unlocked_def local_intr_save_def)
  obtain t where t: "printk lck (Suc n) arg ?s = kret () t" "echoed lck ?s arg t" "kbd_buf t = kbd_buf ?s"
    by (rule print_echoes [OF s', where n = n and str = arg])
  have qt: "idle_queue t (x # xs)" using q t(3) by (simp add: idle_queue_def)
  let ?u = "upd_ioq (\<lambda>q. q\<lparr>io_tail := next_pos (io_tail q)\<rparr>) t"
  have qu: "idle_queue ?u xs" using kq.get [OF qt, of ioq "printk lck (Suc n)"] ioq_getchar_takes [OF qt, of ioq "printk lck (Suc n)"]
    by (auto simp: kret_def)
  have "unlocked lck ?u" "current ?u \<noteq> NULL"
    using t(2) s by (auto simp: echoed_def same_threads_def unlocked_def upd_ioq_def)
  then obtain v where v: "printk lck (Suc n) [x] ?u = kret () v" "echoed lck ?u [x] v" "kbd_buf v = kbd_buf ?u"
    by (rule print_echoes [where n = n and str = "[x]"])
  have "\<not> ioq_empty (kbd_buf ?s)" using q ioq_empty_iff [of "kbd_buf s" "x # xs"] by (simp add: idle_queue_def)
  then have "f5_round ioq (printk lck (Suc n)) arg s = kret () (local_intr_restore v)"
    by (simp add: f5_round_def t(1) ioq_getchar_takes [OF qt] v(1) Let_def del: printk.simps)
  moreover have "echoed lck ?s (arg @ [x]) v"
    using echoed_append [of lck ?s arg ?u "[x]" v] t(2) v(2) by (simp add: echoed_frame)
  then have "echoed lck s (arg @ [x]) v"
    by (rule echoed_start) (simp_all add: same_threads_def same_screen_def local_intr_save_def)
  then have "echoed lck s (arg @ [x]) (local_intr_restore v)" by (simp add: echoed_frame)
  moreover have "idle_queue (local_intr_restore v) xs" using qu v(3) by (simp add: idle_queue_def)
  ultimately show ?thesis by (intro exI [of _ "local_intr_restore v"]) simp
qed

lemma reader_idles:
  assumes "idle_queue s []"
  shows "f5_round ioq pr arg s = kret () (local_intr_restore (local_intr_save s))"
  using assms ioq_empty_iff [of "kbd_buf s" "[]"] by (simp add: f5_round_def idle_queue_def Let_def)

text \<open>As many rounds as there are characters print them all, each behind the argument.\<close>

lemma reader_rounds:
  assumes "unlocked lck s" "current s \<noteq> NULL" "idle_queue s xs"
  shows "\<exists>t. repeat_run (length xs) (f5_round ioq (printk lck (Suc n)) arg) s = kret () t \<and>
    echoed lck s (concat (map (\<lambda>x. arg @ [x]) xs)) t \<and> idle_queue t []"
  using assms
proof (induction xs arbitrary: s)
  case Nil
  then show ?case by (simp add: echoed_def same_threads_def same_screen_def write_chars_def)
next
  case (Cons x xs)
  obtain t where t: "f5_round ioq (printk lck (Suc n)) arg s = kret () t" "echoed lck s (arg @ [x]) t" "idle_queue t xs"
    using reader_round [OF Cons.prems, of ioq n arg] by blast
  have "unlocked lck t" "current t \<noteq> NULL" using t(2) Cons.prems(2) by (auto simp: echoed_def same_threads_def)
  from Cons.IH [OF this t(3)] obtain u where u: "repeat_run (length xs) (f5_round ioq (printk lck (Suc n)) arg) t = kret () u"
      "echoed lck t (concat (map (\<lambda>x. arg @ [x]) xs)) u" "idle_queue u []" by blast
  have "repeat_run (length (x # xs)) (f5_round ioq (printk lck (Suc n)) arg) s = kret () u"
    by (simp add: t(1) u(1) del: printk.simps)
  moreover have "echoed lck s (concat (map (\<lambda>x. arg @ [x]) (x # xs))) u"
    using echoed_append [OF t(2) u(2)] by simp
  ultimately show ?case using u(3) by blast
qed

text \<open>From the keys to the screen.\<close>

lemma typing_echoes:
  assumes "list_all types_char ks" "ext_status s = 0" "idle_queue s []" "length ks \<le> 1023"
    and s: "unlocked lck s" "current s \<noteq> NULL"
  shows "\<exists>t. kbind (kbd_run (kbd_handler ioq (printk lck (Suc n)) wr) (strokes ks) s)
      (\<lambda>_ s. repeat_run (length ks) (f5_round ioq (printk lck (Suc n)) arg) s) = kret () t \<and>
    echoed lck s (concat (map (\<lambda>k. arg @ [key_char k (shift_status s) (capslock_status s)]) ks)) t \<and> idle_queue t []"
proof -
  let ?cs = "map (\<lambda>k. key_char k (shift_status s) (capslock_status s)) ks"
  obtain f where f: "kbd_run (kbd_handler ioq (printk lck (Suc n)) wr) (strokes ks) s = kret () (upd_ioq f s)"
      "idle_queue (upd_ioq f s) ?cs"
    using typing_stores [OF assms(1-3), of ioq "printk lck (Suc n)" wr] assms(4) by auto
  have u: "unlocked lck (upd_ioq f s)" "current (upd_ioq f s) \<noteq> NULL" using s by (simp_all add: unlocked_def)
  obtain t where t: "repeat_run (length ?cs) (f5_round ioq (printk lck (Suc n)) arg) (upd_ioq f s) = kret () t"
      "echoed lck (upd_ioq f s) (concat (map (\<lambda>x. arg @ [x]) ?cs)) t" "idle_queue t []"
    using reader_rounds [OF u f(2), of ioq n arg] by blast
  have "echoed lck s (concat (map (\<lambda>x. arg @ [x]) ?cs)) t"
    by (rule echoed_start [OF t(2)]) (simp_all add: same_threads_def same_screen_def upd_ioq_def)
  then show ?thesis using f(1) t(1,3) by (intro exI [of _ t]) (simp add: comp_def cong del: kbind_cong del: printk.simps)
qed

section \<open>The threads at start-up\<close>

lemma kthread_test_ready:
  assumes q: "run_queue lck s ps" and p: "queueable s p1" "queueable s p2" "distinct (p1 # p2 # current s # ps)"
    "node p1 \<noteq> waiters (lock_sem lck)" "node p2 \<noteq> waiters (lock_sem lck)"
  shows "\<exists>t. kthread_test p1 p2 ret f5 f6 a b s = kret () t \<and> run_queue lck t (ps @ [p1, p2]) \<and> current t = current s \<and>
    prio (procs t p2) = 8"
proof -
  obtain t where t: "kthread_create p1 ret f5 a (map of_char ''proc1'') 8 s = kret (word_of_int (now_pid s)) t"
      "run_queue lck t (ps @ [p1])" "current t = current s"
    using kthread_create_joins [OF q p(1) _ p(4), of "map of_char ''proc1''" ret f5 a 8] p(3) by auto
  have head: "proc_ready_list t = proc_ready_list s"
    by (rule kthread_create_run [where proc = p1 and name = "map of_char ''proc1''" and s = s and ret = ret and fn = f5
          and args = a and pri = 8]) (use t(1) in \<open>auto simp: created_def\<close>)
  then have "queueable t p2" using p(2) by (simp add: queueable_def)
  then obtain u where "kthread_create p2 ret f6 b (map of_char ''proc2'') 8 t = kret (word_of_int (now_pid t)) u"
      "run_queue lck u ((ps @ [p1]) @ [p2])" "current u = current t" "prio (procs u p2) = 8"
    using kthread_create_joins [OF t(2) _ _ p(5), of "map of_char ''proc2''" ret f6 b 8] p(3) t(3) by auto
  with t(1,3) show ?thesis by (intro exI [of _ u]) (simp add: kthread_test_def)
qed

end
