(* ===== verification/Spec2Isabelle.thy ===== *)
theory Spec2Isabelle
  imports Boot_Samples Readers
begin

text \<open>
  A verification development for OS32, a small 32-bit x86 kernel in C. The paths below are those of
  the repository's sources, libs/ for the headers and src/ for the C files.

  \<^bold>\<open>The program and how its parts interact.\<close> The boot loader enters \<open>kern_entry\<close> (src/init/kern_init.c),
  which maps the first 8 MiB twice and calls \<open>kern_init\<close>. That sets up the descriptor tables, the
  page allocator from the boot loader's memory map, the page tables, the slab allocator on top of
  both, the memory map of the kernel with page faults and swapping, the idle thread, timer, keyboard
  and console. From then on interrupts drive the kernel: the timer charges and switches threads, the
  keyboard fills a buffer that threads read, and every message goes through the lock of the console.

  \<^bold>\<open>State.\<close> Two records carry it. \<open>kst\<close> (Threads) holds threads, list nodes, semaphores and locks,
  the screen, the keyboard and the interrupt handlers; \<open>pmm\<close> (Buddy), extended to \<open>vmm\<close> (Paging) and
  \<open>kheap\<close> (Slab), holds page frames, the words of memory, slabs, caches, regions, memory maps and
  the clock list. \<open>kernel\<close> (Boot) has both. What the heap side prints is logged in \<open>klog\<close>; \<open>in_heap\<close>
  prints the new lines on the console when the call returns. Structs are records found by their
  addresses, bytes and words of memory are functions from 32-bit addresses, machine integers are
  words. An operation gives \<open>kret\<close> of a result and the next state, \<open>kstop\<close> of \<open>Panic\<close>, of
  \<open>Undefined\<close> (an access outside an array, through a null pointer, or to a page that is not mapped)
  or of \<open>Switched\<close> (another thread goes on), or \<open>None\<close> when the code never returns.

  \<^bold>\<open>Theories, in the order of the layers.\<close>
  \<^item> Prelude: C arithmetic, the result type and its bind. Kern_List: libs/list.h, with the locale
    \<open>deque\<close> of what its users rely on.
  \<^item> Buddy: src/pmm/buddy.c and \<open>count_pages\<close>. Buddy_Lists, Buddy_Refine, Buddy_Init, Buddy_Alloc,
    Buddy_Free: start-up builds the free lists, and \<open>alloc_buddy\<close> and \<open>free_buddy\<close> refine \<open>alloc_spec\<close>
    and \<open>free_spec\<close> on lists of pages. Page_Pool: the locale \<open>page_pool\<close>, whose clients lose no page.
  \<^item> Paging: page tables of src/vmm/vmm.c, macros of libs/mmu.h, the tables of \<open>kern_entry\<close>.
    Paging_Correct: \<open>map_page\<close> and \<open>unmap\<close> change the entry of one page; the direct map.
  \<^item> Slab: src/pmm/slab.c and slab_tool.c. Slab_Objects (locale \<open>object_pool\<close>), Slab_Cache, Slab_Heap,
    Slab_Init: objects of a slab, caches, what \<open>init_slab\<close> builds and \<open>kmalloc\<close> keeps. Slab_Free: what
    goes wrong with slabs of several pages and with \<open>kfree\<close>.
  \<^item> Mm_Types, Regions, Swap: libs/vmm.h, the rest of src/vmm/vmm.c, src/vmm/swapmm.c and
    src/fs/tmpide.c. Swap_Correct: a fault and an eviction together. Mm_Init: \<open>init_mm\<close>.
  \<^item> Kstring, Kstdio: src/libs/kstring.c and kstdio.c over byte memory. Kstdio_Correct: numerals
    (locale \<open>digit_writer\<close>) and \<open>sprintk\<close> against a reference rendering.
  \<^item> Threads: src/thread/thread.c, src/sched/sched.c, src/driver/timer.c. Threads_Correct: the locales
    \<open>quiet_printer\<close> and \<open>round_robin\<close>. Sync: src/sync/sync.c. Console: src/console/console.c, against a
    reference terminal in Console_Correct, which interprets \<open>mutex\<close> and \<open>round_robin\<close>.
  \<^item> Ioqueue (locale \<open>byte_queue\<close>), Keyboard: src/driver/ioqueue.c and keyboard.c. Segments: gdt.c and
    idt.c of src/segmm. Machine: sequences of interrupts. Readers: the threads of
    src/test/kthread_test.c that \<open>Test\<close> starts.
  \<^item> Elf, Debug: src/debug, libs/elf.h, the boot information of libs/multiboot.h and the rest of
    src/pmm/pmm.c. Boot: src/bootloader/multiboot.c and src/init/kern_init.c; Boot_Correct: start-up
    establishes what the other theories assume.
  \<^item> Samples, Heap_Samples, Boot_Samples: the concrete machines of the witnesses.

  \<^bold>\<open>What the properties show.\<close> C1 and C2: start-up returns with every part ready, and any sequence of
  interrupts other than page faults keeps the kernel well formed. C3 to C8: the page allocator. C9 to
  C13: threads, locks, semaphores. C14 to C18: console, formatted output, strings. C19 to C21:
  keyboard to reader to screen. C22, C23: symbols and panic. C24, C25: interrupts. C26 to C28: page
  tables. C29 to C35: the slab allocator. C36 to C40: regions, page faults and eviction. Where the
  code does not do what it means to, its behaviour is what is modelled and stated; the theorems on
  such behaviour say so in their text.

  \<^bold>\<open>Bounds and fuel.\<close> \<open>printk\<close> takes the depth to which printing may nest, because a message that has
  to wait for the console lets \<open>schedule\<close> print; the theorems hold for every depth of at least one.
  \<open>swap_out_loop\<close> counts down the number of pages asked for. \<open>create_caches\<close> runs over the fourteen
  names of caches. Loops of the code that may not end are \<open>partial_function (option)\<close>, and that they
  return is proved where it is claimed. \<open>buddy_table\<close> has 17 entries and a screen 2000 cells, and an
  access outside is \<open>Undefined\<close>.

  \<^bold>\<open>Null pointers.\<close> The boot tables map page 0, so the page structs, regions and reports treat null as
  an address like another (\<open>Pnull\<close>, \<open>NULL\<close>). A null slab or list of slabs is a programming error of
  slab.c and stops as \<open>Undefined\<close>. So does a page table at physical page 0, which \<open>init_vmm\<close> does not
  map at \<open>PAGE_OFFSET\<close>.

  \<^bold>\<open>Assumptions of start-up.\<close> \<open>loaded\<close> says that static data is zero and that the page of the boot
  directory is clear; \<open>machine_ok\<close> says that the memory map has one region at 1 MiB with 48 frames or
  more, and that the page tables lie below the first frame. The code takes the first frame a quarter
  of the image's size above 1 MiB, so the frames overlap the image: they are modelled apart from the
  static data in it, and C28 says what happens when a page table is among them.

  \<^bold>\<open>Not modelled.\<close> The translation cache. Assembly: the entry stubs, \<open>switch_to\<close> (whose effect on the
  running thread is \<open>Switched\<close> and \<open>switch_back\<close>), the loading of table and control registers, and the
  wrappers of libs/x86.h other than \<open>outb\<close>; \<open>inb\<close>, the registers and the frame pointer are arguments.
  Interrupts inside handlers, although \<open>local_intr_restore\<close> lets them in: events come one at a time.
  The 1024-byte buffer of \<open>printk\<close>, which takes the text that \<open>sprintk\<close> renders (C16 has the bound).
  src/driver/ide.c, all of it commented out, and the test files whose calls are commented out.
  \<open>alloc_proc\<close> is \<open>kmalloc\<close> of a page: \<open>kthread_create\<close> gets the block as an argument.
\<close>

section \<open>The whole kernel\<close>

text \<open>
  C1. \<open>kern_init\<close>, given the boot tables, zeroed static data and a boot loader's memory map with
  room above the page tables, returns: the kernel heap serves requests, the memory map of the kernel
  has its one region, the idle thread runs with interrupts on and a full quantum, the console is
  clear and free, the descriptor tables and the symbol tables are set up, and the three handlers are
  registered.
\<close>

theorem kern_init_boots:
  assumes "loaded L k" "machine_ok L m info e"
    "cstr m (at_strtab_lit L) strtab_text" "cstr m (at_symtab_lit L) symtab_text"
  shows "\<exists>k' M cs P mm vma. kern_init L m elf0 (Suc n) k = kret () k' \<and>
    k_gdt k' = init_gdt (at_gdt L) (snd (k_gdt k)) \<and>
    k_idt k' = fst (init_idt (at_idt L) (at_stub L) (snd (k_idt k)) (k_st k)) \<and>
    elf_from_multiboot m (at_strtab_lit L) (at_symtab_lit L) (at_mboot L) elf0 = Some (k_elf k') \<and>
    kmalloc_ready (k_heap k') M cs P \<and> one_region_map (k_heap k') mm vma (at_kern_end L) \<and>
    running L (k_st k')"
  using kern_init_runs [OF assms, of elf0 n] by blast

theorem kern_init_boots_witness:
  "\<exists>k' M cs P mm vma. kern_init boot_link boot_mem boot_elf 1 zero_kernel = kret () k' \<and>
     kmalloc_ready (k_heap k') M cs P \<and> one_region_map (k_heap k') mm vma 0xC0500000 \<and> running boot_link (k_st k')"
proof -
  have l: "at_strtab_lit boot_link = 0xC00093C0" "at_symtab_lit boot_link = 0xC00093D0" "at_kern_end boot_link = 0xC0500000"
    by (simp_all add: boot_link_def)
  show ?thesis
    using kern_init_boots [OF zero_loaded boot_machine, of boot_elf 0] boot_literals by (simp only: l One_nat_def) blast
qed

text \<open>
  C2. Between interrupts the kernel is in a state of one kind, \<open>serving\<close>: a well-formed run queue, a
  free console, the cursor on the screen, an idle keyboard buffer and the handlers in their places.
  Every sequence of timer ticks, keyboard bytes and unexpected interrupts, page faults aside, is
  handled without a panic, without an access outside a table and without waiting, and leads to a
  state of the same kind. No thread is lost, and what was in the keyboard buffer is still in front.
\<close>

theorem interrupts_keep_serving:
  assumes "serving dev s ps xs" "list_all expected evs"
  shows "\<exists>t qs ys. cpu_irqs dev (Suc n) pgf evs s = Some t \<and> serving dev t qs (xs @ ys) \<and> length ys \<le> length evs \<and>
    same_crew s ps t qs"
  using assms by (rule events_serve)

theorem interrupts_keep_serving_witness:
  "\<exists>k t qs ys. kern_init boot_link boot_mem boot_elf 1 zero_kernel = kret () k \<and>
     cpu_irqs \<lparr>kbd_ioq = 0xC01D1000, con_lck = 0xC01D0000, kbd_port = 0\<rparr> 1 (\<lambda>s. None)
       [(32, 0), (33, 0x1E), (33, 0x7F), (7, 0), (32, 0)] (k_st k) = Some t \<and>
     serving \<lparr>kbd_ioq = 0xC01D1000, con_lck = 0xC01D0000, kbd_port = 0\<rparr> t qs ys \<and> same_crew (k_st k) [] t qs"
proof -
  have l: "at_strtab_lit boot_link = 0xC00093C0" "at_symtab_lit boot_link = 0xC00093D0" "at_console_lck boot_link = 0xC01D0000"
    by (simp_all add: boot_link_def)
  obtain k where k: "kern_init boot_link boot_mem boot_elf 1 zero_kernel = kret () k" "running boot_link (k_st k)"
    using kern_init_runs [OF zero_loaded boot_machine, of boot_elf 0] boot_literals by (simp only: l One_nat_def) blast
  let ?dev = "\<lparr>kbd_ioq = 0xC01D1000, con_lck = 0xC01D0000, kbd_port = 0\<rparr>"
  have "serving ?dev (k_st k) [] []" by (rule running_serves [OF k(2)]) (simp add: l)
  moreover have "list_all expected [(32, 0), (33, 0x1E), (33, 0x7F), (7, 0), (32, 0)]" by (simp add: expected_def)
  ultimately show ?thesis
    using interrupts_keep_serving [of ?dev "k_st k" "[]" "[]" _ 0 "\<lambda>s. None"] k(1) by (simp only: One_nat_def) fastforce
qed

section \<open>The page allocator\<close>

text \<open>
  C3. Any sequence of requests of at most 65536 pages and of releases of blocks the client still
  holds runs to its end without a panic, and at every end the pages of the free lists and the pages
  of the blocks that are out make up exactly the pages of the start: none is lost, none is handed
  out twice.
\<close>

theorem page_accounting:
  assumes "buddy_pool s M" "one_each M" "list_all fair ops"
  shows "\<exists>t M' Bs. client alloc_buddy free_buddy ops [] s = kret (map hd Bs) t \<and> buddy_pool t M' \<and>
    (\<forall>B\<in>set Bs. buddy_held t B) \<and> M' + mset (concat Bs) = M"
  using bp.client_books [of M s M "[]" ops] assms by (auto simp: bp.books_def)

theorem page_accounting_witness:
  "\<exists>t M' Bs. client alloc_buddy free_buddy [Alloc 4, Alloc 4, Free 1, Alloc 1, Free 0] [] four_frames =
      kret (map hd Bs) t \<and> buddy_pool t M' \<and> (\<forall>B\<in>set Bs. buddy_held t B) \<and>
    M' + mset (concat Bs) = mset [PG 0, PG 1, PG 2, PG 3]"
  by (rule page_accounting [OF four_frames_pool one_each_four]) (simp add: fair_def pages_wanted_def)

text \<open>
  C4. \<open>init_buddy\<close>, given a memory map with one usable region at 1 MiB, returns with an allocator
  whose free pages are the frames from \<open>first_frame\<close> to the end of the region, each of them once; of
  an odd number of frames the last one is in no list. \<open>first_frame\<close> is where the code starts, a
  quarter of the image's size above 1 MiB: the frames overlap the image, and C28 shows what follows.
\<close>

theorem init_buddy_pool:
  assumes "one_region mmap (unat mmap_length) e" "unat kern_start \<le> unat kern_end"
    "unat kern_end - unat kern_start < 2 ^ 31" "1048576 + unat (length_low (mmap e)) < 2 ^ 32"
    "phy_page_num s = 0" "1 \<le> frame_count (mmap e) kern_start kern_end"
  shows "\<exists>t. init_buddy mmap mmap_length kern_start kern_end s = kret () t \<and>
    buddy_pool t (mset (map PG [0..<pages_used (frame_count (mmap e) kern_start kern_end)])) \<and>
    phy_page_num t = int (frame_count (mmap e) kern_start kern_end) \<and>
    (\<forall>j<frame_count (mmap e) kern_start kern_end.
       start_addr (phy_pages t (PG j)) = of_nat (first_frame kern_start kern_end + 4096 * j))"
proof -
  let ?N = "frame_count (mmap e) kern_start kern_end"
  obtain t A where t: "init_buddy mmap mmap_length kern_start kern_end s = kret () t" "buddy_rel t A"
      "pages_of A = mset (map PG [0..<pages_used ?N])" "phy_page_num t = int ?N"
      "\<And>j. j < ?N \<Longrightarrow> start_addr (phy_pages t (PG j)) = of_nat (first_frame kern_start kern_end + 4096 * j)
         \<and> ref_num (phy_pages t (PG j)) = 0"
    using init_buddy_establishes [OF assms] by blast
  have "pages_used ?N \<le> ?N" by (simp add: pages_used_def)
  with t(5) have "ref_num (phy_pages t p) = 0" if "p \<in># mset (map PG [0..<pages_used ?N])" for p
    using that by auto
  with t(2,3) have "buddy_pool t (mset (map PG [0..<pages_used ?N]))" unfolding buddy_pool_def by blast
  with t(1,4,5) show ?thesis by blast
qed

theorem init_buddy_pool_witness:
  "\<exists>t. init_buddy sample_map 2 0x100000 0x104000 (four_frames\<lparr>phy_page_num := 0\<rparr>) = kret () t \<and>
     buddy_pool t (mset (map PG [0..<14])) \<and> phy_page_num t = 15 \<and>
     (\<forall>j<15. start_addr (phy_pages t (PG j)) = of_nat (0x101000 + 4096 * j))"
proof -
  have "frame_count (sample_map 1) 0x100000 0x104000 = 15" "first_frame 0x100000 0x104000 = 0x101000"
    by (simp_all add: frame_count_def nframes_def first_frame_def page_up_def sample_map_def)
  moreover have "one_region sample_map (unat (2 :: uint)) 1"
    by (auto simp: one_region_def sample_map_def)
  ultimately show ?thesis
    using init_buddy_pool [of sample_map 2 1 "0x100000" "0x104000" "four_frames\<lparr>phy_page_num := 0\<rparr>"]
    by (simp add: sample_map_def pages_used_def)
qed

text \<open>
  C5. \<open>alloc_buddy\<close> refines \<open>alloc_spec\<close>: it takes the first block of the smallest non-empty
  size class that is large enough, or, of a larger block, its upper half; it marks the pages of the
  block busy; when no class has a block it reports failure and changes nothing.
\<close>

theorem alloc_buddy_refines:
  assumes "buddy_rel s A" "fits (pages_wanted memsize) k" "k < 17"
  shows "case alloc_spec k A of
      None \<Rightarrow> alloc_buddy memsize s = kret (Pnull, 0) s
    | Some (n, B, A') \<Rightarrow> \<exists>t. alloc_buddy memsize s = kret (hd B, 1) t \<and> handed s A n B A' t \<and> busy t B"
  using assms by (auto split: option.splits intro: alloc_buddy_fails elim: alloc_buddy_succeeds)

theorem alloc_buddy_refines_witness:
  "\<exists>t. alloc_buddy 4 four_frames = kret (PG 2, 1) t \<and> busy t [PG 2, PG 3] \<and>
     handed four_frames one_block 1 [PG 2, PG 3] (one_block(2 := [], 1 := [PG 0, PG 1])) t"
proof -
  have "fits (pages_wanted 4) 0" by (simp add: fits_def pages_wanted_def)
  moreover have "alloc_spec 0 one_block = Some (1, [PG 2, PG 3], one_block(2 := [], 1 := [PG 0, PG 1]))"
    by (simp add: alloc_spec_def one_block_def pick_def split_spec_def upt_rec numeral_2_eq_2)
  ultimately show ?thesis using alloc_buddy_refines [OF four_frames_rel, of 4 0] by auto
qed

text \<open>
  C6. \<open>free_buddy\<close> of a block the caller owns, none of whose pages is referenced, refines
  \<open>free_spec\<close>: as long as the size class of the block has a block, the first block of that class
  is taken as its buddy and joined with it, and the result is stored one class up.
\<close>

theorem free_buddy_merges:
  assumes "buddy_rel s A" "owned s A k B" "k < 17" "all_free s B"
  shows "\<exists>t. free_buddy (hd B) s = kret () t \<and> buddy_rel t (free_spec (high_bit s) k B A) \<and>
    pages_of (free_spec (high_bit s) k B A) = pages_of A + mset B \<and> same_frames s t \<and> klog t = klog s"
  using free_buddy_refines [OF assms] by blast

theorem free_buddy_merges_witness:
  "\<exists>t. free_buddy (PG 0) all_taken = kret () t \<and> buddy_rel t one_block"
proof -
  have "free_spec h 2 [PG 0, PG 1, PG 2, PG 3] (\<lambda>_. []) = one_block" for h
    by (subst free_spec.simps) (simp add: one_block_def)
  then show ?thesis
    using free_buddy_merges [OF all_taken_rel all_taken_owned]
    by (auto simp: all_free_def all_taken_def four_frames_def four_pages_def frame_at_def upd_lst_def upd_num_def)
qed

text \<open>C7. \<open>free_buddy\<close> of a block with a referenced page reports it and changes nothing else.\<close>

theorem free_buddy_keeps_referenced:
  assumes "owned s A k B" "\<exists>p\<in>set B. ref_num (phy_pages s p) \<noteq> 0"
  shows "free_buddy (hd B) s = kret () (s\<lparr>klog := klog s @ [line ''free buddy failed'']\<rparr>)"
  using assms by (intro free_buddy_refuses) (auto simp: all_free_def)

theorem free_buddy_keeps_referenced_witness:
  "free_buddy (PG 0) (upd_page (PG 1) (\<lambda>g. g\<lparr>ref_num := 1\<rparr>) all_taken) =
     kret () (upd_page (PG 1) (\<lambda>g. g\<lparr>ref_num := 1\<rparr>) all_taken\<lparr>klog := [line ''free buddy failed'']\<rparr>)"
proof -
  have "owned (upd_page (PG 1) (\<lambda>g. g\<lparr>ref_num := 1\<rparr>) all_taken) (\<lambda>_. []) 2 [PG 0, PG 1, PG 2, PG 3]"
    using all_taken_owned
    by (simp add: owned_def frame_ok_def nxt_def prv_def upd_page_def)
  from free_buddy_keeps_referenced [OF this] show ?thesis
    by (simp add: upd_page_def all_taken_def four_frames_def upd_lst_def upd_num_def)
qed

text \<open>
  C8. A request of more than 65536 and fewer than \<open>2 ^ 30\<close> pages makes \<open>alloc_buddy\<close> read
  \<open>buddy_table\<close> past its 17 entries; one of \<open>2 ^ 30\<close> pages, the largest there is, never returns,
  because the doubling in \<open>log2\<close> overflows to 0.
\<close>

theorem alloc_buddy_oversize:
  assumes "65536 < pages_wanted memsize"
  shows "alloc_buddy memsize s =
    (if pages_wanted memsize = 2 ^ 30 then None else kstop (Undefined ''buddy_table''))"
proof -
  have "pages_wanted memsize \<le> 2 ^ 30" using unat_less32 [of memsize] by (simp add: pages_wanted_def)
  then show ?thesis
    using assms alloc_buddy_too_large [of memsize s] alloc_buddy_hangs [of memsize s]
    by (cases "pages_wanted memsize = 2 ^ 30") auto
qed

theorem alloc_buddy_oversize_witness:
  "alloc_buddy 0x40004 four_frames = kstop (Undefined ''buddy_table'') \<and> alloc_buddy 0xFFFFFFFF four_frames = None"
  using alloc_buddy_oversize [of "0x40004" four_frames] alloc_buddy_oversize [of "0xFFFFFFFF" four_frames]
  by (simp add: pages_wanted_def)

section \<open>Threads and locks\<close>

text \<open>
  C9. Round robin: when the timer interrupts the running thread, the thread at position \<open>k\<close> of
  the ready list gets the processor after exactly the rest of the running thread's quantum and the
  quanta of the \<open>k\<close> threads before it, with its own quantum full; by then those threads stand
  behind it in the list, in the same order. A priority of 0 counts as 256 ticks.
\<close>

theorem round_robin_turn:
  assumes "run_queue lck s ps" "k < length ps"
  shows "\<exists>t. cpu_ticks (printk lck (Suc n))
      (quantum (ticks (procs s (current s))) + (\<Sum>p\<leftarrow>take k ps. quantum (prio (procs s p)))) s = Some t \<and>
    current t = ps ! k \<and> run_queue lck t (drop (Suc k) ps @ current s # take k ps) \<and>
    ticks (procs t (ps ! k)) = prio (procs s (ps ! k)) \<and> (\<forall>p. prio (procs t p) = prio (procs s p))"
  using assms kp.gets_its_turn unfolding run_queue_rr by blast

theorem round_robin_turn_witness:
  "\<exists>t. cpu_ticks (printk 0x9000 1) 5 sample_kernel = Some t \<and> current t = 0x3000 \<and>
     run_queue 0x9000 t [0x1000, 0x2000]"
proof -
  have "run_queue 0x9000 sample_kernel [0x2000, 0x3000]" unfolding run_queue_rr by (rule sample_rr)
  from round_robin_turn [OF this, of 1 0] show ?thesis
    by (auto simp: sample_procs_def sample_thread_def zero_proc_def quantum_def)
qed

text \<open>
  C10. \<open>kthread_create\<close>, given a fresh page for the thread, puts the thread at the end of the ready
  list with the next process id, a full quantum and a stack from which \<open>switch_to\<close> enters \<open>fn\<close>
  with its argument and returns into \<open>kthread_ret\<close>; the run queue stays well formed.
\<close>

theorem kthread_create_ready:
  assumes "run_queue lck s ps" "queueable s proc" "proc \<notin> set (current s # ps)"
    "node proc \<noteq> waiters (lock_sem lck)" "length name < 100"
  shows "\<exists>t. kthread_create proc ret fn args name pri s = kret (word_of_int (now_pid s)) t \<and>
    run_queue lck t (ps @ [proc]) \<and> current t = current s \<and> p_pid (procs t proc) = now_pid s \<and>
    now_pid t = now_pid s + 1 \<and> prio (procs t proc) = pri \<and> c_esp (context_of (procs t proc)) = proc + 4084 \<and>
    map (stack_words t) [proc + 4084, proc + 4088, proc + 4092] = [fn, ret, args]"
  using assms by (rule kthread_create_joins)

theorem kthread_create_ready_witness:
  "\<exists>t. kthread_create 0x5000 0x111 0x222 0x333 [0x70, 0x31] 8 sample_kernel = kret 4 t \<and>
     run_queue 0x9000 t [0x2000, 0x3000, 0x5000] \<and>
     map (stack_words t) [0x5FF4, 0x5FF8, 0x5FFC] = [0x222, 0x111, 0x333]"
proof -
  have "run_queue 0x9000 sample_kernel [0x2000, 0x3000]" unfolding run_queue_rr by (rule sample_rr)
  moreover have "now_pid sample_kernel = 4" by (simp add: sample_kernel_def)
  ultimately show ?thesis
    using kthread_create_ready [of "0x9000" sample_kernel "[0x2000, 0x3000]" "0x5000" "[0x70, 0x31]" "0x111" "0x222" "0x333" 8]
    by (auto simp: queueable_def node_def node_offset_def waiters_def lock_sem_def)
qed

text \<open>
  C11. A lock that the running thread takes \<open>n\<close> times in a row and releases \<open>n\<close> times is
  held with depth \<open>n\<close> in between and free afterwards, and no thread changed.
\<close>

theorem nested_lock:
  assumes "unlocked l s" "current s \<noteq> NULL" "0 < n" "n < 2 ^ 32"
  shows "\<exists>t u. repeat_run n (req_lock pr l) s = kret () t \<and> locked_by l (current s) (of_nat n) t \<and>
    repeat_run n (lock_release l) t = kret () u \<and> unlocked l u \<and> same_threads s u"
  using assms by (rule lock_round_trip)

theorem nested_lock_witness:
  "\<exists>t u. repeat_run 3 (req_lock (printk 0x9000 1) 0x9000) sample_kernel = kret () t \<and> locked_by 0x9000 0x1000 3 t \<and>
     repeat_run 3 (lock_release 0x9000) t = kret () u \<and> unlocked 0x9000 u \<and> same_threads sample_kernel u"
  using nested_lock [OF sample_unlocked(1), of 3 "printk 0x9000 1"] by simp

text \<open>
  C12. \<open>sema_up\<close> on a taken semaphore takes the first waiter off its list, makes it ready at the
  front of the ready list, and sets the semaphore to 1; the other waiters keep their order.
\<close>

theorem sema_up_wakes_first:
  assumes "sem_value s p = 0" "clist (lists s) (waiters p) (node x # ws)" "ready s ps"
    "queueable s x" "x \<notin> set ps" "p_state (procs s x) \<in> {PROC_WAITING, PROC_HANGING, PROC_BLOCKED}"
    "set (waiters p # ws) \<inter> set (map node (proc_ready_list s # ps)) = {}"
  shows "\<exists>t. sema_up p s = kret () t \<and> sem_value t p = 1 \<and> clist (lists t) (waiters p) ws \<and>
    ready t (x # ps) \<and> p_state (procs t x) = PROC_READY"
  using assms by (rule sema_up_wakes)

theorem sema_up_wakes_first_witness:
  "\<exists>t. sema_up 0xB000 sample_kernel = kret () t \<and> sem_value t 0xB000 = 1 \<and>
     clist (lists t) (waiters 0xB000) [] \<and> ready t [0x4000, 0x2000, 0x3000] \<and>
     p_state (procs t 0x4000) = PROC_READY"
  by (rule sema_up_wakes_first [OF _ sample_waiting sample_ready])
    (simp_all add: queueable_def sample_procs_def sample_thread_def node_def node_offset_def waiters_def)

text \<open>
  C13. \<open>sema_down\<close> on a taken semaphore panics when the running thread has ticks left: the
  \<open>thread_block\<close> of the loop comes back at once because \<open>schedule\<close> does not look at the state of
  the thread, and the second round finds the thread on the list of waiters already.
\<close>

theorem sema_down_taken_panics:
  assumes "sem_value s p = 0" "clist (lists s) (waiters p) ws"
    "node (current s) \<notin> set (waiters p # ws)" "node (current s) \<noteq> NULL" "ticks (procs s (current s)) \<noteq> 0"
  shows "sema_down pr p s = kstop (Panic ''running thread must not be waiting'')"
  using assms by (rule sema_down_contended)

theorem sema_down_taken_panics_witness:
  "sema_down (printk 0x9000 1) 0xB000 sample_kernel = kstop (Panic ''running thread must not be waiting'')"
  by (rule sema_down_taken_panics [OF _ sample_waiting])
    (simp_all add: sample_procs_def sample_thread_def node_def node_offset_def waiters_def)

section \<open>The console\<close>

text \<open>
  C14. \<open>console_write_color\<close> of a string, with the console free, does to the screen what the
  reference terminal does with the characters one by one (line feed, carriage return, backspace,
  tabulator, wrap at column 80, scroll at row 25), writes no cell outside the 80 by 25 ones, leaves
  the cursor on the screen and the console free, and changes no thread.
\<close>

theorem console_write_terminal:
  assumes "unlocked lck s" "current s \<noteq> NULL" "on_screen s"
  shows "\<exists>t. console_write_color lck pr f b str s = kret () t \<and>
    screen t = fold (\<lambda>c. term_char c (attribute f b)) str (screen s) \<and> on_screen t \<and>
    (\<forall>j. j < 0 \<or> 2000 \<le> j \<longrightarrow> text_video_mem t j = text_video_mem s j) \<and> unlocked lck t \<and> same_threads s t"
proof -
  obtain t where t: "console_write_color lck pr f b str s = kret () t" "unlocked lck t" "same_threads s t"
      "same_screen (write_chars f b str s) t"
    using console_write_prints [OF assms(1,2)] by blast
  from t(4) have "screen t = screen (write_chars f b str s)" "on_screen t = on_screen (write_chars f b str s)"
    by (simp_all add: same_screen_def screen_def on_screen_def)
  then show ?thesis
    using t write_chars_refines [OF assms(3)] by (intro exI [of _ t]) (simp add: same_screen_def)
qed

theorem console_write_terminal_witness:
  "\<exists>t. console_write_color 0x9000 (printk 0x9000 1) 15 0 [0x48, 0x69, 0x0A] sample_kernel = kret () t \<and>
     t_col (screen t) = 0 \<and> t_row (screen t) = 1 \<and> cells (screen t) ! 1 = 0x0F69 \<and> unlocked 0x9000 t"
proof -
  obtain t where t: "console_write_color 0x9000 (printk 0x9000 1) 15 0 [0x48, 0x69, 0x0A] sample_kernel = kret () t"
      "screen t = fold (\<lambda>c. term_char c (attribute 15 0)) [0x48, 0x69, 0x0A] (screen sample_kernel)" "unlocked 0x9000 t"
    using console_write_terminal [OF sample_unlocked(1), of "printk 0x9000 1" 15 0 "[0x48, 0x69, 0x0A]"] by auto
  have "screen sample_kernel = \<lparr>cells = replicate 2000 blank, t_col = 0, t_row = 0\<rparr>"
    by (simp add: screen_def sample_kernel_def map_replicate_const del: upt_rec_numeral)
  with t show ?thesis
    by (simp add: term_char_def go_to_def new_line_def attribute_def)
qed

section \<open>Text\<close>

text \<open>
  C15. Before \<open>console_init\<close> the lock of the console is zero bytes. The first message is printed, and
  its release of the lock turns interrupts on; the second message panics in \<open>sema_up\<close>.
\<close>

theorem early_messages:
  assumes "early lck 0 s"
  shows "\<exists>t. printk lck (Suc n) msg s = kret () t \<and> same_screen (write_chars 15 0 msg s) t \<and> kst.intr_on t \<and>
    printk lck (Suc j) msg' t = kstop (Panic ''before V sema val must be 0'')"
proof -
  obtain t where "printk lck (Suc n) msg s = kret () t" "early lck 1 t" "kst.intr_on t"
      "same_screen (write_chars 15 0 msg s) t"
    by (rule early_message [OF assms, where n = n and msg = msg])
  with early_message_again [of lck t j msg'] show ?thesis by blast
qed

theorem early_messages_witness:
  "\<exists>t. printk 0xC01D0000 1 [0x41] zero_kst = kret () t \<and> kst.intr_on t \<and>
     printk 0xC01D0000 1 [0x42] t = kstop (Panic ''before V sema val must be 0'')"
proof -
  have "early 0xC01D0000 0 zero_kst"
    using zero_loaded by (simp add: loaded_def zero_kernel_def boot_link_def)
  from early_messages [OF this, of 0 "[0x41]" 0 "[0x42]"] show ?thesis unfolding One_nat_def by blast
qed

text \<open>
  C16. \<open>sprintk\<close> renders a format that is complete (every conversion has its argument, no lone
  percent sign at the end): the 1024 byte buffer holds the literal characters and, for \<open>%u\<close>,
  \<open>%d\<close>, \<open>%l\<close>, \<open>%x\<close>, \<open>%c\<close> and \<open>%s\<close>, the decimal, signed, hexadecimal, character and string form of
  the arguments, in order, followed by zeros; no other memory but the scratch array changes.
\<close>

theorem sprintk_text:
  assumes "region tmp 32 \<inter> region buf 1024 = {}" "pieces f ap = Some ps"
    "cstr m fmt f" "region fmt (length f + 1) \<inter> (region buf 1024 \<union> region tmp 32) = {}"
    "\<forall>pc\<in>set ps. piece_ok m (region buf 1024 \<union> region tmp 32) str pc" "length (render str ps) < 1024"
  shows "\<exists>n m'. sprintk buf tmp fmt ap m = kret n m' \<and> out_buf m' buf (render str ps) \<and>
    (\<forall>a. a \<notin> region buf 1024 \<union> region tmp 32 \<longrightarrow> m' a = m a)"
  using assms by (rule sprintk_renders)

theorem sprintk_text_witness:
  "\<exists>n m'. sprintk 0x8000 0x9000 0x1000 [0xFFFFFFF4, 0xBEEF] sample_mem = kret n m' \<and>
     out_buf m' 0x8000 [0x6E, 0x3D, 0x2D, 0x31, 0x32, 0x2C, 0x42, 0x45, 0x45, 0x46]"
proof -
  let ?ps = "[Lit 0x6E, Lit 0x3D, Conv 0x64 0xFFFFFFF4, Lit 0x2C, Conv 0x78 0xBEEF]"
  have "render (\<lambda>_. []) ?ps = [0x6E, 0x3D, 0x2D, 0x31, 0x32, 0x2C, 0x42, 0x45, 0x45, 0x46]"
    by (simp add: render_def signed_text_def dec_digit_def hex_digit_def radix.simps)
  moreover have "pieces [0x6E, 0x3D, 0x25, 0x64, 0x2C, 0x25, 0x78] [0xFFFFFFF4, 0xBEEF] = Some ?ps"
    by (simp add: is_conv_def)
  moreover have "region 0x9000 32 \<inter> region 0x8000 1024 = {}" by (rule region_apart) simp_all
  moreover have "region 0x1000 (length [0x6E, 0x3D, 0x25, 0x64, 0x2C, 0x25, 0x78 :: uchar] + 1) \<inter>
      (region 0x8000 1024 \<union> region 0x9000 32) = {}"
    unfolding Int_Un_distrib by (simp add: region_apart(1))
  moreover have "\<forall>pc\<in>set ?ps. piece_ok sample_mem W (\<lambda>_. []) pc" for W by simp
  ultimately show ?thesis
    using sprintk_text [OF _ _ sample_strings(1), of "0x9000" "0x8000" "[0xFFFFFFF4, 0xBEEF]" ?ps "\<lambda>_. []"] by auto
qed

text \<open>
  C17. \<open>utoa\<close> and \<open>ToHex\<close> leave, for every number, address and memory, a terminated numeral of decimal
  and of hexadecimal digits whose value, read back with base 10 and 16, is the number.
\<close>

theorem numerals_read_back:
  "\<exists>xs ys. cstr (utoa a tmp m) tmp xs \<and> list_all (\<lambda>c. 0x30 \<le> c \<and> c \<le> 0x39) xs \<and>
     value_of 10 (\<lambda>c. unat c - 48) xs = unat a \<and>
     cstr (ToHex a tmp m) tmp ys \<and> list_all (\<lambda>c. (0x30 \<le> c \<and> c \<le> 0x39) \<or> (0x41 \<le> c \<and> c \<le> 0x46)) ys \<and>
     value_of 16 (\<lambda>c. if c < 58 then unat c - 48 else unat c - 55) ys = unat a"
proof -
  have dec: "0x30 \<le> dec_digit i \<and> dec_digit i \<le> 0x39" if "i < 10" for i
  proof -
    have "i \<in> {0, 1, 2, 3, 4, 5, 6, 7, 8, 9}" using that by auto
    then show ?thesis by (auto simp: dec_digit_def)
  qed
  have hex: "(0x30 \<le> hex_digit i \<and> hex_digit i \<le> 0x39) \<or> (0x41 \<le> hex_digit i \<and> hex_digit i \<le> 0x46)" if "i < 16" for i
  proof -
    have "list_all (\<lambda>c. (0x30 \<le> c \<and> c \<le> 0x39) \<or> (0x41 \<le> c \<and> c \<le> 0x46)) (map hex_digit [0..<16])"
      by (simp add: upt_rec hex_digit_def)
    then show ?thesis using that by (simp add: list_all_iff del: upt_rec_numeral)
  qed
  have "value_of 10 (\<lambda>c. unat c - 48) (decimal n) = n" for n
    by (intro value_of_radix) (simp_all add: dec_digit_def unat_of_nat del: of_nat_add)
  moreover have "value_of 16 (\<lambda>c. if c < 58 then unat c - 48 else unat c - 55) (hexadecimal n) = n" for n
    by (intro value_of_radix) (simp_all add: hex_digit_def unat_of_nat word_less_nat_alt del: of_nat_add)
  moreover have "list_all (\<lambda>c. 0x30 \<le> c \<and> c \<le> 0x39) (decimal n)" for n
    by (rule radix_digits) (use dec in simp_all)
  moreover have "list_all (\<lambda>c. (0x30 \<le> c \<and> c \<le> 0x39) \<or> (0x41 \<le> c \<and> c \<le> 0x46)) (hexadecimal n)" for n
    by (rule radix_digits) (use hex in simp_all)
  ultimately show ?thesis using utoa_string(1) [of a tmp m] ToHex_string(1) [of a tmp m] by blast
qed

text \<open>
  \<open>%d\<close> of the smallest integer prints garbage: its negation overflows to itself, and
  \<open>itoa\<close> writes the characters below \<open>'0'\<close> that negative remainders give.
\<close>

theorem int_min_garbage:
  "bytes (itoa (i32 (- sint (0x80000000 :: uint))) tmp m) tmp
     [0x2E, 0x2F, 0x2C, 0x29, 0x2C, 0x28, 0x2D, 0x2A, 0x2C, 0x28, 0]"
  by (rule itoa_int_min)

text \<open>
  C18. \<open>strcat\<close> appends: with room after the destination, the destination holds the two texts one
  after the other, terminated, and nothing outside the room changes.
\<close>

theorem strcat_concatenates:
  assumes "cstr m dst xs" "cstr m src ys" "length xs + length ys + 1 < 2 ^ 32"
    "region dst (length xs + length ys + 1) \<inter> region src (length ys + 1) = {}"
  shows "\<exists>m'. strcat dst src m = kret dst m' \<and> cstr m' dst (xs @ ys) \<and>
    (\<forall>a. a \<notin> region dst (length xs + length ys + 1) \<longrightarrow> m' a = m a)"
  using assms by (rule strcat_appends)

theorem strcat_concatenates_witness:
  "\<exists>m'. strcat 0x3000 0x2000 sample_mem = kret 0x3000 m' \<and> cstr m' 0x3000 [0x41, 0x41, 0x42]"
  using strcat_concatenates [OF sample_strings(3,2)] 
    region_apart(2) [of "0x2000" "length [0x41, 0x42 :: uchar] + 1" "0x3000"
      "length [0x41 :: uchar] + length [0x41, 0x42 :: uchar] + 1"]
  by auto

text \<open>
  \<open>strcpy\<close> copies the characters but not the terminating zero: what follows the copy is what
  was there, so a shorter text over a longer one keeps the end of the longer one.
\<close>

theorem strcpy_unterminated:
  assumes "cstr m src xs" "int (length xs) \<le> addr_dis dst src" "length xs < 2 ^ 31"
  shows "\<exists>m'. strcpy dst src m = kret dst m' \<and> bytes m' dst xs \<and>
    (\<forall>a. a \<notin> region dst (length xs) \<longrightarrow> m' a = m a) \<and> m' (dst + of_nat (length xs)) = m (dst + of_nat (length xs))"
  using strcpy_copies [OF assms] region_end [of "length xs" dst] assms(3) by fastforce

theorem strcpy_unterminated_witness:
  "\<exists>m'. strcpy 0x2000 0x3000 sample_mem = kret 0x2000 m' \<and> bytes m' 0x2000 [0x41] \<and> m' 0x2001 = 0x42"
  using strcpy_unterminated [OF sample_strings(3), of "0x2000"]
  by (auto simp: addr_dis_def sample_mem_def)

text \<open>\<open>strcmp\<close> of two terminated strings returns, with 0 exactly when they are equal.\<close>

theorem strcmp_decides:
  "cstr m p xs \<Longrightarrow> cstr m q ys \<Longrightarrow> strcmp m p q = Some (if xs = ys then 0 else 1)"
  by (rule strcmp_cstr)

theorem strcmp_decides_witness:
  "strcmp sample_mem 0x2000 0x3000 = Some 1 \<and> strcmp sample_mem 0x2000 0x2000 = Some 0"
  using strcmp_decides [OF sample_strings(2,3)] strcmp_decides [OF sample_strings(2,2)] by simp

section \<open>The keyboard\<close>

text \<open>
  C19. The keyboard buffer is a queue of 1023 characters: what is put into it comes out in the same
  order, behind what was in it.
\<close>

theorem ioqueue_fifo:
  assumes "idle_queue s xs" "length xs + length bs \<le> 1023"
  shows "\<exists>t. kbind (put_all (ioq_putchar ioq pr) bs s) (\<lambda>_ s. get_many (ioq_getchar ioq pr) (length (xs @ bs)) s) =
    kret (xs @ bs) t \<and> idle_queue t []"
  using assms by (rule kq.first_in_first_out)

theorem ioqueue_fifo_witness:
  "\<exists>t. kbind (put_all (ioq_putchar 0xA000 (printk 0x9000 1)) [0x68, 0x69] sample_kernel)
      (\<lambda>_ s. get_many (ioq_getchar 0xA000 (printk 0x9000 1)) 2 s) = kret [0x68, 0x69] t \<and> idle_queue t []"
  using ioqueue_fifo [OF sample_idle_queue, of "[0x68, 0x69]" "0xA000" "printk 0x9000 1"]
  by (simp add: numeral_2_eq_2 cong del: kbind_cong)

text \<open>
  \<open>ioq_getchar\<close> on an empty buffer panics when the reader has ticks left: \<open>ioq_wait\<close> comes
  back at once, the buffer is still empty, and the second \<open>ioq_wait\<close> finds the reader registered.
\<close>

theorem ioq_getchar_panics:
  assumes "ioq_holds (kbd_buf s) []" "consumer (kbd_buf s) = NULL" "unlocked ioq s"
    "current s \<noteq> NULL" "ticks (procs s (current s)) \<noteq> 0"
  shows "ioq_getchar ioq pr s = kstop (Panic ''error'')"
  using assms by (rule ioq_getchar_empty_panics)

theorem ioq_getchar_panics_witness:
  "ioq_getchar 0xA000 (printk 0x9000 1) sample_kernel = kstop (Panic ''error'')"
  using ioq_getchar_panics [of sample_kernel "0xA000" "printk 0x9000 1"] sample_idle_queue sample_unlocked
  by (simp add: idle_queue_def sample_procs_def sample_thread_def)

text \<open>
  C20. From the keys to the reader: the make and break codes of keys that type a character, handled
  one after the other with the modifiers held still, are what \<open>ioq_getchar\<close> returns, as the
  characters of the keys under those modifiers.
\<close>

theorem typing_arrives:
  assumes "list_all types_char ks" "ext_status s = 0" "idle_queue s []" "length ks \<le> 1023"
  shows "\<exists>t. kbind (kbd_run (kbd_handler ioq pr wr) (strokes ks) s) (\<lambda>_ s. get_many (ioq_getchar ioq pr) (length ks) s) =
    kret (map (\<lambda>k. key_char k (shift_status s) (capslock_status s)) ks) t"
proof -
  let ?cs = "map (\<lambda>k. key_char k (shift_status s) (capslock_status s)) ks"
  obtain t where t: "kbd_run (kbd_handler ioq pr wr) (strokes ks) s = kret () t" "idle_queue t (?cs @ [])"
    using typing_stores [OF assms(1-3), of ioq pr wr] assms(4) by auto
  with kq.gets_holds [OF t(2), of ioq pr] show ?thesis by (auto cong del: kbind_cong)
qed

theorem typing_arrives_witness:
  "\<exists>t. kbind (kbd_run (kbd_handler 0xA000 (printk 0x9000 1) (printk 0x9000 1)) [0x23, 0xA3, 0x17, 0x97] sample_kernel)
      (\<lambda>_ s. get_many (ioq_getchar 0xA000 (printk 0x9000 1)) 2 s) = kret [0x68, 0x69] t"
proof -
  have "map (\<lambda>k. key_char k (shift_status sample_kernel) (capslock_status sample_kernel)) [0x23, 0x17] = [0x68, 0x69]"
    "list_all types_char [0x23, 0x17]" "ext_status sample_kernel = 0"
    by (simp_all add: types_char_def keymap_table key_char_def key_shift_def sample_kernel_def)
  then show ?thesis
    using typing_arrives [of "[0x23, 0x17]" sample_kernel "0xA000" "printk 0x9000 1" "printk 0x9000 1"] sample_idle_queue
    by (simp add: strokes_def numeral_2_eq_2 cong del: kbind_cong)
qed

text \<open>
  C21. From the keys to the screen: typed keys go through the handler and the buffer to a reader
  thread of the kernel, which in as many rounds as keys prints each character behind its argument;
  the buffer is empty then, the console free and no thread changed.
\<close>

theorem typed_keys_appear:
  assumes "list_all types_char ks" "ext_status s = 0" "idle_queue s []" "length ks \<le> 1023"
    "unlocked lck s" "current s \<noteq> NULL"
  shows "\<exists>t. kbind (kbd_run (kbd_handler ioq (printk lck (Suc n)) wr) (strokes ks) s)
      (\<lambda>_ s. repeat_run (length ks) (f5_round ioq (printk lck (Suc n)) arg) s) = kret () t \<and>
    same_screen (write_chars 15 0 (concat (map (\<lambda>k. arg @ [key_char k (shift_status s) (capslock_status s)]) ks)) s) t \<and>
    idle_queue t [] \<and> unlocked lck t \<and> same_threads s t"
  using typing_echoes [OF assms, of ioq n wr arg] unfolding echoed_def by blast

theorem typed_keys_appear_witness:
  "\<exists>t. kbind (kbd_run (kbd_handler 0xA000 (printk 0x9000 1) (printk 0x9000 1)) [0x23, 0xA3, 0x17, 0x97] sample_kernel)
      (\<lambda>_ s. repeat_run 2 (f5_round 0xA000 (printk 0x9000 1) (chars ''A_'')) s) = kret () t \<and>
     same_screen (write_chars 15 0 (chars ''A_hA_i'') sample_kernel) t"
proof -
  have c: "key_char 0x23 (shift_status sample_kernel) (capslock_status sample_kernel) = 0x68"
    "key_char 0x17 (shift_status sample_kernel) (capslock_status sample_kernel) = 0x69"
    by (simp_all add: keymap_table key_char_def key_shift_def sample_kernel_def)
  have t: "list_all types_char [0x23, 0x17]" "ext_status sample_kernel = 0" "length [0x23 :: uchar, 0x17] \<le> 1023"
      "current sample_kernel \<noteq> NULL"
    by (simp_all add: types_char_def keymap_table sample_kernel_def)
  have k: "strokes [0x23, 0x17] = [0x23, 0xA3, 0x17, 0x97]" "length [0x23 :: uchar, 0x17] = 2" by (simp_all add: strokes_def)
  show ?thesis
    using typed_keys_appear [OF t(1,2) sample_idle_queue t(3) sample_unlocked(1) t(4), of "0xA000" 0 "printk 0x9000 1" "chars ''A_''"]
    unfolding k One_nat_def by (simp add: c cong del: kbind_cong del: printk.simps) blast
qed

text \<open>
  A letter key types a lower case letter, and its capital exactly when one of shift and caps
  lock is on and the other is not.
\<close>

theorem letters_follow_shift_and_caps:
  assumes "k \<in> set letter_keys"
  shows "types_char k \<and> 0x61 \<le> key_char k 0 0 \<and> key_char k 0 0 \<le> 0x7A \<and>
    key_char k sh caps = (if (sh \<noteq> 0) \<noteq> (caps \<noteq> 0) then key_char k 0 0 - 0x20 else key_char k 0 0)"
  using letter_char [OF assms] by blast

theorem letters_follow_shift_and_caps_witness:
  "key_char 0x1E 1 0 = 0x41 \<and> key_char 0x1E 1 1 = 0x61"
  using letters_follow_shift_and_caps [of "0x1E" 1 0] letters_follow_shift_and_caps [of "0x1E" 1 1]
  by (simp add: letter_keys_def upt_rec key_char_def key_shift_def keymap_table)

text \<open>
  \<open>kbd_handler\<close> returns on every byte in every modifier state, without reading outside the
  key map and without waiting: the buffer gets at most one character, and a full buffer none.
\<close>

theorem kbd_handler_returns:
  assumes "idle_queue s xs" "unlocked lck s" "current s \<noteq> NULL"
  shows "\<exists>t ys. kbd_handler ioq pr (console_write lck pr') byte s = kret () t \<and>
    idle_queue t (xs @ ys) \<and> length ys \<le> 1"
  using kbd_handler_total [OF assms] by blast

theorem kbd_handler_returns_witness:
  "\<exists>t ys. kbd_handler 0xA000 (printk 0x9000 1) (console_write 0x9000 (printk 0x9000 1)) 0x7F sample_kernel = kret () t \<and>
     idle_queue t ys \<and> length ys \<le> 1"
  using kbd_handler_returns [OF sample_idle_queue sample_unlocked(1)] by simp

section \<open>Reports\<close>

text \<open>
  C22. From the boot information to the name of a function: \<open>elf_from_multiboot\<close> returns with the
  string and symbol table of the kernel's image, and \<open>elf_lookup_symbol\<close> with them finds the name of
  the first function whose code covers the address, and \<open>NULL\<close> when there is none.
\<close>

theorem symbols_found:
  assumes "kernel_image m mb info shs a b syms" "cstr m lit1 strtab_text" "cstr m lit2 symtab_text"
  shows "\<exists>kernel_elf. elf_from_multiboot m lit1 lit2 mb elf0 = Some kernel_elf \<and>
    (\<forall>addr. elf_lookup_symbol m addr kernel_elf = found_name (sh_addr (shs ! a) + PAGE_OFFSET) (find (code_covers addr) syms))"
  using elf_from_multiboot_finds [OF assms, of elf0] elf_lookup_finds [OF assms(1)] by simp

theorem symbols_found_witness:
  "\<exists>kernel_elf. elf_from_multiboot boot_mem 0xC00093C0 0xC00093D0 0xC0009000 boot_elf = Some kernel_elf \<and>
     cstr boot_mem (elf_lookup_symbol boot_mem 0xC0100234 kernel_elf) (chars ''panic'') \<and>
     elf_lookup_symbol boot_mem 0xC0100280 kernel_elf = NULL"
proof -
  obtain kernel_elf where e: "elf_from_multiboot boot_mem 0xC00093C0 0xC00093D0 0xC0009000 boot_elf = Some kernel_elf"
      "\<forall>addr. elf_lookup_symbol boot_mem addr kernel_elf =
        found_name (sh_addr (boot_sections ! 1) + PAGE_OFFSET) (find (code_covers addr) boot_symbols)"
    using symbols_found [OF boot_image boot_literals, of boot_elf] by blast
  have "elf_lookup_symbol boot_mem 0xC0100234 kernel_elf = 0xC000938B" "elf_lookup_symbol boot_mem 0xC0100280 kernel_elf = NULL"
    unfolding e(2) [rule_format]
    by (simp_all add: boot_symbols_def symbol_of_def code_covers_def found_name_def boot_sections_def section_at_def PAGE_OFFSET_def)
  then show ?thesis using e(1) boot_names(5) by simp
qed

text \<open>
  C23. \<open>panic\<close> with the console free: the stack trace ends at the outermost frame, the message and one
  line for each call with the name of its function stand on the screen, and then the kernel loops
  for ever.
\<close>

theorem panic_reports:
  assumes "call_chain m kernel_elf ebp fs" "unlocked lck s" "current s \<noteq> NULL"
  shows "\<exists>t u v. printk lck (Suc n) (panic_text msg) s = kret () t \<and>
    print_stack_trace (printk lck (Suc n)) m kernel_elf ebp t = kret () u \<and> printk lck (Suc n) panic_end u = kret () v \<and>
    same_screen (write_chars 15 0 (panic_text msg @ concat (map frame_text fs) @ panic_end) s) v \<and>
    panic (printk lck (Suc n)) m kernel_elf ebp msg s = None"
  using panic_shows [OF assms refl] .

theorem panic_reports_witness:
  "\<exists>t u. printk 0x9000 1 (panic_text (chars ''error'')) sample_kernel = kret () t \<and>
     print_stack_trace (printk 0x9000 1) boot_mem boot_elf 0xC00093E0 t = kret () u \<and>
     panic (printk 0x9000 1) boot_mem boot_elf 0xC00093E0 (chars ''error'') sample_kernel = None"
  using panic_reports [OF boot_chain sample_unlocked(1), of 0 "chars ''error''"] unfolding One_nat_def by auto

section \<open>Descriptor tables and interrupts\<close>

text \<open>
  \<open>init_gdt\<close> builds four flat segments, code and data for the kernel and for user mode, and
  the table register covers the six descriptors.
\<close>

theorem gdt_is_flat:
  "let (ptr, gdt) = init_gdt a t in
     flat (gdt SEG_KCODE) (STA_X OR STA_R) DPL_KERNEL \<and> flat (gdt SEG_KDATA) STA_W DPL_KERNEL \<and>
     flat (gdt SEG_UCODE) (STA_X OR STA_R) DPL_USER \<and> flat (gdt SEG_UDATA) STA_W DPL_USER \<and>
     dt_base ptr = a \<and> unat (dt_limit ptr) + 1 = 8 * NSEGS"
  using init_gdt_flat [of a t "fst (init_gdt a t)" "snd (init_gdt a t)"] by (simp add: case_prod_beta Let_def)

text \<open>
  C24. After \<open>init_idt\<close> the gates 0 to 47 enter the kernel's stubs with interrupts off, gate 255 is
  a trap gate open to user mode, every other gate is as before, and the table register covers the
  256 gates.
\<close>

theorem idt_gates:
  assumes "init_idt a interrupt t s = ((ptr, idt), s')"
  shows "(\<forall>j<48. kernel_gate (idt j) (interrupt j) STS_IG32 0) \<and> kernel_gate (idt 255) (interrupt 255) STS_TG32 3 \<and>
    (\<forall>j\<ge>48. j \<noteq> 255 \<longrightarrow> idt j = t j) \<and> dt_base ptr = a \<and> unat (dt_limit ptr) + 1 = 8 * 256"
proof -
  have "idt = init_gates interrupt t" "ptr = \<lparr>dt_limit = of_nat (8 * 256 - 1), dt_base = a\<rparr>"
    using assms by (auto simp: init_idt_def Let_def)
  then show ?thesis using init_gates_kernel [where t = t and interrupt = interrupt] by simp
qed

theorem idt_gates_witness:
  "kernel_gate (snd (fst (init_idt 0xC0110000 (\<lambda>j. 0xC0100000 + 16 * of_nat j) zero_gates sample_kernel)) 33) 0xC0100210 STS_IG32 0"
proof -
  let ?f = "\<lambda>j. 0xC0100000 + 16 * of_nat j :: uint"
  obtain ptr idt s' where eq: "init_idt 0xC0110000 ?f zero_gates sample_kernel = ((ptr, idt), s')" by (metis prod.exhaust)
  have "\<forall>j<48. kernel_gate (idt j) (?f j) STS_IG32 0" using idt_gates [OF eq] by blast
  then have "kernel_gate (idt 33) (?f 33) STS_IG32 0" by (rule allE [of _ 33]) simp
  then show ?thesis by (simp add: eq)
qed



section \<open>Virtual memory\<close>

text \<open>
  C26. \<open>map\<close> and \<open>unmap\<close> are inverse: after \<open>map\<close> the address resolves to its frame, after
  \<open>unmap\<close> it has no mapping, every address of another page resolves as it did before, and the
  frame's count is the old one.
\<close>

theorem map_unmap:
  assumes ok: "heap_ok s M" "M \<noteq> {#}" and k: "FindPageIndex p s = int k" "PG k \<notin># M"
    and p: "p AND 0xFFF = 0" "fl AND PAGE_MASK = 0" "p \<noteq> 0" and ref: "ref_num (phy_pages s (PG k)) < 0xFFFFFFFF"
  shows "\<exists>t u. map_page swap (pgd_kern s) fl p v s = kret (PG k) t \<and> getmapping (pgd_kern s) v True t = (1, Some p) \<and>
    unmap (pgd_kern s) v t = kret () u \<and> getmapping (pgd_kern s) v True u = (0, None) \<and>
    (\<forall>w. \<not> same_page w v \<longrightarrow> getmapping (pgd_kern s) w True t = getmapping (pgd_kern s) w True s \<and>
       getmapping (pgd_kern s) w True u = getmapping (pgd_kern s) w True s) \<and>
    ref_num (phy_pages u (PG k)) = ref_num (phy_pages s (PG k))"
proof -
  have al: "p AND PAGE_MASK = p" using p(1) aligned_and by (simp add: aligned_def)
  then have e: "(p OR fl) AND PAGE_MASK = p" using mask_entry [OF p(2), of p] by simp
  obtain t M' where t: "map_page swap (pgd_kern s) fl p v s = kret (PG k) t"
      "map_result s (pgd_kern s) (p OR fl) v k M t M'" "heap_ok t M'"
    using heap_map [OF ok k, of swap fl v] al by auto
  then have m: "tables_ok t (pgd_kern s)" "table t (pgd_kern s) v \<noteq> 0"
      "\<And>w. pte_of t (pgd_kern s) w = (if same_page w v then p OR fl else pte_of s (pgd_kern s) w)"
      "ref_num (phy_pages t (PG k)) = ref_num (phy_pages s (PG k)) + 1"
      "\<And>q. start_addr (phy_pages t q) = start_addr (phy_pages s q)"
    by (auto simp: map_result_def mapped_def)
  have "same_page v v" by (simp add: same_page_def)
  have "p OR fl \<noteq> 0" using e p(3) by auto
  have "FindPageIndex (pte_of t (pgd_kern s) v AND PAGE_MASK) t = int k"
    using k(1) FindPageIndex_cong [of t s] m(3,5) e \<open>same_page v v\<close> by simp
  with unmap_clears [OF m(1,2) this] m(4) ref obtain u where u: "unmap (pgd_kern s) v t = kret () u"
      "\<And>w. pte_of u (pgd_kern s) w = (if same_page w v then 0 else pte_of t (pgd_kern s) w)"
      "ref_num (phy_pages u (PG k)) = ref_num (phy_pages s (PG k))"
    by (auto simp: word_gt_0 word_less_nat_alt unat_plus_if')
  show ?thesis
    using t(1) u m(3) e \<open>p OR fl \<noteq> 0\<close> \<open>same_page v v\<close> by (auto simp: getmapping_pte)
qed

theorem map_unmap_witness:
  "\<exists>t u. map_page no_swap 0xC0001000 3 0x121000 0xE0000000 (sample_heap (\<lambda>_. 0)) = kret (PG 32) t \<and>
     getmapping 0xC0001000 0xE0000000 True t = (1, Some 0x121000) \<and>
     unmap 0xC0001000 0xE0000000 t = kret () u \<and> getmapping 0xC0001000 0xE0000000 True u = (0, None)"
proof -
  let ?s = "sample_heap (\<lambda>_. 0)"
  have f: "FindPageIndex 0x121000 ?s = int 32" using sample_find [of 32 "\<lambda>_. 0"] by simp
  have n: "PG 32 \<notin># mset free_frames" "mset free_frames \<noteq> {#}" 
    using free_frames_cases [of "PG 32"] free_frames_nonempty by auto
  have r: "ref_num (phy_pages ?s (PG 32)) < 0xFFFFFFFF" "pgd_kern ?s = 0xC0001000"
    by (simp_all add: sample_heap_def heap_pages_def frame_at_def)
  show ?thesis
    using map_unmap [OF sample_heap_ok(1) n(2) f n(1), of 3 no_swap "0xE0000000"] r by (auto simp: PAGE_MASK_def)
qed

text \<open>
  C27. \<open>init_vmm\<close> gives the kernel the direct map: the address of every byte of the frames from 4 KiB
  to 512 MiB, plus the offset, resolves to it.
\<close>

theorem direct_map:
  fixes s :: kheap
  assumes "aligned K" "unat K + 524288 \<le> 2 ^ 32" "aligned (cr3 s)"
    "unat (cr3 s + PAGE_OFFSET) + 4096 \<le> unat K \<or> unat K + 524288 \<le> unat (cr3 s + PAGE_OFFSET)"
    "4096 \<le> unat x" "unat x < 536870912"
  shows "walk PAGE_OFFSET (words (init_vmm K s)) (pgd_kern (init_vmm K s)) (x + PAGE_OFFSET) = Some x"
  using assms by (rule init_vmm_direct)

theorem direct_map_witness:
  "walk PAGE_OFFSET (words (init_vmm 0xC0400000 (sample_heap (\<lambda>_. 0)))) (pgd_kern (init_vmm 0xC0400000 (sample_heap (\<lambda>_. 0))))
     0xC0101234 = Some 0x101234"
proof -
  have "cr3 (sample_heap (\<lambda>_. 0)) = 0x1000" by (simp add: sample_heap_def)
  then show ?thesis
    using direct_map [of "0xC0400000" "sample_heap (\<lambda>_. 0)" "0x101234"] by (simp add: aligned_def PAGE_OFFSET_def)
qed

text \<open>
  C28. The frames begin a quarter of the image's size above 1 MiB, and the page tables are part of the
  image: when one of the tables lies among the frames, it is in the pool of the page allocator after
  start-up while the page directory refers to it, so that a later allocation hands out a page table
  in use.
\<close>

theorem tables_in_pool:
  assumes "boot_directory h" "tables_place K" "phy_page_num h = 0"
    and "one_region mmap (unat len) e" "unat kern_start \<le> unat kern_end" "unat kern_end - unat kern_start < 2 ^ 31"
    and "1048576 + unat (length_low (mmap e)) < 2 ^ 32" "i < 128"
    and "first_frame kern_start kern_end \<le> unat K - 3221225472 + 4096 * i"
    and "unat K - 3221225472 + 4096 * i <
      first_frame kern_start kern_end + 4096 * pages_used (frame_count (mmap e) kern_start kern_end)"
  shows "\<exists>t j. init_buddy mmap len kern_start kern_end h = kret () t \<and>
    j < pages_used (frame_count (mmap e) kern_start kern_end) \<and>
    buddy_pool (init_vmm K t) (mset (map PG [0..<pages_used (frame_count (mmap e) kern_start kern_end)])) \<and>
    table (init_vmm K t) (pgd_kern (init_vmm K t)) (PAGE_OFFSET + 0x400000 * of_nat i) =
      start_addr (phy_pages (init_vmm K t) (PG j))"
  using tables_among_frames [OF assms] .

theorem tables_in_pool_witness:
  "\<exists>t j. init_buddy sample_map 2 0xC0100000 0xC0104000 zero_heap = kret () t \<and> j < 14 \<and>
     buddy_pool (init_vmm 0xC0103000 t) (mset (map PG [0..<14])) \<and>
     table (init_vmm 0xC0103000 t) (pgd_kern (init_vmm 0xC0103000 t)) 0xC0400000 =
       start_addr (phy_pages (init_vmm 0xC0103000 t) (PG j))"
proof -
  have n: "frame_count (sample_map 1) 0xC0100000 0xC0104000 = 15" "first_frame 0xC0100000 0xC0104000 = 0x101000"
    by (simp_all add: frame_count_def nframes_def first_frame_def page_up_def sample_map_def)
  have "one_region sample_map (unat (2 :: uint)) 1" by (auto simp: one_region_def sample_map_def)
  moreover have "tables_place 0xC0103000" by (simp add: tables_place_def aligned_def)
  moreover have "phy_page_num zero_heap = 0" by (simp add: zero_heap_def)
  moreover have "1048576 + unat (length_low (sample_map 1)) < 2 ^ 32" by (simp add: sample_map_def)
  moreover have "pages_used 15 = 14" by (simp add: pages_used_def)
  ultimately show ?thesis
    using tables_in_pool [OF zero_directory, of "0xC0103000" sample_map 2 1 "0xC0100000" "0xC0104000" 1]
    by (simp add: n [unfolded One_nat_def] PAGE_OFFSET_def del: upt_rec_numeral)
qed

text \<open>
  The boot tables map the first 8 MiB twice, at their own addresses and at the kernel's offset,
  so that the code goes on running when paging is switched on and reaches the kernel's addresses.
\<close>

theorem boot_map:
  assumes "unat x < 8388608"
  shows "walk 0 (kern_entry_tables m) 0x1000 x = Some x \<and> walk 0 (kern_entry_tables m) 0x1000 (x + PAGE_OFFSET) = Some x"
  using kern_entry_maps [OF assms] by blast

theorem boot_map_witness:
  "walk 0 (kern_entry_tables (\<lambda>_. 0)) 0x1000 0x7FF123 = Some 0x7FF123 \<and>
   walk 0 (kern_entry_tables (\<lambda>_. 0)) 0x1000 0xC07FF123 = Some 0x7FF123"
  using boot_map [of "0x7FF123" "\<lambda>_. 0"] by (simp add: PAGE_OFFSET_def)

section \<open>The heap\<close>

text \<open>
  C29. Start-up of the slab allocator on an empty heap returns, without a panic, with a state from
  which \<open>kmalloc\<close> serves requests of less than two kilobytes: the cache of caches, the chain of
  fourteen caches in the order of the size classes, none of them with a slab, and at least a
  sixteenth of the free frames left.
\<close>

theorem init_slab_builds:
  assumes "heap_ok s M" "16 \<le> size M" "4096 dvd unat (heap_top s)" "unat (heap_top s) + 8192 < 2 ^ 32"
    "boot \<noteq> NULL" "unat boot < unat (heap_top s)"
  shows "\<exists>cs t M'. init_slab swap boot s = kret () t \<and> kmalloc_ready t M' cs ((\<lambda>_. [])(kmem_caches t := rev cs)) \<and>
    size M \<le> 16 * size M' + 15 \<and> unat (heap_top t) \<le> unat (heap_top s) + 8192"
  using init_slab_ready [OF assms] by blast

theorem init_slab_builds_witness:
  "\<exists>cs t M'. init_slab no_swap 0xC0300000 (sample_heap (\<lambda>_. 0)) = kret () t \<and>
     kmalloc_ready t M' cs ((\<lambda>_. [])(kmem_caches t := rev cs))"
proof -
  have "heap_top (sample_heap (\<lambda>_. 0)) = HEAP_START" by (simp add: sample_heap_def)
  then show ?thesis
    using init_slab_builds [OF sample_heap_ok(1), of "0xC0300000" no_swap] by (auto simp: HEAP_START_def free_frames_def)
qed

text \<open>
  C30. A request of less than two kilobytes whose class has room succeeds. The block has more bytes
  than were asked for and overlaps none of the blocks that are out, in any class, and the state
  serves further requests.
\<close>

theorem kmalloc_returns_block:
  assumes "kmalloc_ready s M cs P" "unat sz < 2048" and i: "i = class_of (unat sz)"
    and "length (P (cs ! i)) < cache_objs (class_bytes ! i)"
    and "P (cs ! i) = [] \<Longrightarrow> 2 \<le> size M \<and> unat (heap_top s) + 4096 < 2 ^ 32"
  shows "\<exists>p t M'. kmalloc swap sz s = kret p t \<and> unat sz < class_bytes ! i \<and>
    kmalloc_ready t M' cs (P(cs ! i := p # P (cs ! i))) \<and>
    (\<forall>j<8. \<forall>q\<in>set (P (cs ! j)). unat p + class_bytes ! i \<le> unat q \<or> unat q + class_bytes ! j \<le> unat p)"
proof -
  obtain p t M' where t: "kmalloc swap sz s = kret p t" "kmalloc_ready t M' cs (P(cs ! i := p # P (cs ! i)))"
    using kmalloc_serves [OF assms(1,2)] assms(4,5) i by blast
  have small: "i < 8" using small_class(1) [OF assms(1,2)] i by simp
  have c: "(cs ! i, of_nat (class_bytes ! i), cache_objs (class_bytes ! i)) \<in> set (small_classes cs @ [(kmem_caches t, 44, 88)])"
    using small by (auto simp: small_classes_def simp del: upt_rec_numeral)
  have new: "p \<notin> set (P (cs ! i))" using ready_distinct [OF t(2) c] by simp
  have "unat p + class_bytes ! i \<le> unat q \<or> unat q + class_bytes ! j \<le> unat p" if q: "j < 8" "q \<in> set (P (cs ! j))" for j q
  proof -
    have "p \<in> set ((P(cs ! i := p # P (cs ! i))) (cs ! i))" by simp
    moreover have "q \<in> set ((P(cs ! i := p # P (cs ! i))) (cs ! j))" using q(2) by auto
    moreover have "i \<noteq> j \<or> p \<noteq> q" using new q(2) by auto
    ultimately show ?thesis by (rule kmalloc_apart [OF t(2) small q(1)])
  qed
  with t class_of_bounds(2) [of "unat sz"] assms(2) i show ?thesis by auto
qed

theorem kmalloc_returns_block_witness:
  "\<exists>s p t. init_slab no_swap 0xC0300000 (sample_heap (\<lambda>_. 0)) = kret () s \<and> kmalloc no_swap 100 s = kret p t"
proof -
  obtain cs s M where s: "init_slab no_swap 0xC0300000 (sample_heap (\<lambda>_. 0)) = kret () s"
      "kmalloc_ready s M cs ((\<lambda>_. [])(kmem_caches s := rev cs))" "2 \<le> size M" "unat (heap_top s) + 4096 < 2 ^ 32"
    using sample_init by blast
  have i: "class_of (unat (100 :: uint)) = 2" by (simp add: class_of_def class_bytes_def)
  have "cs ! 2 \<noteq> kmem_caches s" using small_class(3) [OF s(2), of 100] i by simp
  then have e: "((\<lambda>_. [])(kmem_caches s := rev cs)) (cs ! 2) = []" by simp
  have "\<exists>p t. kmalloc no_swap 100 s = kret p t"
    using kmalloc_returns_block [OF s(2) _ i [symmetric], of no_swap] e s(3,4) by (auto simp: cache_objs_def class_bytes_def)
  with s(1) show ?thesis by blast
qed

text \<open>
  C31. When all blocks of a class are out, the next request of that class reads through a null
  pointer: the slab that filled up is appended to the empty list of full slabs. For requests of
  1024 bytes and more a slab has one block, so the second request already fails.
\<close>

theorem kmalloc_full_class:
  assumes "kmalloc_ready s M cs P" "unat sz < 2048"
    "length (P (cs ! class_of (unat sz))) = cache_objs (class_bytes ! class_of (unat sz))"
  shows "kmalloc swap sz s = kstop (Undefined ''NULL'')"
  using assms by (rule kmalloc_full)

theorem kmalloc_full_class_witness:
  "\<exists>s p t. init_slab no_swap 0xC0300000 (sample_heap (\<lambda>_. 0)) = kret () s \<and> kmalloc no_swap 1024 s = kret p t \<and>
     kmalloc no_swap 1500 t = kstop (Undefined ''NULL'')"
proof -
  obtain cs s M where s: "init_slab no_swap 0xC0300000 (sample_heap (\<lambda>_. 0)) = kret () s"
      "kmalloc_ready s M cs ((\<lambda>_. [])(kmem_caches s := rev cs))" "2 \<le> size M" "unat (heap_top s) + 4096 < 2 ^ 32"
    using sample_init by blast
  have i: "class_of (unat (1024 :: uint)) = 7" "class_of (unat (1500 :: uint)) = 7"
    by (simp_all add: class_of_def class_bytes_def)
  have one: "cache_objs (class_bytes ! 7) = 1" by (simp add: cache_objs_def class_bytes_def)
  have "cs ! 7 \<noteq> kmem_caches s" using small_class(3) [OF s(2), of 1024] i by simp
  then have e: "((\<lambda>_. [])(kmem_caches s := rev cs)) (cs ! 7) = []" by simp
  obtain p t M' where t: "kmalloc no_swap 1024 s = kret p t"
      "kmalloc_ready t M' cs (((\<lambda>_. [])(kmem_caches s := rev cs))(cs ! 7 := [p]))"
    by (rule kmalloc_serves_class [OF s(2) _ i(1) e, of no_swap], simp, simp add: one, use s(3,4) in simp, rule that)
  have "kmalloc no_swap 1500 t = kstop (Undefined ''NULL'')"
    by (rule kmalloc_full_class [OF t(2)]) (simp_all add: i(2) [simplified] one)
  with s(1) t(1) show ?thesis by blast
qed

text \<open>
  C32. \<open>kmalloc\<close> always ends its search: it allocates from the cache of the smallest class with more
  bytes than the request, and panics for 128 KiB and more.
\<close>

theorem kmalloc_picks_class:
  assumes "chain (caches s) (c_next (caches s (kmem_caches s))) cs" "map (\<lambda>c. cname (caches s c)) cs = kmem_cache_info"
  shows "kmalloc swap sz s =
    (if unat sz < 131072 then init_kmem_cache_alloc swap (cs ! class_of (unat sz)) s
     else kstop (Panic (line ''error while in kmalloc'')))"
  using assms by (rule kmalloc_class)

theorem kmalloc_picks_class_witness:
  "\<exists>s. init_slab no_swap 0xC0300000 (sample_heap (\<lambda>_. 0)) = kret () s \<and>
     kmalloc no_swap 131072 s = kstop (Panic (line ''error while in kmalloc''))"
proof -
  obtain cs s M where s: "init_slab no_swap 0xC0300000 (sample_heap (\<lambda>_. 0)) = kret () s"
      "kmalloc_ready s M cs ((\<lambda>_. [])(kmem_caches s := rev cs))" using sample_init by blast
  then have "chain (caches s) (c_next (caches s (kmem_caches s))) cs" "map (\<lambda>c. cname (caches s c)) cs = kmem_cache_info"
    by (simp_all add: kmalloc_ready_def)
  from kmalloc_picks_class [OF this, of no_swap 131072] s(1) show ?thesis by auto
qed

text \<open>
  C33. The objects of a slab: every sequence of takes and returns of a client ends, the objects that
  are out are distinct, never null and at most as many as the slab has, and each lies at a multiple
  of the object size from the start of the object area.
\<close>

theorem slab_objects:
  assumes "slab_pool a z n s []"
  shows "\<exists>H t. obj_client (GetObj a z) (\<lambda>p. FreeObj p a z) ops [] s = kret H t \<and> slab_pool a z n t H \<and>
    distinct H \<and> length H \<le> n \<and> NULL \<notin> set H \<and> (\<forall>p\<in>set H. \<exists>i<n. p = obj_at t a z i)"
proof -
  obtain H t where t: "obj_client (GetObj a z) (\<lambda>p. FreeObj p a z) ops [] s = kret H t" "slab_pool a z n t H"
    using so.client_pool [OF assms] by blast
  obtain ids where "H = map (obj_at t a z) ids" "\<And>i. i \<in> set ids \<Longrightarrow> i < n"
    using pool_ids [OF t(2)] by blast
  then have "\<forall>p\<in>set H. \<exists>i<n. p = obj_at t a z i" by auto
  with t so.held [OF t(2)] show ?thesis by blast
qed

theorem slab_objects_witness:
  "\<exists>H t. obj_client (GetObj HEAP_START 44) (\<lambda>p. FreeObj p HEAP_START 44) [Get, Get, Get, Put 1, Get] [] one_slab = kret H t \<and>
     length H \<le> 2"
  using slab_objects [OF one_slab_pool] by blast

text \<open>
  C34. A slab of \<open>n\<close> pages, \<open>n\<close> at least 3, does not get the frames of its block \<open>B\<close>: \<open>map\<close> moves
  \<open>pg_list\<close> to the frame it has mapped, and step \<open>j\<close> counts \<open>j\<close> frames on from there. So page \<open>j\<close> gets
  the frame \<open>j * (j + 1) / 2\<close> places behind the first of the block, which belongs to the block
  exactly when that number is below \<open>n\<close>. The last page always gets a frame outside the block, and
  this frame is what \<open>pg_list\<close> is left at. (A slab of two pages gets the two frames of its block; the
  classes from 8 KB on have slabs of four pages and more.)
\<close>

theorem slab_pages_skip_frames:
  assumes "tables_ok s (pgd_kern s)" "frames_in_row s b N" "frame_of_step k (n - 1) < N"
    and "B = map PG [k..<k + n]" "3 \<le> n"
    and "4096 dvd unat (heap_top s)" "unat (heap_top s) + 4096 * n \<le> 2 ^ 32"
    and "\<And>j. j < n \<Longrightarrow> table s (pgd_kern s) (heap_top s + 4096 * of_nat j) \<noteq> 0"
  shows "\<exists>t pg. apply_loop swap n 0 (hd B) s = kret pg t \<and> pg = PG (k + (n - 1) * n div 2) \<and> pg \<notin> set B \<and>
    (\<forall>j<n. pte_of t (pgd_kern s) (heap_top s + 4096 * of_nat j) =
       (start_addr (phy_pages s (PG (k + j * (j + 1) div 2))) AND PAGE_MASK) OR PTE_P OR PTE_W \<and>
       (PG (k + j * (j + 1) div 2) \<in> set B \<longleftrightarrow> j * (j + 1) div 2 < n))"
proof -
  have "k < N" using assms(3) frame_of_step_mono [of 0 "n - 1" k] by (simp add: frame_of_step_def)
  then have "start_addr (phy_pages s (PG k)) = b + 4096 * of_nat k" using assms(2) by (simp add: frames_in_row_def)
  moreover have "frame_of_step k (0 + n - 1) < N" "k + 0 = frame_of_step k 0" using assms(3) by (simp_all add: frame_of_step_def)
  ultimately obtain t pg where t: "apply_loop swap n 0 (PG k) s = kret pg t" "pg = PG (frame_of_step k (n - 1))"
      "\<And>j. j < n \<Longrightarrow> pte_of t (pgd_kern s) (heap_top s + 4096 * of_nat j) =
        ((b + 4096 * of_nat (frame_of_step k j)) AND PAGE_MASK) OR PTE_P OR PTE_W"
    using apply_loop_frames [OF assms(1,2), of k k 0 n swap] assms(5-8) by auto
  have "start_addr (phy_pages s (PG (frame_of_step k j))) = b + 4096 * of_nat (frame_of_step k j)" if "j < n" for j
  proof -
    have "frame_of_step k j \<le> frame_of_step k (n - 1)" using that by (intro frame_of_step_mono) simp
    then have "frame_of_step k j < N" using assms(3) by simp
    then show ?thesis using assms(2) by (simp add: frames_in_row_def)
  qed
  note addr = this
  have hd: "hd B = PG k" using assms(4,5) by (simp add: upt_conv_Cons)
  have inB: "PG (k + i) \<in> set B \<longleftrightarrow> i < n" for i using assms(4) by auto
  have "2 * n \<le> (n - 1) * n" using assms(5) by (intro mult_le_mono1) simp
  from div_le_mono [OF this, of 2] have "n \<le> (n - 1) * n div 2" by simp
  then have "pg \<notin> set B" "pg = PG (k + (n - 1) * n div 2)"
    using t(2) assms(5) inB [of "(n - 1) * n div 2"] by (simp_all add: frame_of_step_def)
  moreover have "pte_of t (pgd_kern s) (heap_top s + 4096 * of_nat j) =
      (start_addr (phy_pages s (PG (k + j * (j + 1) div 2))) AND PAGE_MASK) OR PTE_P OR PTE_W" if "j < n" for j
    using t(3) [OF that] addr [OF that] by (simp add: frame_of_step_def)
  ultimately show ?thesis using t(1) inB unfolding hd by blast
qed

theorem slab_pages_skip_frames_witness:
  "\<exists>t. apply_loop no_swap 4 0 (PG 8) (sample_heap heap_dir) = kret (PG 14) t \<and>
     PG 14 \<notin> set (map PG [8..<12]) \<and> pte_of t 0xC0001000 0xE0003000 = (0x101000 + 4096 * 14) OR PTE_P OR PTE_W"
proof -
  let ?s = "sample_heap heap_dir" and ?B = "map PG [8..<8 + 4]"
  have s: "pgd_kern ?s = 0xC0001000" "heap_top ?s = 0xE0000000" "hd ?B = PG 8"
    by (simp_all add: sample_heap_def HEAP_START_def upt_rec)
  have row: "frames_in_row ?s 0x101000 33"
    using frame_addr(1) sample_find by (simp add: frames_in_row_def)
  have tab: "table ?s (pgd_kern ?s) (heap_top ?s + 4096 * of_nat j) \<noteq> 0" if "j < 4" for j
  proof -
    have "j \<in> {0, 1, 2, 3}" using that by auto
    then show ?thesis unfolding s table_heap by (auto simp: PGD_IDX_def)
  qed
  have "frame_of_step 8 (4 - 1) < 33" "4096 dvd unat (heap_top ?s)" "unat (heap_top ?s) + 4096 * 4 \<le> 2 ^ 32"
    by (simp_all add: frame_of_step_def s)
  from slab_pages_skip_frames [OF _ row this(1) refl _ this(2,3) tab, where swap = no_swap] sample_tables(2)
  obtain t where t: "apply_loop no_swap 4 0 (PG 8) ?s = kret (PG (8 + (4 - 1) * 4 div 2)) t"
      "PG (8 + (4 - 1) * 4 div 2) \<notin> set ?B"
      "\<forall>j<4. pte_of t (pgd_kern ?s) (heap_top ?s + 4096 * of_nat j) =
         (start_addr (phy_pages ?s (PG (8 + j * (j + 1) div 2))) AND PAGE_MASK) OR PTE_P OR PTE_W"
    unfolding s(3) by (auto simp: s(1) simp del: upt_rec_numeral)
  have "pte_of t (pgd_kern ?s) (heap_top ?s + 4096 * of_nat 3) =
      (start_addr (phy_pages ?s (PG (8 + 3 * (3 + 1) div 2))) AND PAGE_MASK) OR PTE_P OR PTE_W"
    by (rule t(3) [rule_format]) simp
  then show ?thesis using t(1,2) frame_addr(1) [of 14 heap_dir] by (auto simp: s PAGE_MASK_def)
qed

text \<open>
  C35. \<open>kfree\<close> of one of several blocks of a class takes the slab off the list of its cache although
  other blocks of it are out: a \<open>kfree\<close> of another of these blocks finds no slab and panics.
\<close>

theorem kfree_drops_slab:
  assumes "kmalloc_ready s M cs P" "i < 8" "p \<in> set (P (cs ! i))" "q \<in> set (P (cs ! i))" "p \<noteq> q"
  shows "\<exists>t. kfree p s = kret () t \<and> kfree q t = kstop (Panic (line ''error,obj not in slab management''))"
  using assms by (rule kfree_loses_slab)

theorem kfree_drops_slab_witness:
  "\<exists>s p t q u v. init_slab no_swap 0xC0300000 (sample_heap (\<lambda>_. 0)) = kret () s \<and>
     kmalloc no_swap 20 s = kret p t \<and> kmalloc no_swap 20 t = kret q u \<and> kfree p u = kret () v \<and>
     kfree q v = kstop (Panic (line ''error,obj not in slab management''))"
proof -
  obtain cs s M where s: "init_slab no_swap 0xC0300000 (sample_heap (\<lambda>_. 0)) = kret () s"
      "kmalloc_ready s M cs ((\<lambda>_. [])(kmem_caches s := rev cs))" "2 \<le> size M" "unat (heap_top s) + 4096 < 2 ^ 32"
    using sample_init by blast
  have i: "class_of (unat (20 :: uint)) = 0" by (simp add: class_of_def class_bytes_def)
  have n: "cache_objs (class_bytes ! 0) = 119" by (simp add: cache_objs_def class_bytes_def)
  have "cs ! 0 \<noteq> kmem_caches s" using small_class(3) [OF s(2), of 20] i by simp
  then have e: "((\<lambda>_. [])(kmem_caches s := rev cs)) (cs ! 0) = []" by simp
  let ?P = "((\<lambda>_. [])(kmem_caches s := rev cs))"
  obtain p t M1 where t: "kmalloc no_swap 20 s = kret p t" "kmalloc_ready t M1 cs (?P(cs ! 0 := [p]))"
    by (rule kmalloc_serves_class [OF s(2) _ i e, of no_swap], simp, simp add: n, use s(3,4) in simp, rule that)
  have held: "(?P(cs ! 0 := [p])) (cs ! 0) = [p]" by simp
  obtain q u M2 where u: "kmalloc no_swap 20 t = kret q u" "kmalloc_ready u M2 cs (?P(cs ! 0 := [p], cs ! 0 := [q, p]))"
    by (rule kmalloc_serves_class [OF t(2) _ i held, of no_swap], simp, simp add: n, simp, rule that)
  have "(cs ! 0, of_nat (class_bytes ! 0), cache_objs (class_bytes ! 0)) \<in> set (small_classes cs @ [(kmem_caches u, 44, 88)])"
    by (auto simp: small_classes_def simp del: upt_rec_numeral)
  then have "p \<noteq> q" using ready_distinct [OF u(2)] by fastforce
  then obtain v where "kfree p u = kret () v" "kfree q v = kstop (Panic (line ''error,obj not in slab management''))"
    using kfree_drops_slab [OF u(2), of 0 p q] by auto
  with s(1) t(1) u(1) show ?thesis by blast
qed

section \<open>Regions, page faults and eviction\<close>

text \<open>
  C36. \<open>init_mm\<close> on a heap whose class of 32-byte blocks has room for two returns; the memory map
  of the kernel then has the kernel's page directory and exactly one region, which reaches from the
  end of the kernel to 0xF0000000, the swap manager is on, and the heap serves further requests.
\<close>

theorem init_mm_region:
  assumes "kmalloc_ready s M cs P" "length (P (cs ! 0)) + 2 \<le> cache_objs (class_bytes ! 0)"
    "P (cs ! 0) = [] \<Longrightarrow> 2 \<le> size M \<and> unat (heap_top s) + 4096 < 2 ^ 32"
  shows "\<exists>t M' mm vma. init_mm kern_end s = kret () t \<and> kmalloc_ready t M' cs (P(cs ! 0 := vma # mm # P (cs ! 0))) \<and>
    one_region_map t mm vma kern_end \<and> clock_point t = clock_point s"
  using init_mm_ready [OF assms, of kern_end] by blast

theorem init_mm_region_witness:
  "\<exists>s t mm vma. init_slab swap_one 0xC0300000 (sample_heap (\<lambda>_. 0)) = kret () s \<and> init_mm 0xC0110000 s = kret () t \<and>
     one_region_map t mm vma 0xC0110000"
proof -
  obtain cs s M where s: "init_slab swap_one 0xC0300000 (sample_heap (\<lambda>_. 0)) = kret () s"
      "kmalloc_ready s M cs ((\<lambda>_. [])(kmem_caches s := rev cs))" "2 \<le> size M" "unat (heap_top s) + 4096 < 2 ^ 32"
    using sample_init by blast
  have "cs ! 0 \<noteq> kmem_caches s"
    using small_class(3) [OF s(2), of 20] by (simp add: class_of_def class_bytes_def)
  then have e: "((\<lambda>_. [])(kmem_caches s := rev cs)) (cs ! 0) = []" by simp
  have "length (((\<lambda>_. [])(kmem_caches s := rev cs)) (cs ! 0)) + 2 \<le> cache_objs (class_bytes ! 0)"
    unfolding e by (simp add: cache_objs_def class_bytes_def)
  from init_mm_region [OF s(2) this, of "0xC0110000"] s(1,3,4) show ?thesis by blast
qed

text \<open>
  C37. A fault at an absent page of a region, in the reach of a page table the directory already
  has, is served: the page gets the first frame of a block of the page allocator, with the rights of
  the region; no other page changes, the block has left the pool, and it stands at the end of the
  clock list.
\<close>

theorem page_fault_maps:
  assumes "heap_ok s M" "M \<noteq> {#}" "err_code AND 0x1 = 0"
    and "check_mm_struct s = mm" "mm \<noteq> NULL" "mm_pgd (mms s mm) = pgd_kern s"
    and "vma_chain (vmas s) (vma_list (mms s mm)) R" "region_for s mm R v = a" "a \<noteq> NULL"
    and "table s (pgd_kern s) v \<noteq> 0" "table s (pgd_kern s) v + PAGE_OFFSET \<noteq> 0" "pte_of s (pgd_kern s) v = 0"
    and "clock_list s C" "set C \<inter> set_mset M = {}"
  shows "\<exists>t B M'. pgfault_handler eip err_code v s = kret () t \<and> M = M' + mset B \<and> B \<noteq> [] \<and> heap_ok t M' \<and>
    resident t B v \<and> clock_list t (C @ B) \<and>
    (\<forall>w. pte_of t (pgd_kern s) w =
       (if same_page w v then start_addr (phy_pages s (hd B)) OR fault_perm (vmas s a) else pte_of s (pgd_kern s) w))"
proof -
  obtain x y z where h: "pgfault_handler eip err_code v s =
      kbind (do_pgfault mm v (say x (say y (say z s)))) (\<lambda>_ s. kret () s)"
    using pgfault_absent [OF assms(3)] assms(4) by blast
  let ?s = "say x (say y (say z s))"
  have "heap_ok ?s M" "mm_pgd (mms ?s mm) = pgd_kern ?s" "vma_chain (vmas ?s) (vma_list (mms ?s mm)) R"
    "region_for ?s mm R v = a" "table ?s (pgd_kern ?s) v \<noteq> 0" "table ?s (pgd_kern ?s) v + PAGE_OFFSET \<noteq> 0"
    "pte_of ?s (pgd_kern ?s) v = 0" "clock_list ?s C"
    using assms by simp_all
  from do_pgfault_maps [OF this(1) assms(2,5) this(2-4) assms(9) this(5-8) assms(14)]
  obtain t B M' where t: "do_pgfault mm v ?s = kret (-1) t" "M = M' + mset B" "B \<noteq> []" "heap_ok t M'" "resident t B v"
      "clock_list t (C @ B)"
      "\<forall>w. pte_of t (pgd_kern ?s) w = (if same_page w v then start_addr (phy_pages ?s (hd B)) OR fault_perm (vmas ?s a)
         else pte_of ?s (pgd_kern ?s) w)"
    by blast
  have "pgfault_handler eip err_code v s = kret () t" by (simp add: h t(1))
  with t(2-7) show ?thesis unfolding say_reads kept by blast
qed

theorem page_fault_maps_witness:
  "\<exists>t B. pgfault_handler 0xC0100000 2 0xE0008700 sample_mm = kret () t \<and> clock_list t B \<and>
     pte_of t 0xC0001000 0xE0008700 = start_addr (phy_pages sample_mm (hd B)) OR 7"
proof -
  have v: "same_page 0xE0008700 0xE0008700" by (simp add: same_page_def)
  have "\<exists>t B M'. pgfault_handler 0xC0100000 2 0xE0008700 sample_mm = kret () t \<and> mset free_frames = M' + mset B \<and> B \<noteq> [] \<and>
    heap_ok t M' \<and> resident t B 0xE0008700 \<and> clock_list t ([] @ B) \<and>
    (\<forall>w. pte_of t (pgd_kern sample_mm) w =
       (if same_page w 0xE0008700 then start_addr (phy_pages sample_mm (hd B)) OR fault_perm (vmas sample_mm 0xE0001100)
        else pte_of sample_mm (pgd_kern sample_mm) w))"
    using free_frames_nonempty
    by (intro page_fault_maps [OF sample_mm_facts(1) _ _ sample_mm_facts(2) _ sample_mm_facts(4,6,8)])
      (simp_all add: sample_mm_facts clock_list_def PGD_IDX_def PAGE_OFFSET_def)
  then obtain t B where "pgfault_handler 0xC0100000 2 0xE0008700 sample_mm = kret () t" "clock_list t B"
      "pte_of t 0xC0001000 0xE0008700 = start_addr (phy_pages sample_mm (hd B)) OR fault_perm (vmas sample_mm 0xE0001100)"
    using v by (auto simp: sample_mm_facts(3))
  then show ?thesis using sample_mm_facts(7) by (auto simp: fault_perm_def PTE_P_def PTE_W_def PTE_U_def)
qed

text \<open>
  C38. The life of the only swappable page: when the clock list is empty, a fault at an absent page of
  a writable region maps it, and \<open>swap_out\<close> of one page then clears the present bit of exactly that
  entry and returns the whole block, so that the books of the page allocator are those of before the
  fault. With a second page in the clock list the frame is not returned: \<open>swap_out_shared\<close>.
\<close>

theorem fault_then_eviction:
  assumes "heap_ok s M" "M \<noteq> {#}" "mm \<noteq> NULL" "mm_pgd (mms s mm) = pgd_kern s"
    and "vma_chain (vmas s) (vma_list (mms s mm)) R" "region_for s mm R v = a" "a \<noteq> NULL"
    and "vm_flags (vmas s a) AND PTE_W \<noteq> 0"
    and "table s (pgd_kern s) v \<noteq> 0" "table s (pgd_kern s) v + PAGE_OFFSET \<noteq> 0" "pte_of s (pgd_kern s) v = 0"
    and "clock_point s = Pnull"
  shows "\<exists>t u. do_pgfault mm v s = kret (-1) t \<and> bit (pte_of t (pgd_kern s) v) 0 \<and>
    swap_out mm 1 t = kret 1 u \<and> heap_ok u M \<and> \<not> bit (pte_of u (pgd_kern s) v) 0 \<and>
    (\<forall>w. \<not> same_page w v \<longrightarrow> pte_of u (pgd_kern s) w = pte_of s (pgd_kern s) w)"
  using assms by (rule fault_and_evict)

theorem fault_then_eviction_witness:
  "\<exists>t u. do_pgfault 0xE0001140 0xE0008700 sample_mm = kret (-1) t \<and> bit (pte_of t 0xC0001000 0xE0008700) 0 \<and>
     swap_out 0xE0001140 1 t = kret 1 u \<and> \<not> bit (pte_of u 0xC0001000 0xE0008700) 0"
proof -
  have "\<exists>t u. do_pgfault 0xE0001140 0xE0008700 sample_mm = kret (-1) t \<and> bit (pte_of t (pgd_kern sample_mm) 0xE0008700) 0 \<and>
    swap_out 0xE0001140 1 t = kret 1 u \<and> heap_ok u (mset free_frames) \<and> \<not> bit (pte_of u (pgd_kern sample_mm) 0xE0008700) 0 \<and>
    (\<forall>w. \<not> same_page w 0xE0008700 \<longrightarrow> pte_of u (pgd_kern sample_mm) w = pte_of sample_mm (pgd_kern sample_mm) w)"
    using free_frames_nonempty
    by (intro fault_then_eviction [OF sample_mm_facts(1) _ _ sample_mm_facts(4,6,8) _ sample_mm_facts(7)])
      (simp_all add: sample_mm_facts PGD_IDX_def PAGE_OFFSET_def)
  then show ?thesis unfolding sample_mm_facts(3) by blast
qed

text \<open>
  C39. The faults that are not served. A fault on a present page never returns. At an address
  outside every region the handler returns with nothing mapped, so the access faults again. In a
  region, but in the reach of no page table, the handler itself faults: it reads the entry from a
  table at physical page 0, which the kernel has not mapped.
\<close>

theorem page_fault_errors:
  assumes "mm \<noteq> NULL" "vma_chain (vmas s) (vma_list (mms s mm)) R"
  shows "(err_code AND 0x1 \<noteq> 0 \<longrightarrow> pgfault_handler eip err_code v s = None) \<and>
    (region_for s mm R v = NULL \<longrightarrow> (\<exists>t. do_pgfault mm v s = kret (-1) t \<and> words t = words s \<and> phy_pages t = phy_pages s \<and>
       buddy_table t = buddy_table s)) \<and>
    (region_for s mm R v \<noteq> NULL \<longrightarrow> table s (mm_pgd (mms s mm)) v = 0 \<longrightarrow>
       do_pgfault mm v s = kstop (Undefined ''page fault''))"
  using do_pgfault_outside [OF assms] do_pgfault_no_table [OF assms] pgfault_present by fastforce

theorem page_fault_errors_witness:
  "pgfault_handler 0xC0100000 3 0xE0008700 sample_mm = None \<and>
   (\<exists>t. do_pgfault 0xE0001140 0xB0000000 sample_mm = kret (-1) t \<and> words t = words sample_mm) \<and>
   do_pgfault 0xE0001140 0xE8000000 sample_mm = kstop (Undefined ''page fault'')"
proof -
  have r: "region_for sample_mm 0xE0001140 [0xE0001100] 0xE8000000 \<noteq> NULL"
    by (simp add: sample_mm_def sample_heap_def no_mm_def no_vma_def region_for_def covers_def)
  have t: "table sample_mm (mm_pgd (mms sample_mm 0xE0001140)) 0xE8000000 = 0"
    by (simp add: sample_mm_facts PGD_IDX_def)
  have n: "(0xE0001140 :: addr) \<noteq> NULL" by simp
  note e = page_fault_errors [OF n sample_mm_facts(6)]
  have "pgfault_handler 0xC0100000 3 0xE0008700 sample_mm = None" using e [of 3] by simp
  moreover have "\<exists>t. do_pgfault 0xE0001140 0xB0000000 sample_mm = kret (-1) t \<and> words t = words sample_mm"
    using e [of 0 _ "0xB0000000"] sample_mm_facts(9) by blast
  moreover have "do_pgfault 0xE0001140 0xE8000000 sample_mm = kstop (Undefined ''page fault'')"
    using e [of 0 _ "0xE8000000"] r t by blast
  ultimately show ?thesis by blast
qed

text \<open>
  C40. A memory map never has more than one region: of any sequence of regions put into an empty map
  only the first is in the list, while the count says one more than were put in.
\<close>

theorem regions_lost:
  assumes "vma_list (mms s mm) = NULL" "\<And>v. v \<in> set vs \<Longrightarrow> vm_next (vmas s v) = NULL" "vs \<noteq> []" "hd vs \<noteq> NULL"
  shows "\<exists>t. insert_all mm vs s = kret () t \<and> vma_chain (vmas t) (vma_list (mms t mm)) [hd vs] \<and>
    vma_cnt (mms t mm) = vma_cnt (mms s mm) + int (length vs) + 1"
  using assms by (rule insert_all_loses)

theorem regions_lost_witness:
  "\<exists>t. insert_all 0x6000 [0x5000, 0x5018] (sample_heap (\<lambda>_. 0)) = kret () t \<and>
     vma_chain (vmas t) (vma_list (mms t 0x6000)) [0x5000] \<and> vma_cnt (mms t 0x6000) = 3"
  using regions_lost [of "sample_heap (\<lambda>_. 0)" "0x6000" "[0x5000, 0x5018]"]
  by (simp add: sample_heap_def no_mm_def no_vma_def)

end
